(* ===== verification/Rust_Prelude.thy ===== *)
theory Rust_Prelude
  imports Main "HOL-Library.Word" "HOL-Library.AList" "HOL-Library.Multiset"
    "HOL-Library.Char_ord" "HOL-Library.List_Lexorder"
begin

text \<open>
  The part of Rust and its standard library the other theories rely on: byte strings,
  machine integers, decimal printing and parsing, lossy UTF-8 decoding, ASCII case
  mapping, and hash tables as association lists with distinct keys.

  A byte is a value of \<open>char\<close> (Isabelle's characters are exactly the 256 bytes), so
  \<open>Bytes\<close>, \<open>&[u8]\<close> and the UTF-8 contents of a Rust \<open>String\<close> are all lists of
  \<open>char\<close>, and a literal such as \<open>''GET''\<close> is the byte string of the source.
  Signed 64-bit integers are \<open>int\<close> with the wrap-around of the release profile
  (\<open>Cargo.toml\<close> enables no overflow checks there) written out; hashes, stream ids and
  version counters are \<open>64 word\<close>; \<open>usize\<close> lengths are \<open>nat\<close>.
\<close>

named_theorems value_inv_intros

type_synonym bytes = "char list"
type_synonym 'v table = "(bytes \<times> 'v) list"
type_synonym 'a result = "bytes + 'a"
type_synonym instant = nat
type_synonym f64 = "64 word"
type_synonym hasher = "bytes \<Rightarrow> 64 word"

subsection \<open>Machine integers\<close>

definition in_i64 :: "int \<Rightarrow> bool" where
  "in_i64 x \<longleftrightarrow> - (2 ^ 63) \<le> x \<and> x < 2 ^ 63"

definition wrap_i64 :: "int \<Rightarrow> int" where
  "wrap_i64 x = (x + 2 ^ 63) mod 2 ^ 64 - 2 ^ 63"

definition as_usize :: "int \<Rightarrow> nat" where
  "as_usize x = nat (x mod 2 ^ 64)"

definition as_u32 :: "int \<Rightarrow> nat" where
  "as_u32 x = nat (x mod 2 ^ 32)"

definition checked_add_i64 :: "int \<Rightarrow> int \<Rightarrow> int option" where
  "checked_add_i64 a b = (if in_i64 (a + b) then Some (a + b) else None)"

definition usize_max :: nat where
  "usize_max = 2 ^ 64 - 1"

lemma wrap_i64_id [simp]: "in_i64 x \<Longrightarrow> wrap_i64 x = x"
  by (simp add: wrap_i64_def in_i64_def)

lemma in_i64_wrap [simp]: "in_i64 (wrap_i64 x)"
proof -
  have "0 \<le> (x + 2 ^ 63) mod (2 ^ 64 :: int)" by (rule pos_mod_sign) simp
  moreover have "(x + 2 ^ 63) mod (2 ^ 64 :: int) < 2 ^ 64" by (rule pos_mod_bound) simp
  ultimately show ?thesis by (simp add: wrap_i64_def in_i64_def)
qed

lemma int_less_i64: "n < 2 ^ 63 \<longleftrightarrow> int n < 2 ^ 63"
  by (metis of_nat_less_iff of_nat_numeral of_nat_power)

lemma in_i64_int: "n < 2 ^ 63 \<Longrightarrow> in_i64 (int n)"
  unfolding int_less_i64 by (simp add: in_i64_def)

lemma as_usize_nonneg: "0 \<le> x \<Longrightarrow> in_i64 x \<Longrightarrow> as_usize x = nat x"
  by (simp add: as_usize_def in_i64_def)

lemma checked_add_i64_Some: "checked_add_i64 a b = Some c \<longleftrightarrow> c = a + b \<and> in_i64 (a + b)"
  by (auto simp: checked_add_i64_def)

subsection \<open>Decimal numbers\<close>

definition digit_char :: "nat \<Rightarrow> char" where
  "digit_char d = char_of (48 + d)"

definition hex_digit :: "nat \<Rightarrow> char" where
  "hex_digit d = (if d < 10 then digit_char d else char_of (87 + d))"

definition digit_value :: "char \<Rightarrow> nat option" where
  "digit_value c = (let n = of_char c in if 48 \<le> n \<and> n \<le> 57 then Some (n - 48) else None)"

fun nat_to_string :: "nat \<Rightarrow> bytes" where
  "nat_to_string n =
     (if n < 10 then [digit_char n] else nat_to_string (n div 10) @ [digit_char (n mod 10)])"

declare nat_to_string.simps [simp del]

definition int_to_string :: "int \<Rightarrow> bytes" where
  "int_to_string i =
     (if i < 0 then CHR ''-'' # nat_to_string (nat (- i)) else nat_to_string (nat i))"

fun digits_value :: "nat \<Rightarrow> bytes \<Rightarrow> nat option" where
  "digits_value acc [] = Some acc"
| "digits_value acc (c # cs) =
     (case digit_value c of None \<Rightarrow> None | Some d \<Rightarrow> digits_value (10 * acc + d) cs)"

text \<open>
  \<open>str::parse\<close> for integers: an optional sign (only \<open>+\<close> for an unsigned type), at least
  one digit, nothing else, and a value that fits the type.
\<close>

definition parse_digits :: "bytes \<Rightarrow> nat option" where
  "parse_digits s = (if s = [] then None else digits_value 0 s)"

definition parse_i64 :: "bytes \<Rightarrow> int option" where
  "parse_i64 s =
     (case s of
        [] \<Rightarrow> None
      | c # cs \<Rightarrow>
          (let r = (if c = CHR ''-'' then map_option (\<lambda>n. - int n) (parse_digits cs)
                    else if c = CHR ''+'' then map_option int (parse_digits cs)
                    else map_option int (parse_digits s))
           in case r of None \<Rightarrow> None | Some i \<Rightarrow> if in_i64 i then Some i else None))"

definition parse_u64 :: "bytes \<Rightarrow> nat option" where
  "parse_u64 s =
     (case s of
        [] \<Rightarrow> None
      | c # cs \<Rightarrow>
          (case (if c = CHR ''+'' then parse_digits cs else parse_digits s) of
             None \<Rightarrow> None
           | Some n \<Rightarrow> if n < 2 ^ 64 then Some n else None))"

lemma of_char_digit_char: "d < 10 \<Longrightarrow> (of_char (digit_char d) :: nat) = 48 + d"
  by (simp add: digit_char_def of_char_of)

lemma digit_value_digit_char [simp]: "d < 10 \<Longrightarrow> digit_value (digit_char d) = Some d"
  by (simp add: digit_value_def of_char_digit_char)

lemma digits_value_append:
  "digits_value a (xs @ ys) =
     (case digits_value a xs of None \<Rightarrow> None | Some b \<Rightarrow> digits_value b ys)"
  by (induction xs arbitrary: a) (auto split: option.splits)

lemma digits_value_nat_to_string: "digits_value 0 (nat_to_string n) = Some n"
proof (induction n rule: nat_to_string.induct)
  case (1 n)
  show ?case
  proof (cases "n < 10")
    case True
    then show ?thesis by (simp add: nat_to_string.simps [of n])
  next
    case False
    with 1 have "digits_value 0 (nat_to_string (n div 10)) = Some (n div 10)" by simp
    with False show ?thesis
      by (simp add: nat_to_string.simps [of n] digits_value_append)
  qed
qed

lemma nat_to_string_inj [simp]: "nat_to_string m = nat_to_string n \<longleftrightarrow> m = n"
  by (metis digits_value_nat_to_string option.inject)

lemma nat_to_string_nonempty [simp]: "nat_to_string n \<noteq> []"
  by (subst nat_to_string.simps) simp

lemma set_nat_to_string: "c \<in> set (nat_to_string n) \<Longrightarrow> \<exists>d < 10. c = digit_char d"
proof (induction n rule: nat_to_string.induct)
  case (1 n)
  show ?case
  proof (cases "n < 10")
    case True
    with "1.prems" show ?thesis by (auto simp: nat_to_string.simps [of n])
  next
    case False
    with "1.prems" have "c \<in> set (nat_to_string (n div 10)) \<or> c = digit_char (n mod 10)"
      by (auto simp: nat_to_string.simps [of n])
    with "1.IH" False show ?thesis
      by (metis mod_less_divisor zero_less_numeral)
  qed
qed

lemma of_char_nat_to_string:
  assumes "c \<in> set (nat_to_string n)"
  shows "48 \<le> (of_char c :: nat) \<and> (of_char c :: nat) \<le> 57"
proof -
  from set_nat_to_string [OF assms] obtain d where "d < 10" "c = digit_char d" by blast
  then show ?thesis by (simp add: of_char_digit_char)
qed

lemma digit_char_neq_sign:
  assumes "c \<in> set (nat_to_string n)"
  shows "c \<noteq> CHR ''-''" and "c \<noteq> CHR ''+''" and "c \<noteq> CHR 0x0D"
  using of_char_nat_to_string [OF assms] by auto

lemma nat_to_string_Cons:
  obtains c cs where "nat_to_string n = c # cs" "c \<noteq> CHR ''-''" "c \<noteq> CHR ''+''"
  using digit_char_neq_sign [of _ n] nat_to_string_nonempty [of n]
  by (cases "nat_to_string n") auto

lemma parse_digits_nat_to_string [simp]: "parse_digits (nat_to_string n) = Some n"
  by (simp add: parse_digits_def digits_value_nat_to_string)

lemma parse_u64_nat_to_string [simp]: "n < 2 ^ 64 \<Longrightarrow> parse_u64 (nat_to_string n) = Some n"
  using parse_digits_nat_to_string [of n]
  by (cases rule: nat_to_string_Cons [of n]) (simp add: parse_u64_def)

lemma parse_i64_int_to_string [simp]:
  assumes "in_i64 i"
  shows "parse_i64 (int_to_string i) = Some i"
proof (cases "i < 0")
  case True
  with assms show ?thesis by (simp add: parse_i64_def int_to_string_def)
next
  case False
  obtain c cs where c: "nat_to_string (nat i) = c # cs" "c \<noteq> CHR ''-''" "c \<noteq> CHR ''+''"
    by (rule nat_to_string_Cons)
  then have "parse_digits (c # cs) = Some (nat i)"
    using parse_digits_nat_to_string [of "nat i"] by simp
  with c False assms show ?thesis by (simp add: parse_i64_def int_to_string_def)
qed

lemma parse_i64_in_i64: "parse_i64 s = Some i \<Longrightarrow> in_i64 i"
  by (auto simp: parse_i64_def Let_def split: list.splits if_splits option.splits)

lemma parse_i64_nat_to_string: "n < 2 ^ 63 \<Longrightarrow> parse_i64 (nat_to_string n) = Some (int n)"
proof -
  assume "n < 2 ^ 63"
  then have "int n < 2 ^ 63" by (metis of_nat_less_iff of_nat_numeral of_nat_power)
  then have "in_i64 (int n)" by (simp add: in_i64_def)
  then have "parse_i64 (int_to_string (int n)) = Some (int n)" by (rule parse_i64_int_to_string)
  then show ?thesis by (simp add: int_to_string_def)
qed

subsection \<open>Text\<close>

text \<open>
  \<open>String::from_utf8_lossy\<close>: valid sequences are kept, each maximal invalid prefix of a
  sequence becomes the replacement character U+FFFD. \<open>utf8_head\<close> gives the number of
  bytes the next step consumes and whether they are a valid character.
\<close>

definition byte_in :: "nat \<Rightarrow> nat \<Rightarrow> bytes \<Rightarrow> nat \<Rightarrow> bool" where
  "byte_in lo hi cs i \<longleftrightarrow> i < length cs \<and> lo \<le> of_char (cs ! i) \<and> of_char (cs ! i) \<le> hi"

definition utf8_second :: "nat \<Rightarrow> bytes \<Rightarrow> bool" where
  "utf8_second n cs =
     (if n = 224 then byte_in 160 191 cs 0
      else if n = 237 then byte_in 128 159 cs 0
      else if n = 240 then byte_in 144 191 cs 0
      else if n = 244 then byte_in 128 143 cs 0
      else byte_in 128 191 cs 0)"

definition utf8_head :: "char \<Rightarrow> bytes \<Rightarrow> nat \<times> bool" where
  "utf8_head b cs =
     (let n = of_char b in
      if n < 128 then (1, True)
      else if 194 \<le> n \<and> n \<le> 223 then
        (if byte_in 128 191 cs 0 then (2, True) else (1, False))
      else if 224 \<le> n \<and> n \<le> 239 then
        (if \<not> utf8_second n cs then (1, False)
         else if \<not> byte_in 128 191 cs 1 then (2, False) else (3, True))
      else if 240 \<le> n \<and> n \<le> 244 then
        (if \<not> utf8_second n cs then (1, False)
         else if \<not> byte_in 128 191 cs 1 then (2, False)
         else if \<not> byte_in 128 191 cs 2 then (3, False) else (4, True))
      else (1, False))"

definition replacement_char :: bytes where
  "replacement_char = [CHR 0xEF, CHR 0xBF, CHR 0xBD]"

fun utf8_lossy :: "bytes \<Rightarrow> bytes" where
  "utf8_lossy [] = []"
| "utf8_lossy (b # cs) =
     (case utf8_head b cs of
        (n, ok) \<Rightarrow> (if ok then take n (b # cs) else replacement_char) @ utf8_lossy (drop (n - 1) cs))"

definition is_ascii :: "bytes \<Rightarrow> bool" where
  "is_ascii s = list_all (\<lambda>c. of_char c < (128 :: nat)) s"

definition quoted :: "bytes \<Rightarrow> bytes" where
  "quoted s = CHR 0x27 # s @ [CHR 0x27]"

definition ascii_upper_char :: "char \<Rightarrow> char" where
  "ascii_upper_char c =
     (let n = of_char c :: nat in if 97 \<le> n \<and> n \<le> 122 then char_of (n - 32) else c)"

definition ascii_lower_char :: "char \<Rightarrow> char" where
  "ascii_lower_char c =
     (let n = (of_char c :: nat) in if 65 \<le> n \<and> n \<le> 90 then char_of (n + 32) else c)"

definition to_ascii_lowercase :: "bytes \<Rightarrow> bytes" where
  "to_ascii_lowercase s = map ascii_lower_char s"

definition to_ascii_uppercase :: "bytes \<Rightarrow> bytes" where
  "to_ascii_uppercase s = map ascii_upper_char s"

lemma is_ascii_simps [simp]:
  "is_ascii []" "is_ascii (c # cs) \<longleftrightarrow> of_char c < (128 :: nat) \<and> is_ascii cs"
  "is_ascii (xs @ ys) \<longleftrightarrow> is_ascii xs \<and> is_ascii ys"
  by (simp_all add: is_ascii_def)

lemma utf8_lossy_ascii [simp]: "is_ascii s \<Longrightarrow> utf8_lossy s = s"
  by (induction s) (simp_all add: utf8_head_def)

lemma is_ascii_nat_to_string [simp]: "is_ascii (nat_to_string n)"
  using of_char_nat_to_string [of _ n] by (force simp: is_ascii_def list_all_iff)

lemma is_ascii_int_to_string [simp]: "is_ascii (int_to_string i)"
  by (simp add: int_to_string_def)

subsection \<open>Hash tables\<close>

text \<open>
  A \<open>HashMap<Bytes, V>\<close> is an association list with distinct keys: \<open>get\<close> is \<open>map_of\<close>,
  \<open>insert\<close> is \<open>AList.update\<close>, \<open>remove\<close> is \<open>AList.delete\<close>. The order in which a hash
  table or hash set is iterated is not fixed by the language, so every operation that
  exposes it takes an ordering \<open>ord\<close> of the keys; \<open>is_order ord\<close> says that it visits each
  key exactly once, and nothing else is assumed of it.
\<close>

definition is_order :: "(bytes list \<Rightarrow> bytes list) \<Rightarrow> bool" where
  "is_order ord \<longleftrightarrow> (\<forall>xs. mset (ord xs) = mset xs)"

definition table_iter :: "(bytes list \<Rightarrow> bytes list) \<Rightarrow> 'v table \<Rightarrow> 'v table" where
  "table_iter ord t = map (\<lambda>k. (k, the (map_of t k))) (ord (map fst t))"

lemma is_order_id [simp]: "is_order (\<lambda>xs. xs)"
  by (simp add: is_order_def)

lemma is_order_rev [simp]: "is_order rev"
  by (simp add: is_order_def)

lemma set_order: "is_order ord \<Longrightarrow> set (ord xs) = set xs"
  by (metis is_order_def set_mset_mset)

lemma length_order: "is_order ord \<Longrightarrow> length (ord xs) = length xs"
  by (metis is_order_def size_mset)

lemma distinct_order: "is_order ord \<Longrightarrow> distinct (ord xs) \<longleftrightarrow> distinct xs"
  by (metis is_order_def mset_eq_imp_distinct_iff)

lemma mset_order: "is_order ord \<Longrightarrow> mset (ord xs) = mset xs"
  by (simp add: is_order_def)

lemma map_the_map_of: "distinct (map fst t) \<Longrightarrow> map (\<lambda>k. (k, the (map_of t k))) (map fst t) = t"
  unfolding map_map comp_def by (rule map_idI) (auto simp: map_of_is_SomeI)

lemma mset_table_iter:
  assumes "is_order ord" "distinct (map fst t)"
  shows "mset (table_iter ord t) = mset t"
proof -
  have "mset (table_iter ord t) = mset (map (\<lambda>k. (k, the (map_of t k))) (map fst t))"
    unfolding table_iter_def using mset_order [OF assms(1)] by (metis mset_map)
  then show ?thesis by (simp only: map_the_map_of [OF assms(2)])
qed

lemma set_table_iter:
  "is_order ord \<Longrightarrow> distinct (map fst t) \<Longrightarrow> set (table_iter ord t) = set t"
  by (metis mset_table_iter set_mset_mset)

lemma fst_table_iter [simp]: "map fst (table_iter ord t) = ord (map fst t)"
  by (simp add: table_iter_def comp_def)

lemma update_same: "map_of t k = Some v \<Longrightarrow> AList.update k v t = t"
  by (induction t) auto

lemma delete_absent: "map_of t k = None \<Longrightarrow> AList.delete k t = t"
  by (simp add: AList.delete_idem map_of_eq_None_iff)

lemma length_update_present:
  "map_of t k \<noteq> None \<Longrightarrow> length (AList.update k v t) = length t"
  by (induction t) auto

lemma length_update_absent:
  "map_of t k = None \<Longrightarrow> length (AList.update k v t) = Suc (length t)"
  by (induction t) (auto split: if_splits)

lemma distinct_concat_indexed:
  "(\<forall>i < length xss. distinct (xss ! i) \<and> (\<forall>x \<in> set (xss ! i). idx x = b + i)) \<Longrightarrow>
     distinct (concat xss)"
proof (induction xss arbitrary: b)
  case (Cons xs xss)
  have rest: "distinct (xss ! i) \<and> (\<forall>x \<in> set (xss ! i). idx x = Suc b + i)" if "i < length xss" for i
    using Cons.prems [rule_format, of "Suc i"] that by simp
  have "idx x = b" if "x \<in> set xs" for x using Cons.prems [rule_format, of 0] that by simp
  moreover have "idx x \<noteq> b" if ys: "ys \<in> set xss" "x \<in> set ys" for x ys
  proof -
    obtain i where i: "i < length xss" "ys = xss ! i"
      using ys(1) by (auto simp: in_set_conv_nth)
    have "x \<in> set (xss ! i)" using ys(2) i(2) by simp
    with rest [OF i(1)] have "idx x = Suc b + i" by simp
    then show ?thesis by linarith
  qed
  ultimately have "set xs \<inter> \<Union> (set ` set xss) = {}" by (auto simp: disjoint_iff)
  moreover have "distinct xs" using Cons.prems [rule_format, of 0] by simp
  moreover have "distinct (concat xss)" using rest by (intro Cons.IH [of "Suc b"]) simp
  ultimately show ?case by auto
qed simp

end
