(* ===== verification/Value_Types.thy ===== *)
theory Value_Types
  imports Rust_Prelude
begin

text \<open>
  The three simple value types of \<open>data_structures/\<close>: \<open>HashValue\<close> (hash.rs), \<open>ListValue\<close>
  (list.rs) and \<open>SetValue\<close> (set.rs), each a record with its own expiry slot. An operation
  that takes \<open>&mut self\<close> returns its result and the updated record. \<open>now\<close> is the value of
  \<open>Instant::now()\<close> in nanoseconds, \<open>ord\<close> the iteration order of a hash table.

  The operations' environment is the record \<open>env\<close>: the clocks, the iteration order, the
  random generator, the largest capacity the allocator can reserve, and the floating-point
  operations of the runtime that are used as they are (parsing, printing, addition), and the
  Unicode case maps of \<open>str\<close>.
  Every command runs in an environment of its own.
\<close>

record env =
  now :: instant
  unix_ms :: nat
  hash_order :: "bytes list \<Rightarrow> bytes list"
  choose_multiple :: "nat \<Rightarrow> bytes list \<Rightarrow> bytes list"
  choose_nth :: "nat \<Rightarrow> bytes list \<Rightarrow> bytes option"
  shuffle :: "nat list \<Rightarrow> nat list"
  capacity_limit :: nat
  f64_parse :: "bytes \<Rightarrow> f64 option"
  f64_to_string :: "f64 \<Rightarrow> bytes"
  f64_add :: "f64 \<Rightarrow> f64 \<Rightarrow> f64"
  f64_of_i64 :: "int \<Rightarrow> f64"
  random_u64 :: "64 word"
  str_upper :: "bytes \<Rightarrow> bytes"
  str_lower :: "bytes \<Rightarrow> bytes"

text \<open>A concrete environment, in which the examples of the development are evaluated.\<close>

definition sample_env :: env where
  "sample_env = \<lparr>now = 1000, unix_ms = 5000, hash_order = (\<lambda>xs. xs), choose_multiple = take,
     choose_nth = (\<lambda>i xs. case xs of [] \<Rightarrow> None | x # _ \<Rightarrow> Some x), shuffle = (\<lambda>xs. xs),
     capacity_limit = 1000000, f64_parse = (\<lambda>_. None), f64_to_string = (\<lambda>_. []),
     f64_add = (\<lambda>a b. if a = 0 then b else a), f64_of_i64 = (\<lambda>_. 0),
     random_u64 = 7, str_upper = to_ascii_uppercase, str_lower = (\<lambda>s. s)\<rparr>"

definition past :: "instant \<Rightarrow> instant option \<Rightarrow> bool" where
  "past t e = (case e of None \<Rightarrow> False | Some expires \<Rightarrow> t > expires)"

lemma past_simps [simp]: "past t None = False" "past t (Some e) \<longleftrightarrow> e < t"
  by (simp_all add: past_def)

definition secs :: "nat \<Rightarrow> nat" where "secs n = n * 1000000000"
definition millis :: "nat \<Rightarrow> nat" where "millis n = n * 1000000"

subsection \<open>Hashes\<close>

record HashValue =
  h_fields :: "bytes table"
  h_expires_at :: "instant option"

definition hash_new :: HashValue where
  "hash_new = \<lparr>h_fields = [], h_expires_at = None\<rparr>"

definition hash_with_ttl :: "instant \<Rightarrow> nat \<Rightarrow> HashValue" where
  "hash_with_ttl t ttl = \<lparr>h_fields = [], h_expires_at = Some (t + ttl)\<rparr>"

definition set_field :: "bytes \<Rightarrow> bytes \<Rightarrow> HashValue \<Rightarrow> bytes option \<times> HashValue" where
  "set_field field value h =
     (map_of (h_fields h) field, h\<lparr>h_fields := AList.update field value (h_fields h)\<rparr>)"

definition get_field :: "bytes \<Rightarrow> HashValue \<Rightarrow> bytes option" where
  "get_field field h = map_of (h_fields h) field"

definition delete_field :: "bytes \<Rightarrow> HashValue \<Rightarrow> bool \<times> HashValue" where
  "delete_field field h =
     (map_of (h_fields h) field \<noteq> None, h\<lparr>h_fields := AList.delete field (h_fields h)\<rparr>)"

definition hash_get_all :: "(bytes list \<Rightarrow> bytes list) \<Rightarrow> HashValue \<Rightarrow> (bytes \<times> bytes) list" where
  "hash_get_all ord h = table_iter ord (h_fields h)"

definition hash_len :: "HashValue \<Rightarrow> nat" where
  "hash_len h = length (h_fields h)"

definition hash_is_expired :: "instant \<Rightarrow> HashValue \<Rightarrow> bool" where
  "hash_is_expired t h = past t (h_expires_at h)"

definition hash_inv :: "HashValue \<Rightarrow> bool" where
  "hash_inv h \<longleftrightarrow> distinct (map fst (h_fields h))"

lemma hash_inv_new [value_inv_intros]: "hash_inv hash_new"
  by (simp add: hash_inv_def hash_new_def)

lemma hash_inv_set_field [value_inv_intros]: "hash_inv h \<Longrightarrow> hash_inv (snd (set_field f v h))"
  by (simp add: hash_inv_def set_field_def distinct_update)

lemma hash_inv_delete_field [value_inv_intros]: "hash_inv h \<Longrightarrow> hash_inv (snd (delete_field f h))"
  by (simp add: hash_inv_def delete_field_def distinct_delete)

lemma get_field_set_field:
  "get_field g (snd (set_field f v h)) = (if g = f then Some v else get_field g h)"
  by (simp add: get_field_def set_field_def update_conv')

lemma get_field_delete_field:
  "get_field g (snd (delete_field f h)) = (if g = f then None else get_field g h)"
  by (simp add: get_field_def delete_field_def delete_conv')

lemma hash_get_all_mset: "is_order ord \<Longrightarrow> hash_inv h \<Longrightarrow> mset (hash_get_all ord h) = mset (h_fields h)"
  by (simp add: hash_get_all_def hash_inv_def mset_table_iter)

subsection \<open>Lists\<close>

record ListValue =
  l_items :: "bytes list"
  l_expires_at :: "instant option"

definition list_new :: ListValue where
  "list_new = \<lparr>l_items = [], l_expires_at = None\<rparr>"

definition list_with_ttl :: "instant \<Rightarrow> nat \<Rightarrow> ListValue" where
  "list_with_ttl t ttl = \<lparr>l_items = [], l_expires_at = Some (t + ttl)\<rparr>"

definition push_left :: "bytes \<Rightarrow> ListValue \<Rightarrow> ListValue" where
  "push_left v l = l\<lparr>l_items := v # l_items l\<rparr>"

definition push_right :: "bytes \<Rightarrow> ListValue \<Rightarrow> ListValue" where
  "push_right v l = l\<lparr>l_items := l_items l @ [v]\<rparr>"

definition pop_left :: "ListValue \<Rightarrow> bytes option \<times> ListValue" where
  "pop_left l = (case l_items l of [] \<Rightarrow> (None, l) | x # xs \<Rightarrow> (Some x, l\<lparr>l_items := xs\<rparr>))"

definition pop_right :: "ListValue \<Rightarrow> bytes option \<times> ListValue" where
  "pop_right l =
     (if l_items l = [] then (None, l)
      else (Some (last (l_items l)), l\<lparr>l_items := butlast (l_items l)\<rparr>))"

definition list_get_range :: "int \<Rightarrow> int \<Rightarrow> ListValue \<Rightarrow> bytes list" where
  "list_get_range start stop l =
     (let len = int (length (l_items l));
          start_idx = (if start < 0 then as_usize (max (wrap_i64 (len + start)) 0)
                       else as_usize (max (min start (len - 1)) 0));
          stop_idx = (if stop < 0 then as_usize (max (wrap_i64 (len + stop + 1)) 0)
                      else as_usize (max (min (wrap_i64 (stop + 1)) len) 0))
      in if start_idx \<ge> stop_idx then []
         else take (stop_idx - start_idx) (drop start_idx (l_items l)))"

definition list_len :: "ListValue \<Rightarrow> nat" where
  "list_len l = length (l_items l)"

definition list_is_expired :: "instant \<Rightarrow> ListValue \<Rightarrow> bool" where
  "list_is_expired t l = past t (l_expires_at l)"

text \<open>
  The slice Redis documents for a pair of indices: negative indices count from the end,
  both are clamped, the stop index is inclusive.
\<close>

definition redis_slice :: "int \<Rightarrow> int \<Rightarrow> 'a list \<Rightarrow> 'a list" where
  "redis_slice start stop xs =
     (let len = int (length xs);
          lo = max 0 (if start < 0 then len + start else start);
          hi = min (len - 1) (if stop < 0 then len + stop else stop)
      in if lo > hi then [] else take (nat (hi - lo + 1)) (drop (nat lo) xs))"

definition fits :: "'a list \<Rightarrow> bool" where
  "fits xs \<longleftrightarrow> length xs < 2 ^ 63"

lemma fits_int: "fits xs \<longleftrightarrow> int (length xs) < 2 ^ 63"
  unfolding fits_def by (metis of_nat_less_iff of_nat_numeral of_nat_power)

lemma as_usize_bounded: "0 \<le> x \<Longrightarrow> x < 2 ^ 63 \<Longrightarrow> as_usize x = nat x"
  by (simp add: as_usize_def)

lemma list_get_range_redis:
  assumes "fits (l_items l)" "in_i64 start" "in_i64 stop"
    "start < int (length (l_items l))" "stop \<noteq> 2 ^ 63 - 1"
  shows "list_get_range start stop l = redis_slice start stop (l_items l)"
proof -
  define len where "len = int (length (l_items l))"
  have len: "0 \<le> len" "len < 2 ^ 63"
    using assms(1) by (simp_all add: len_def fits_int)
  have w: "wrap_i64 (len + start) = len + start" if "start < 0"
    using that assms(2) len by (intro wrap_i64_id) (auto simp: in_i64_def)
  have w1: "wrap_i64 (len + stop + 1) = len + stop + 1" if "stop < 0"
    using that assms(3) len by (intro wrap_i64_id) (auto simp: in_i64_def)
  have w2: "wrap_i64 (stop + 1) = stop + 1"
    using assms(3,5) by (intro wrap_i64_id) (auto simp: in_i64_def)
  define si where "si = (if start < 0 then max (len + start) 0 else max (min start (len - 1)) 0)"
  define ei where "ei = (if stop < 0 then max (len + stop + 1) 0 else max (min (stop + 1) len) 0)"
  have si: "0 \<le> si" "si \<le> max 0 (len - 1)" and ei: "0 \<le> ei" "ei \<le> len"
    using len by (auto simp: si_def ei_def)
  have e1: "(if start < 0 then as_usize (max (wrap_i64 (len + start)) 0)
      else as_usize (max (min start (len - 1)) 0)) = nat si"
    using w si len unfolding si_def by (auto simp: as_usize_bounded)
  have e2: "(if stop < 0 then as_usize (max (wrap_i64 (len + stop + 1)) 0)
      else as_usize (max (min (wrap_i64 (stop + 1)) len) 0)) = nat ei"
    using w1 w2 ei len unfolding ei_def by (auto simp: as_usize_bounded)
  have lhs: "list_get_range start stop l =
      (if nat si \<ge> nat ei then [] else take (nat ei - nat si) (drop (nat si) (l_items l)))"
    unfolding list_get_range_def Let_def len_def [symmetric] e1 e2 ..
  define lo where "lo = max 0 (if start < 0 then len + start else start)"
  define hi where "hi = min (len - 1) (if stop < 0 then len + stop else stop)"
  have rhs: "redis_slice start stop (l_items l) =
      (if lo > hi then [] else take (nat (hi - lo + 1)) (drop (nat lo) (l_items l)))"
    unfolding redis_slice_def Let_def len_def [symmetric] lo_def hi_def ..
  have ord: "lo > hi \<longleftrightarrow> ei \<le> si"
    using len(1) assms(4) unfolding lo_def hi_def si_def ei_def len_def [symmetric]
    by (auto simp: max_def min_def)
  have eq: "lo = si \<and> hi - lo + 1 = ei - si" if "si < ei"
    using that len(1) assms(4) unfolding lo_def hi_def si_def ei_def len_def [symmetric]
    by (auto simp: max_def min_def split: if_splits)
  show ?thesis
  proof (cases "ei \<le> si")
    case True
    then show ?thesis using lhs rhs ord by (simp add: nat_mono)
  next
    case False
    then have "nat (hi - lo + 1) = nat ei - nat si" "nat lo = nat si"
      using eq si by (auto simp: nat_diff_distrib)
    then show ?thesis using lhs rhs ord False si by (simp add: nat_le_iff)
  qed
qed

lemma list_get_range_beyond_end:
  assumes "fits (l_items l)" "l_items l \<noteq> []" "int (length (l_items l)) \<le> start" "start \<le> stop"
    "stop < 2 ^ 63 - 1"
  shows "list_get_range start stop l = [last (l_items l)]"
proof -
  define n where "n = length (l_items l)"
  have n: "0 < n" "int n < 2 ^ 63" using assms(1,2) by (simp_all add: n_def fits_int)
  have "wrap_i64 (stop + 1) = stop + 1"
    using assms n by (intro wrap_i64_id) (auto simp: in_i64_def n_def)
  have "list_get_range start stop l = take 1 (drop (n - 1) (l_items l))"
  proof -
    have "as_usize (max (min start (int n - 1)) 0) = n - 1" "as_usize (max (min (stop + 1) (int n)) 0) = n"
      using assms n by (simp_all add: as_usize_bounded n_def [symmetric])
    then show ?thesis
      using \<open>wrap_i64 (stop + 1) = stop + 1\<close> assms n
      by (simp add: list_get_range_def Let_def flip: n_def)
  qed
  also have "drop (n - 1) (l_items l) = [last (l_items l)]"
    using assms(2) unfolding n_def
    by (metis append_butlast_last_id append_eq_conv_conj length_butlast)
  finally show ?thesis by simp
qed

lemma pop_left_push_left [simp]: "pop_left (push_left v l) = (Some v, l)"
  by (simp add: pop_left_def push_left_def)

lemma pop_right_push_right [simp]: "pop_right (push_right v l) = (Some v, l)"
  by (simp add: pop_right_def push_right_def)

lemma fold_push_left: "l_items (fold push_left vs l) = rev vs @ l_items l"
  by (induction vs arbitrary: l) (simp_all add: push_left_def)

lemma fold_push_right: "l_items (fold push_right vs l) = l_items l @ vs"
  by (induction vs arbitrary: l) (simp_all add: push_right_def)

lemma push_expires [simp]:
  "l_expires_at (push_left v l) = l_expires_at l" "l_expires_at (push_right v l) = l_expires_at l"
  by (simp_all add: push_left_def push_right_def)

lemma fold_push_expires [simp]:
  "l_expires_at (fold push_left vs l) = l_expires_at l"
  "l_expires_at (fold push_right vs l) = l_expires_at l"
  by (induction vs arbitrary: l) simp_all

subsection \<open>Sets\<close>

record SetValue =
  s_members :: "bytes list"
  s_expires_at :: "instant option"

definition set_new :: SetValue where
  "set_new = \<lparr>s_members = [], s_expires_at = None\<rparr>"

definition set_with_ttl :: "instant \<Rightarrow> nat \<Rightarrow> SetValue" where
  "set_with_ttl t ttl = \<lparr>s_members = [], s_expires_at = Some (t + ttl)\<rparr>"

definition set_add :: "bytes \<Rightarrow> SetValue \<Rightarrow> bool \<times> SetValue" where
  "set_add m s = (m \<notin> set (s_members s), s\<lparr>s_members := List.insert m (s_members s)\<rparr>)"

definition set_remove :: "bytes \<Rightarrow> SetValue \<Rightarrow> bool \<times> SetValue" where
  "set_remove m s = (m \<in> set (s_members s), s\<lparr>s_members := removeAll m (s_members s)\<rparr>)"

definition set_contains :: "bytes \<Rightarrow> SetValue \<Rightarrow> bool" where
  "set_contains m s \<longleftrightarrow> m \<in> set (s_members s)"

definition set_get_all :: "(bytes list \<Rightarrow> bytes list) \<Rightarrow> SetValue \<Rightarrow> bytes list" where
  "set_get_all ord s = ord (s_members s)"

definition set_intersection :: "(bytes list \<Rightarrow> bytes list) \<Rightarrow> SetValue \<Rightarrow> SetValue \<Rightarrow> bytes list" where
  "set_intersection ord s t = ord (filter (\<lambda>m. m \<in> set (s_members t)) (s_members s))"

definition set_union :: "(bytes list \<Rightarrow> bytes list) \<Rightarrow> SetValue \<Rightarrow> SetValue \<Rightarrow> bytes list" where
  "set_union ord s t = ord (s_members s @ filter (\<lambda>m. m \<notin> set (s_members s)) (s_members t))"

definition set_difference :: "(bytes list \<Rightarrow> bytes list) \<Rightarrow> SetValue \<Rightarrow> SetValue \<Rightarrow> bytes list" where
  "set_difference ord s t = ord (filter (\<lambda>m. m \<notin> set (s_members t)) (s_members s))"

definition set_len :: "SetValue \<Rightarrow> nat" where
  "set_len s = length (s_members s)"

definition set_is_expired :: "instant \<Rightarrow> SetValue \<Rightarrow> bool" where
  "set_is_expired t s = past t (s_expires_at s)"

definition set_inv :: "SetValue \<Rightarrow> bool" where
  "set_inv s \<longleftrightarrow> distinct (s_members s)"

lemma set_inv_new [value_inv_intros]: "set_inv set_new"
  by (simp add: set_inv_def set_new_def)

lemma set_inv_add [value_inv_intros]: "set_inv s \<Longrightarrow> set_inv (snd (set_add m s))"
  by (simp add: set_inv_def set_add_def)

lemma set_inv_remove [value_inv_intros]: "set_inv s \<Longrightarrow> set_inv (snd (set_remove m s))"
  by (simp add: set_inv_def set_remove_def distinct_removeAll)

lemma set_members_add [simp]: "set (s_members (snd (set_add m s))) = insert m (set (s_members s))"
  by (simp add: set_add_def)

lemma set_members_remove [simp]:
  "set (s_members (snd (set_remove m s))) = set (s_members s) - {m}"
  by (simp add: set_remove_def)

lemma set_members_new [simp]: "s_members set_new = []"
  by (simp add: set_new_def)

text \<open>The loop \<open>for m in ms { s.add(m); }\<close>, counting the members that were new.\<close>

fun add_all :: "bytes list \<Rightarrow> SetValue \<Rightarrow> nat \<times> SetValue" where
  "add_all [] s = (0, s)"
| "add_all (m # ms) s =
     (case set_add m s of (fresh, s') \<Rightarrow>
        (case add_all ms s' of (n, s'') \<Rightarrow> ((if fresh then 1 else 0) + n, s'')))"

fun remove_all :: "bytes list \<Rightarrow> SetValue \<Rightarrow> nat \<times> SetValue" where
  "remove_all [] s = (0, s)"
| "remove_all (m # ms) s =
     (case set_remove m s of (hit, s') \<Rightarrow>
        (case remove_all ms s' of (n, s'') \<Rightarrow> ((if hit then 1 else 0) + n, s'')))"

lemma add_all_members [simp]:
  "set (s_members (snd (add_all ms s))) = set (s_members s) \<union> set ms"
  by (induction ms arbitrary: s) (simp_all add: split_beta)

lemma remove_all_members [simp]:
  "set (s_members (snd (remove_all ms s))) = set (s_members s) - set ms"
  by (induction ms arbitrary: s) (auto simp: split_beta)

lemma set_inv_add_all [value_inv_intros]: "set_inv s \<Longrightarrow> set_inv (snd (add_all ms s))"
proof (induction ms arbitrary: s)
  case (Cons m ms)
  from Cons.IH [OF set_inv_add [OF Cons.prems]] show ?case
    by (simp add: split_beta)
qed simp

lemma set_inv_remove_all [value_inv_intros]: "set_inv s \<Longrightarrow> set_inv (snd (remove_all ms s))"
proof (induction ms arbitrary: s)
  case (Cons m ms)
  from Cons.IH [OF set_inv_remove [OF Cons.prems]] show ?case
    by (simp add: split_beta)
qed simp

lemma add_all_expires [simp]: "s_expires_at (snd (add_all ms s)) = s_expires_at s"
  by (induction ms arbitrary: s) (simp_all add: set_add_def split_beta)

lemma remove_all_expires [simp]: "s_expires_at (snd (remove_all ms s)) = s_expires_at s"
  by (induction ms arbitrary: s) (simp_all add: set_remove_def split_beta)

lemma add_all_count: "set_inv s \<Longrightarrow> fst (add_all ms s) = card (set ms - set (s_members s))"
proof (induction ms arbitrary: s)
  case (Cons m ms)
  from Cons.IH [OF set_inv_add [OF Cons.prems]]
  have "fst (add_all ms (snd (set_add m s))) = card (set ms - insert m (set (s_members s)))"
    by simp
  moreover have "set (m # ms) - set (s_members s) =
      (if m \<in> set (s_members s) then {} else {m}) \<union> (set ms - insert m (set (s_members s)))"
    by auto
  ultimately show ?case by (auto simp: split_beta set_add_def card_insert_if)
qed simp

lemma remove_all_count: "set_inv s \<Longrightarrow> fst (remove_all ms s) = card (set ms \<inter> set (s_members s))"
proof (induction ms arbitrary: s)
  case (Cons m ms)
  from Cons.IH [OF set_inv_remove [OF Cons.prems]]
  have "fst (remove_all ms (snd (set_remove m s))) = card (set ms \<inter> (set (s_members s) - {m}))"
    by simp
  moreover have "set (m # ms) \<inter> set (s_members s) =
      (if m \<in> set (s_members s) then {m} else {}) \<union> (set ms \<inter> (set (s_members s) - {m}))"
    by auto
  ultimately show ?case by (auto simp: split_beta set_remove_def card_insert_if)
qed simp

end
