(* ===== verification/BTree_Map.thy ===== *)
theory BTree_Map
  imports Rust_Prelude
begin

text \<open>
  \<open>std::collections::BTreeMap\<close> as its in-order list of entries, searched with the key
  type's \<open>Ord::cmp\<close>. The comparison is an argument, because \<open>sorted_set.rs\<close> gives a
  lawless one (\<open>OrderedFloat\<close> compares NaN equal to everything): the operations are
  defined for any comparison, and the locale \<open>ranked_order\<close> states when one is lawful on
  the keys in use (an \<open>int\<close> rank decides it) and proves what the map then guarantees.

  \<open>BTreeMap::range\<close> panics on a range whose start is greater than its end, but only once
  the tree has a root, and a root is never given back by \<open>remove\<close>. \<open>bt_rooted\<close> records it.
\<close>

datatype cmp_result = Less | Equal | Greater

record ('k, 'v) btree =
  bt_rooted :: bool
  bt_list :: "('k \<times> 'v) list"

definition bt_new :: "('k, 'v) btree" where
  "bt_new = \<lparr>bt_rooted = False, bt_list = []\<rparr>"

fun bl_get :: "('k \<Rightarrow> 'k \<Rightarrow> cmp_result) \<Rightarrow> 'k \<Rightarrow> ('k \<times> 'v) list \<Rightarrow> 'v option" where
  "bl_get cmp k [] = None"
| "bl_get cmp k ((a, v) # xs) =
     (case cmp k a of Greater \<Rightarrow> bl_get cmp k xs | Equal \<Rightarrow> Some v | Less \<Rightarrow> None)"

text \<open>An insertion at an equal key keeps the old key and replaces the value.\<close>

fun bl_insert :: "('k \<Rightarrow> 'k \<Rightarrow> cmp_result) \<Rightarrow> 'k \<Rightarrow> 'v \<Rightarrow> ('k \<times> 'v) list \<Rightarrow> ('k \<times> 'v) list" where
  "bl_insert cmp k v [] = [(k, v)]"
| "bl_insert cmp k v ((a, w) # xs) =
     (case cmp k a of
        Greater \<Rightarrow> (a, w) # bl_insert cmp k v xs
      | Equal \<Rightarrow> (a, v) # xs
      | Less \<Rightarrow> (k, v) # (a, w) # xs)"

fun bl_remove :: "('k \<Rightarrow> 'k \<Rightarrow> cmp_result) \<Rightarrow> 'k \<Rightarrow> ('k \<times> 'v) list \<Rightarrow> ('k \<times> 'v) list" where
  "bl_remove cmp k [] = []"
| "bl_remove cmp k ((a, w) # xs) =
     (case cmp k a of
        Greater \<Rightarrow> (a, w) # bl_remove cmp k xs
      | Equal \<Rightarrow> xs
      | Less \<Rightarrow> (a, w) # xs)"

definition bt_get :: "('k \<Rightarrow> 'k \<Rightarrow> cmp_result) \<Rightarrow> 'k \<Rightarrow> ('k, 'v) btree \<Rightarrow> 'v option" where
  "bt_get cmp k t = bl_get cmp k (bt_list t)"

definition bt_insert :: "('k \<Rightarrow> 'k \<Rightarrow> cmp_result) \<Rightarrow> 'k \<Rightarrow> 'v \<Rightarrow> ('k, 'v) btree \<Rightarrow> ('k, 'v) btree" where
  "bt_insert cmp k v t = \<lparr>bt_rooted = True, bt_list = bl_insert cmp k v (bt_list t)\<rparr>"

definition bt_remove :: "('k \<Rightarrow> 'k \<Rightarrow> cmp_result) \<Rightarrow> 'k \<Rightarrow> ('k, 'v) btree \<Rightarrow> ('k, 'v) btree" where
  "bt_remove cmp k t = t\<lparr>bt_list := bl_remove cmp k (bt_list t)\<rparr>"

text \<open>The inclusive range \<open>lo..=hi\<close>, \<open>None\<close> where \<open>range\<close> panics, and the half-open \<open>lo..\<close>.\<close>

definition bt_range ::
    "('k \<Rightarrow> 'k \<Rightarrow> cmp_result) \<Rightarrow> 'k \<Rightarrow> 'k \<Rightarrow> ('k, 'v) btree \<Rightarrow> ('k \<times> 'v) list option" where
  "bt_range cmp lo hi t =
     (if bt_rooted t \<and> cmp lo hi = Greater then None
      else Some (takeWhile (\<lambda>e. cmp (fst e) hi \<noteq> Greater)
                   (dropWhile (\<lambda>e. cmp lo (fst e) = Greater) (bt_list t))))"

definition bt_range_from :: "('k \<Rightarrow> 'k \<Rightarrow> cmp_result) \<Rightarrow> 'k \<Rightarrow> ('k, 'v) btree \<Rightarrow> ('k \<times> 'v) list" where
  "bt_range_from cmp lo t = dropWhile (\<lambda>e. cmp lo (fst e) = Greater) (bt_list t)"

subsection \<open>Lawful orders\<close>

definition bl_ordered :: "('k \<Rightarrow> bool) \<Rightarrow> ('k \<Rightarrow> int) \<Rightarrow> ('k \<times> 'v) list \<Rightarrow> bool" where
  "bl_ordered ok rank xs \<longleftrightarrow>
     (\<forall>e \<in> set xs. ok (fst e)) \<and> sorted_wrt (\<lambda>a b. rank (fst a) < rank (fst b)) xs"

lemma bl_ordered_Nil [simp]: "bl_ordered ok rank []"
  by (simp add: bl_ordered_def)

locale ranked_order =
  fixes cmp :: "'k \<Rightarrow> 'k \<Rightarrow> cmp_result"
    and ok :: "'k \<Rightarrow> bool"
    and rank :: "'k \<Rightarrow> int"
  assumes cmp_rank: "ok a \<Longrightarrow> ok b \<Longrightarrow>
    cmp a b = (if rank a < rank b then Less else if rank a = rank b then Equal else Greater)"
begin

abbreviation ordered :: "('k \<times> 'v) list \<Rightarrow> bool" where
  "ordered \<equiv> bl_ordered ok rank"

lemma ordered_Cons: "ordered (e # xs) \<longleftrightarrow>
    ok (fst e) \<and> (\<forall>e' \<in> set xs. rank (fst e) < rank (fst e')) \<and> ordered xs"
  by (auto simp: bl_ordered_def)

lemma cmp_cases: "ok a \<Longrightarrow> ok b \<Longrightarrow>
    (cmp a b = Less \<longleftrightarrow> rank a < rank b) \<and> (cmp a b = Equal \<longleftrightarrow> rank a = rank b) \<and>
    (cmp a b = Greater \<longleftrightarrow> rank b < rank a)"
  by (simp add: cmp_rank)

lemma get_iff:
  "ordered xs \<Longrightarrow> ok k \<Longrightarrow>
     bl_get cmp k xs = Some v \<longleftrightarrow> (\<exists>a. (a, v) \<in> set xs \<and> rank a = rank k)"
proof (induction xs)
  case Nil
  then show ?case by simp
next
  case (Cons e xs)
  obtain a w where e: "e = (a, w)" by (cases e)
  consider "rank k < rank a" | "rank k = rank a" | "rank a < rank k" by linarith
  then show ?case
    using Cons by cases (force simp: e ordered_Cons cmp_rank)+
qed

lemma get_None_iff:
  "ordered xs \<Longrightarrow> ok k \<Longrightarrow> bl_get cmp k xs = None \<longleftrightarrow> (\<forall>e \<in> set xs. rank (fst e) \<noteq> rank k)"
  using get_iff [of xs k] by (cases "bl_get cmp k xs") fastforce+

lemma set_insert:
  "ordered xs \<Longrightarrow> ok k \<Longrightarrow> \<exists>k'. rank k' = rank k \<and> ok k' \<and>
     set (bl_insert cmp k v xs) = insert (k', v) {e \<in> set xs. rank (fst e) \<noteq> rank k}"
proof (induction xs)
  case Nil
  then show ?case by auto
next
  case (Cons e xs)
  obtain a w where e: "e = (a, w)" by (cases e)
  with Cons.prems have a: "ok a" "ordered xs" and lt: "\<And>e'. e' \<in> set xs \<Longrightarrow> rank a < rank (fst e')"
    by (auto simp: ordered_Cons)
  consider "rank k < rank a" | "rank k = rank a" | "rank a < rank k" by linarith
  then show ?case
  proof cases
    case 1
    then have "set (bl_insert cmp k v (e # xs)) = insert (k, v) {e' \<in> set (e # xs). rank (fst e') \<noteq> rank k}"
      using a Cons.prems by (auto simp: e cmp_rank dest: lt)
    then show ?thesis using Cons.prems by blast
  next
    case 2
    then have "set (bl_insert cmp k v (e # xs)) = insert (a, v) {e' \<in> set (e # xs). rank (fst e') \<noteq> rank k}"
      using a Cons.prems by (auto simp: e cmp_rank dest: lt)
    moreover have "rank a = rank k" "ok a" using 2 a by simp_all
    ultimately show ?thesis by blast
  next
    case 3
    with Cons.IH Cons.prems a obtain k' where k': "rank k' = rank k" "ok k'"
      and s: "set (bl_insert cmp k v xs) = insert (k', v) {e \<in> set xs. rank (fst e) \<noteq> rank k}" by blast
    have "set (bl_insert cmp k v (e # xs)) = insert (k', v) {e' \<in> set (e # xs). rank (fst e') \<noteq> rank k}"
      using 3 a s Cons.prems by (auto simp: e cmp_rank)
    with k' show ?thesis by blast
  qed
qed

lemma ordered_insert: "ordered xs \<Longrightarrow> ok k \<Longrightarrow> ordered (bl_insert cmp k v xs)"
proof (induction xs)
  case Nil
  then show ?case by (simp add: bl_ordered_def)
next
  case (Cons e xs)
  obtain a w where e: "e = (a, w)" by (cases e)
  with Cons.prems have a: "ok a" "ordered xs" and lt: "\<And>e'. e' \<in> set xs \<Longrightarrow> rank a < rank (fst e')"
    by (auto simp: ordered_Cons)
  consider "rank k < rank a" | "rank k = rank a" | "rank a < rank k" by linarith
  then show ?case
  proof cases
    case 1
    then show ?thesis using Cons.prems a lt by (auto simp: e cmp_rank ordered_Cons dest: lt)
  next
    case 2
    then show ?thesis using Cons.prems a lt by (auto simp: e cmp_rank ordered_Cons)
  next
    case 3
    obtain k' where k': "rank k' = rank k"
      "set (bl_insert cmp k v xs) = insert (k', v) {e \<in> set xs. rank (fst e) \<noteq> rank k}"
      using set_insert [OF a(2) Cons.prems(2)] by blast
    have "ordered (bl_insert cmp k v xs)" using Cons a by blast
    then show ?thesis using 3 Cons.prems a lt k' by (auto simp: e cmp_rank ordered_Cons)
  qed
qed

lemma set_remove:
  "ordered xs \<Longrightarrow> ok k \<Longrightarrow> set (bl_remove cmp k xs) = {e \<in> set xs. rank (fst e) \<noteq> rank k}"
proof (induction xs)
  case Nil
  then show ?case by simp
next
  case (Cons e xs)
  obtain a w where e: "e = (a, w)" by (cases e)
  consider "rank k < rank a" | "rank k = rank a" | "rank a < rank k" by linarith
  then show ?case
    using Cons by cases (force simp: e ordered_Cons cmp_rank)+
qed

lemma ordered_remove: "ordered xs \<Longrightarrow> ok k \<Longrightarrow> ordered (bl_remove cmp k xs)"
proof (induction xs)
  case Nil
  then show ?case by simp
next
  case (Cons e xs)
  obtain a w where e: "e = (a, w)" by (cases e)
  with Cons.prems have a: "ok a" "ordered xs" by (auto simp: ordered_Cons)
  consider "rank k < rank a" | "rank k = rank a" | "rank a < rank k" by linarith
  then show ?case
    using Cons a set_remove [OF a(2) Cons.prems(2)] by cases (auto simp: e ordered_Cons cmp_rank)
qed

lemma get_insert:
  assumes "ordered xs" "ok k" "ok j"
  shows "bl_get cmp j (bl_insert cmp k v xs) = (if rank j = rank k then Some v else bl_get cmp j xs)"
proof -
  obtain k' where k': "rank k' = rank k"
    and s: "set (bl_insert cmp k v xs) = insert (k', v) {e \<in> set xs. rank (fst e) \<noteq> rank k}"
    using set_insert [OF assms(1,2)] by blast
  note o = ordered_insert [OF assms(1,2), of v]
  show ?thesis
  proof (cases "rank j = rank k")
    case True
    then show ?thesis using get_iff [OF o assms(3), of v] k' s by auto
  next
    case False
    have "bl_get cmp j (bl_insert cmp k v xs) = Some u \<longleftrightarrow> bl_get cmp j xs = Some u" for u
      using get_iff [OF o assms(3)] get_iff [OF assms(1,3)] k' s False by auto
    then show ?thesis using False by (metis option.exhaust)
  qed
qed

lemma get_remove:
  assumes "ordered xs" "ok k" "ok j"
  shows "bl_get cmp j (bl_remove cmp k xs) = (if rank j = rank k then None else bl_get cmp j xs)"
proof -
  note o = ordered_remove [OF assms(1,2)]
  have "bl_get cmp j (bl_remove cmp k xs) = Some u \<longleftrightarrow> rank j \<noteq> rank k \<and> bl_get cmp j xs = Some u" for u
    using get_iff [OF o assms(3)] get_iff [OF assms(1,3)] set_remove [OF assms(1,2)] by auto
  then show ?thesis by (metis option.exhaust)
qed

lemma dropWhile_filter: "ordered xs \<Longrightarrow> ok lo \<Longrightarrow>
    dropWhile (\<lambda>e. cmp lo (fst e) = Greater) xs = filter (\<lambda>e. rank lo \<le> rank (fst e)) xs"
proof (induction xs)
  case Nil
  then show ?case by simp
next
  case (Cons e xs)
  then have e: "ok (fst e)" "ordered xs" "\<And>e'. e' \<in> set xs \<Longrightarrow> rank (fst e) < rank (fst e')"
    by (auto simp: ordered_Cons)
  show ?case
  proof (cases "rank (fst e) < rank lo")
    case True
    then show ?thesis using Cons e by (simp add: cmp_rank)
  next
    case False
    with e have "filter (\<lambda>e. rank lo \<le> rank (fst e)) xs = xs"
      by (intro filter_True) force
    then show ?thesis using False Cons.prems e by (auto simp: cmp_rank)
  qed
qed

lemma takeWhile_filter: "ordered xs \<Longrightarrow> ok hi \<Longrightarrow>
    takeWhile (\<lambda>e. cmp (fst e) hi \<noteq> Greater) xs = filter (\<lambda>e. rank (fst e) \<le> rank hi) xs"
proof (induction xs)
  case Nil
  then show ?case by simp
next
  case (Cons e xs)
  then have e: "ok (fst e)" "ordered xs" "\<And>e'. e' \<in> set xs \<Longrightarrow> rank (fst e) < rank (fst e')"
    by (auto simp: ordered_Cons)
  show ?case
  proof (cases "rank (fst e) \<le> rank hi")
    case True
    then show ?thesis using Cons e by (auto simp: cmp_rank)
  next
    case False
    with e have "filter (\<lambda>e. rank (fst e) \<le> rank hi) xs = []"
      by (intro filter_False) force
    then show ?thesis using False Cons.prems e by (auto simp: cmp_rank)
  qed
qed

lemma ordered_filter: "ordered xs \<Longrightarrow> ordered (filter P xs)"
  by (auto simp: bl_ordered_def sorted_wrt_filter)

lemma range_filter:
  assumes "ordered (bt_list t)" "ok lo" "ok hi"
  shows "bt_range cmp lo hi t =
     (if bt_rooted t \<and> rank hi < rank lo then None
      else Some (filter (\<lambda>e. rank lo \<le> rank (fst e) \<and> rank (fst e) \<le> rank hi) (bt_list t)))"
  using assms cmp_cases [OF assms(2,3)]
  by (simp add: bt_range_def dropWhile_filter takeWhile_filter ordered_filter conj_commute)

lemma range_from_filter:
  "ordered (bt_list t) \<Longrightarrow> ok lo \<Longrightarrow>
     bt_range_from cmp lo t = filter (\<lambda>e. rank lo \<le> rank (fst e)) (bt_list t)"
  by (simp add: bt_range_from_def dropWhile_filter)

lemma distinct_ordered: "ordered xs \<Longrightarrow> distinct xs"
  by (induction xs) (auto simp: ordered_Cons)

lemma rank_inj:
  "ordered xs \<Longrightarrow> e \<in> set xs \<Longrightarrow> e' \<in> set xs \<Longrightarrow> rank (fst e) = rank (fst e') \<Longrightarrow> e = e'"
  by (induction xs) (auto simp: ordered_Cons)

lemma insert_last:
  "ordered xs \<Longrightarrow> ok k \<Longrightarrow> (\<And>e. e \<in> set xs \<Longrightarrow> rank (fst e) < rank k) \<Longrightarrow>
     bl_insert cmp k v xs = xs @ [(k, v)]"
proof (induction xs)
  case (Cons e xs)
  obtain a w where e: "e = (a, w)" by (cases e)
  have "rank a < rank k" using Cons.prems(3) [of e] e by simp
  then show ?case using Cons by (auto simp: e ordered_Cons cmp_rank)
qed simp

end

end
