(* ===== verification/Sorted_Set.thy ===== *)
theory Sorted_Set
  imports BTree_Map Value_Types
begin

text \<open>
  \<open>data_structures/sorted_set.rs\<close>: a sorted set keeps two indexes, the members grouped by
  score in a \<open>BTreeMap<OrderedFloat, HashSet<Bytes>>\<close> and the score of each member in a
  \<open>HashMap\<close>. A score is an IEEE-754 double given by its 64 bits; only its comparison is
  needed here, and that is defined on the bits (sign and magnitude). The theory proves that
  the two indexes agree after every operation as long as no score is NaN, and what the
  range, rank and pop operations return.
\<close>

subsection \<open>Comparing doubles\<close>

definition f64_mag :: "f64 \<Rightarrow> int" where
  "f64_mag b = uint b mod 2 ^ 63"

definition f64_is_nan :: "f64 \<Rightarrow> bool" where
  "f64_is_nan b \<longleftrightarrow> f64_mag b > 9218868437227405312"

definition f64_is_finite :: "f64 \<Rightarrow> bool" where
  "f64_is_finite b \<longleftrightarrow> f64_mag b < 9218868437227405312"

definition f64_rank :: "f64 \<Rightarrow> int" where
  "f64_rank b = (if uint b < 2 ^ 63 then f64_mag b else - f64_mag b)"

definition f64_lt :: "f64 \<Rightarrow> f64 \<Rightarrow> bool" where
  "f64_lt a b \<longleftrightarrow> \<not> f64_is_nan a \<and> \<not> f64_is_nan b \<and> f64_rank a < f64_rank b"

definition f64_eq :: "f64 \<Rightarrow> f64 \<Rightarrow> bool" where
  "f64_eq a b \<longleftrightarrow> \<not> f64_is_nan a \<and> \<not> f64_is_nan b \<and> f64_rank a = f64_rank b"

abbreviation not_nan :: "f64 \<Rightarrow> bool" where
  "not_nan b \<equiv> \<not> f64_is_nan b"

text \<open>\<open>OrderedFloat::cmp\<close>: \<open>partial_cmp\<close>, and \<open>Equal\<close> where there is none.\<close>

definition ordered_float_cmp :: "f64 \<Rightarrow> f64 \<Rightarrow> cmp_result" where
  "ordered_float_cmp a b =
     (if f64_is_nan a \<or> f64_is_nan b then Equal
      else if f64_rank a < f64_rank b then Less
      else if f64_rank a = f64_rank b then Equal else Greater)"

interpretation score_order: ranked_order ordered_float_cmp not_nan f64_rank
  by unfold_locales (simp add: ordered_float_cmp_def)

subsection \<open>The operations\<close>

record SortedSetValue =
  members_by_score :: "(f64, bytes list) btree"
  member_scores :: "(bytes \<times> f64) list"
  z_expires_at :: "instant option"

definition zset_new :: SortedSetValue where
  "zset_new = \<lparr>members_by_score = bt_new, member_scores = [], z_expires_at = None\<rparr>"

definition zset_with_ttl :: "instant \<Rightarrow> nat \<Rightarrow> SortedSetValue" where
  "zset_with_ttl t ttl =
     \<lparr>members_by_score = bt_new, member_scores = [], z_expires_at = Some (t + ttl)\<rparr>"

text \<open>The nested \<open>if let\<close> of \<open>add\<close> and \<open>remove\<close>: take a member out of the bucket of its old score.\<close>

definition unlink :: "f64 \<Rightarrow> bytes \<Rightarrow> (f64, bytes list) btree \<Rightarrow> (f64, bytes list) btree" where
  "unlink old_score m t =
     (case bt_get ordered_float_cmp old_score t of
        None \<Rightarrow> t
      | Some ms \<Rightarrow>
          (let ms' = removeAll m ms in
           if ms' = [] then bt_remove ordered_float_cmp old_score t
           else bt_insert ordered_float_cmp old_score ms' t))"

definition link :: "f64 \<Rightarrow> bytes \<Rightarrow> (f64, bytes list) btree \<Rightarrow> (f64, bytes list) btree" where
  "link score m t =
     (let ms = (case bt_get ordered_float_cmp score t of None \<Rightarrow> [] | Some ms \<Rightarrow> ms)
      in bt_insert ordered_float_cmp score (List.insert m ms) t)"

definition zset_add :: "f64 \<Rightarrow> bytes \<Rightarrow> SortedSetValue \<Rightarrow> bool \<times> SortedSetValue" where
  "zset_add score m z =
     (let by_score = (case map_of (member_scores z) m of
                        None \<Rightarrow> members_by_score z
                      | Some old_score \<Rightarrow> unlink old_score m (members_by_score z))
      in (True, z\<lparr>members_by_score := link score m by_score,
                  member_scores := AList.update m score (member_scores z)\<rparr>))"

definition zset_remove :: "bytes \<Rightarrow> SortedSetValue \<Rightarrow> bool \<times> SortedSetValue" where
  "zset_remove m z =
     (case map_of (member_scores z) m of
        None \<Rightarrow> (False, z)
      | Some score \<Rightarrow>
          (True, z\<lparr>members_by_score := unlink score m (members_by_score z),
                   member_scores := AList.delete m (member_scores z)\<rparr>))"

definition get_score :: "bytes \<Rightarrow> SortedSetValue \<Rightarrow> f64 option" where
  "get_score m z = map_of (member_scores z) m"

text \<open>All entries in iteration order: scores ascending, members of one score in hash order.\<close>

definition entries_of :: "(bytes list \<Rightarrow> bytes list) \<Rightarrow> (f64 \<times> bytes list) list \<Rightarrow> (bytes \<times> f64) list" where
  "entries_of ord xs = concat (map (\<lambda>(s, ms). map (\<lambda>m. (m, s)) (ord ms)) xs)"

definition zset_entries :: "(bytes list \<Rightarrow> bytes list) \<Rightarrow> SortedSetValue \<Rightarrow> (bytes \<times> f64) list" where
  "zset_entries ord z = entries_of ord (bt_list (members_by_score z))"

definition with_score :: "bool \<Rightarrow> bytes \<times> f64 \<Rightarrow> bytes \<times> f64 option" where
  "with_score with_scores e = (fst e, if with_scores then Some (snd e) else None)"

fun range_loop :: "nat \<Rightarrow> nat \<Rightarrow> nat \<Rightarrow> 'a list \<Rightarrow> 'a list" where
  "range_loop start stop cnt [] = []"
| "range_loop start stop cnt (x # xs) =
     (let out = (if start \<le> cnt \<and> cnt \<le> stop then [x] else []) in
      if Suc cnt > stop then out else out @ range_loop start stop (Suc cnt) xs)"

definition zset_get_range ::
    "(bytes list \<Rightarrow> bytes list) \<Rightarrow> nat \<Rightarrow> nat \<Rightarrow> bool \<Rightarrow> SortedSetValue \<Rightarrow> (bytes \<times> f64 option) list" where
  "zset_get_range ord start stop with_scores z =
     map (with_score with_scores) (range_loop start stop 0 (zset_entries ord z))"

definition zset_get_range_by_score ::
    "(bytes list \<Rightarrow> bytes list) \<Rightarrow> f64 \<Rightarrow> f64 \<Rightarrow> bool \<Rightarrow> SortedSetValue \<Rightarrow>
       (bytes \<times> f64 option) list option" where
  "zset_get_range_by_score ord lo hi with_scores z =
     (case bt_range ordered_float_cmp lo hi (members_by_score z) of
        None \<Rightarrow> None
      | Some xs \<Rightarrow> Some (map (with_score with_scores) (entries_of ord xs)))"

fun index_of :: "bytes \<Rightarrow> bytes list \<Rightarrow> nat option" where
  "index_of m [] = None"
| "index_of m (x # xs) = (if x = m then Some 0 else map_option Suc (index_of m xs))"

fun rank_loop :: "f64 \<Rightarrow> bytes \<Rightarrow> nat \<Rightarrow> (f64 \<times> bytes list) list \<Rightarrow> nat option" where
  "rank_loop target m rank [] = None"
| "rank_loop target m rank ((s, ms) # rest) =
     (if f64_lt s target then rank_loop target m (rank + length ms) rest
      else if f64_eq s target then
        (case index_of m (sort ms) of
           Some i \<Rightarrow> Some (rank + i)
         | None \<Rightarrow> rank_loop target m (rank + length ms) rest)
      else None)"

definition get_rank :: "bytes \<Rightarrow> SortedSetValue \<Rightarrow> nat option" where
  "get_rank m z =
     (case map_of (member_scores z) m of
        None \<Rightarrow> None
      | Some target \<Rightarrow> rank_loop target m 0 (bt_list (members_by_score z)))"

text \<open>
  \<open>pop_min\<close> and \<open>pop_max\<close>: the loop runs at most \<open>count\<close> times; reserving the result
  vector panics (\<open>None\<close>) when \<open>count\<close> elements cannot be reserved.
\<close>

fun pop_loop ::
    "((f64 \<times> bytes list) list \<Rightarrow> (f64 \<times> bytes list) option) \<Rightarrow> (bytes list \<Rightarrow> bytes list) \<Rightarrow> nat \<Rightarrow>
       SortedSetValue \<Rightarrow> (bytes \<times> f64) list \<times> SortedSetValue" where
  "pop_loop next_bucket ord 0 z = ([], z)"
| "pop_loop next_bucket ord (Suc n) z =
     (case next_bucket (bt_list (members_by_score z)) of
        None \<Rightarrow> ([], z)
      | Some (s, ms) \<Rightarrow>
          (case ord ms of
             [] \<Rightarrow> ([], z)
           | m # _ \<Rightarrow>
               (case pop_loop next_bucket ord n (snd (zset_remove m z)) of
                  (out, z') \<Rightarrow> ((m, s) # out, z'))))"

definition first_bucket :: "'a list \<Rightarrow> 'a option" where
  "first_bucket xs = (case xs of [] \<Rightarrow> None | x # _ \<Rightarrow> Some x)"

definition last_bucket :: "'a list \<Rightarrow> 'a option" where
  "last_bucket xs = (if xs = [] then None else Some (last xs))"

definition pop_min :: "env \<Rightarrow> nat \<Rightarrow> SortedSetValue \<Rightarrow> ((bytes \<times> f64) list \<times> SortedSetValue) option" where
  "pop_min E cnt z =
     (if cnt > capacity_limit E then None
      else Some (pop_loop first_bucket (hash_order E) cnt z))"

definition pop_max :: "env \<Rightarrow> nat \<Rightarrow> SortedSetValue \<Rightarrow> ((bytes \<times> f64) list \<times> SortedSetValue) option" where
  "pop_max E cnt z =
     (if cnt > capacity_limit E then None
      else Some (pop_loop last_bucket (hash_order E) cnt z))"

definition zset_len :: "SortedSetValue \<Rightarrow> nat" where
  "zset_len z = length (member_scores z)"

definition zset_is_expired :: "instant \<Rightarrow> SortedSetValue \<Rightarrow> bool" where
  "zset_is_expired t z = past t (z_expires_at z)"

subsection \<open>The two indexes agree\<close>

definition in_bucket :: "(f64 \<times> bytes list) list \<Rightarrow> bytes \<Rightarrow> int \<Rightarrow> bool" where
  "in_bucket xs m r \<longleftrightarrow> (\<exists>(s, ms) \<in> set xs. m \<in> set ms \<and> f64_rank s = r)"

definition buckets_ok :: "(f64 \<times> bytes list) list \<Rightarrow> bool" where
  "buckets_ok xs \<longleftrightarrow>
     bl_ordered not_nan f64_rank xs \<and> (\<forall>(s, ms) \<in> set xs. ms \<noteq> [] \<and> distinct ms)"

definition zset_inv :: "SortedSetValue \<Rightarrow> bool" where
  "zset_inv z \<longleftrightarrow>
     buckets_ok (bt_list (members_by_score z)) \<and>
     distinct (map fst (member_scores z)) \<and>
     (\<forall>m s. map_of (member_scores z) m = Some s \<longrightarrow> not_nan s) \<and>
     (\<forall>m r. in_bucket (bt_list (members_by_score z)) m r \<longleftrightarrow>
            (\<exists>s. map_of (member_scores z) m = Some s \<and> f64_rank s = r))"

lemma in_bucket_Cons: "in_bucket ((s, ms) # xs) x r \<longleftrightarrow> x \<in> set ms \<and> r = f64_rank s \<or> in_bucket xs x r"
  by (auto simp: in_bucket_def)

lemma in_bucket_get:
  assumes "bl_ordered not_nan f64_rank xs" "not_nan s"
  shows "in_bucket xs x (f64_rank s) \<longleftrightarrow>
    (\<exists>ms. bl_get ordered_float_cmp s xs = Some ms \<and> x \<in> set ms)"
  using score_order.get_iff [OF assms] by (auto simp: in_bucket_def)

lemma in_bucket_insert:
  assumes "bl_ordered not_nan f64_rank xs" "not_nan s"
  shows "in_bucket (bl_insert ordered_float_cmp s v xs) x r \<longleftrightarrow>
    (if r = f64_rank s then x \<in> set v else in_bucket xs x r)"
proof -
  obtain k where "f64_rank k = f64_rank s" "set (bl_insert ordered_float_cmp s v xs) =
      insert (k, v) {e \<in> set xs. f64_rank (fst e) \<noteq> f64_rank s}"
    using score_order.set_insert [OF assms] by blast
  then show ?thesis by (auto simp: in_bucket_def)
qed

lemma in_bucket_remove:
  assumes "bl_ordered not_nan f64_rank xs" "not_nan s"
  shows "in_bucket (bl_remove ordered_float_cmp s xs) x r \<longleftrightarrow> r \<noteq> f64_rank s \<and> in_bucket xs x r"
  using score_order.set_remove [OF assms] by (auto simp: in_bucket_def)

lemma buckets_ok_insert:
  assumes "buckets_ok xs" "not_nan s" "v \<noteq> []" "distinct v"
  shows "buckets_ok (bl_insert ordered_float_cmp s v xs)"
proof -
  have o: "bl_ordered not_nan f64_rank xs" using assms by (simp add: buckets_ok_def)
  obtain k where "set (bl_insert ordered_float_cmp s v xs) =
      insert (k, v) {e \<in> set xs. f64_rank (fst e) \<noteq> f64_rank s}"
    using score_order.set_insert [OF o assms(2)] by blast
  with score_order.ordered_insert [OF o assms(2), of v] assms show ?thesis
    by (auto simp: buckets_ok_def)
qed

lemma buckets_ok_remove:
  assumes "buckets_ok xs" "not_nan s"
  shows "buckets_ok (bl_remove ordered_float_cmp s xs)"
proof -
  have o: "bl_ordered not_nan f64_rank xs" using assms by (simp add: buckets_ok_def)
  show ?thesis
    using score_order.ordered_remove [OF o assms(2)] score_order.set_remove [OF o assms(2)] assms
    by (auto simp: buckets_ok_def)
qed

lemma bucket_distinct:
  assumes "buckets_ok xs" "not_nan s" "bl_get ordered_float_cmp s xs = Some ms"
  shows "distinct ms"
proof -
  have o: "bl_ordered not_nan f64_rank xs" using assms by (simp add: buckets_ok_def)
  obtain a where "(a, ms) \<in> set xs" using score_order.get_iff [OF o assms(2), of ms] assms(3) by auto
  with assms(1) show ?thesis by (auto simp: buckets_ok_def)
qed

lemma buckets_ok_unlink:
  "buckets_ok (bt_list t) \<Longrightarrow> not_nan s \<Longrightarrow> buckets_ok (bt_list (unlink s m t))"
  by (cases "bl_get ordered_float_cmp s (bt_list t)")
    (simp_all add: unlink_def bt_get_def bt_remove_def bt_insert_def Let_def buckets_ok_remove
      buckets_ok_insert bucket_distinct distinct_removeAll)

lemma in_bucket_unlink:
  assumes "buckets_ok (bt_list t)" "not_nan s"
  shows "in_bucket (bt_list (unlink s m t)) x r \<longleftrightarrow>
    in_bucket (bt_list t) x r \<and> \<not> (x = m \<and> r = f64_rank s)"
proof -
  have o: "bl_ordered not_nan f64_rank (bt_list t)" using assms by (simp add: buckets_ok_def)
  show ?thesis
  proof (cases "bl_get ordered_float_cmp s (bt_list t)")
    case None
    then show ?thesis using in_bucket_get [OF o assms(2), of x]
      by (auto simp: unlink_def bt_get_def)
  next
    case (Some ms)
    have ms: "in_bucket (bt_list t) y (f64_rank s) \<longleftrightarrow> y \<in> set ms" for y
      using in_bucket_get [OF o assms(2)] Some by simp
    have "removeAll m ms = [] \<Longrightarrow> y \<in> set ms \<Longrightarrow> y = m" for y
      by (metis Diff_empty Diff_eq_empty_iff Diff_insert0 empty_iff insert_iff set_empty set_removeAll subsetD)
    then show ?thesis
      using Some ms by (auto simp: unlink_def bt_get_def bt_remove_def bt_insert_def Let_def
          in_bucket_insert [OF o assms(2)] in_bucket_remove [OF o assms(2)])
  qed
qed

lemma buckets_ok_link:
  assumes "buckets_ok (bt_list t)" "not_nan s"
  shows "buckets_ok (bt_list (link s m t))"
proof -
  have "List.insert m ms \<noteq> []" for ms by (cases ms) (simp_all add: List.insert_def)
  then show ?thesis
    using assms by (auto simp: link_def bt_get_def bt_insert_def Let_def bucket_distinct
        intro!: buckets_ok_insert split: option.splits)
qed

lemma in_bucket_link:
  assumes "buckets_ok (bt_list t)" "not_nan s"
  shows "in_bucket (bt_list (link s m t)) x r \<longleftrightarrow>
    in_bucket (bt_list t) x r \<or> (x = m \<and> r = f64_rank s)"
proof -
  have o: "bl_ordered not_nan f64_rank (bt_list t)" using assms by (simp add: buckets_ok_def)
  show ?thesis
    using in_bucket_get [OF o assms(2), of x]
    by (auto simp: link_def bt_get_def bt_insert_def Let_def in_bucket_insert [OF o assms(2)]
        split: option.splits)
qed

lemma zset_inv_D:
  assumes "zset_inv z"
  shows "buckets_ok (bt_list (members_by_score z))" "distinct (map fst (member_scores z))"
    "map_of (member_scores z) m = Some s \<Longrightarrow> not_nan s"
    "in_bucket (bt_list (members_by_score z)) m r \<longleftrightarrow>
       (\<exists>s. map_of (member_scores z) m = Some s \<and> f64_rank s = r)"
  using assms by (auto simp: zset_inv_def dest: map_of_SomeD)

lemma zset_inv_new [value_inv_intros]: "zset_inv zset_new"
  by (simp add: zset_inv_def zset_new_def bt_new_def buckets_ok_def in_bucket_def)

lemma zset_inv_add [value_inv_intros]:
  assumes "zset_inv z" "not_nan s"
  shows "zset_inv (snd (zset_add s m z))"
proof -
  define t where "t = (case map_of (member_scores z) m of None \<Rightarrow> members_by_score z
     | Some old \<Rightarrow> unlink old m (members_by_score z))"
  have t: "buckets_ok (bt_list t)"
    using zset_inv_D [OF assms(1)] by (auto simp: t_def buckets_ok_unlink split: option.splits)
  have bt: "in_bucket (bt_list t) x r \<longleftrightarrow> x \<noteq> m \<and> (\<exists>s. map_of (member_scores z) x = Some s \<and> f64_rank s = r)" for x r
    using zset_inv_D(1,3,4) [OF assms(1)] by (auto simp: t_def in_bucket_unlink split: option.splits)
  have z': "snd (zset_add s m z) = z\<lparr>members_by_score := link s m t,
      member_scores := AList.update m s (member_scores z)\<rparr>"
    by (simp add: zset_add_def Let_def t_def)
  have "buckets_ok (bt_list (link s m t))" by (rule buckets_ok_link [OF t assms(2)])
  moreover have "distinct (map fst (AList.update m s (member_scores z)))"
    using zset_inv_D(2) [OF assms(1)] by (rule distinct_update)
  moreover have "\<forall>x s'. map_of (AList.update m s (member_scores z)) x = Some s' \<longrightarrow> not_nan s'"
    using zset_inv_D(3) [OF assms(1)] assms(2) by (simp add: update_conv')
  moreover have "\<forall>x r. in_bucket (bt_list (link s m t)) x r \<longleftrightarrow>
      (\<exists>s'. map_of (AList.update m s (member_scores z)) x = Some s' \<and> f64_rank s' = r)"
    using bt by (auto simp: in_bucket_link [OF t assms(2)] update_conv')
  ultimately show ?thesis unfolding zset_inv_def z' by simp
qed

lemma zset_inv_remove [value_inv_intros]:
  assumes "zset_inv z"
  shows "zset_inv (snd (zset_remove m z))"
proof (cases "map_of (member_scores z) m")
  case None
  then show ?thesis using assms by (simp add: zset_remove_def)
next
  case (Some s)
  note D = zset_inv_D [OF assms]
  have "buckets_ok (bt_list (unlink s m (members_by_score z)))"
    by (rule buckets_ok_unlink [OF D(1) D(3) [OF Some]])
  moreover have "distinct (map fst (AList.delete m (member_scores z)))"
    using D(2) by (rule distinct_delete)
  moreover have "\<forall>x s'. map_of (AList.delete m (member_scores z)) x = Some s' \<longrightarrow> not_nan s'"
    using D(3) by (simp add: delete_conv')
  moreover have "\<forall>x r. in_bucket (bt_list (unlink s m (members_by_score z))) x r \<longleftrightarrow>
      (\<exists>s'. map_of (AList.delete m (member_scores z)) x = Some s' \<and> f64_rank s' = r)"
    using Some D(4) by (auto simp: in_bucket_unlink [OF D(1) D(3) [OF Some]] delete_conv')
  ultimately show ?thesis using Some unfolding zset_inv_def zset_remove_def by simp
qed

lemma get_score_add: "get_score x (snd (zset_add s m z)) = (if x = m then Some s else get_score x z)"
  by (simp add: get_score_def zset_add_def Let_def update_conv')

lemma get_score_remove: "get_score x (snd (zset_remove m z)) = (if x = m then None else get_score x z)"
  by (auto simp: get_score_def zset_remove_def delete_conv' split: option.splits)

subsection \<open>Ranges\<close>

lemma range_loop_slice:
  "c \<le> stop \<Longrightarrow> range_loop start stop c xs = drop (start - c) (take (Suc stop - c) xs)"
proof (induction xs arbitrary: c)
  case (Cons x xs)
  show ?case
  proof (cases "Suc c > stop")
    case True
    with Cons.prems have "c = stop" by simp
    then show ?thesis by (auto simp: drop_Cons')
  next
    case False
    then have "range_loop start stop (Suc c) xs = drop (start - Suc c) (take (Suc stop - Suc c) xs)"
      by (intro Cons.IH) simp
    with False show ?thesis by (auto simp: take_Cons' drop_Cons' Suc_diff_le)
  qed
qed simp

lemma set_entries_of:
  "is_order ord \<Longrightarrow> set (entries_of ord xs) = {(m, s). \<exists>ms. (s, ms) \<in> set xs \<and> m \<in> set ms}"
  by (auto simp: entries_of_def set_order)

lemma sorted_entries_of:
  "is_order ord \<Longrightarrow> bl_ordered not_nan f64_rank xs \<Longrightarrow>
     sorted (map (\<lambda>e. f64_rank (snd e)) (entries_of ord xs))"
proof (induction xs)
  case Nil
  then show ?case by (simp add: entries_of_def)
next
  case (Cons e xs)
  obtain s ms where e: "e = (s, ms)" by (cases e)
  have "sorted (map (\<lambda>e. f64_rank (snd e)) (map (\<lambda>m. (m, s)) ys))" for ys :: "bytes list"
    by (induction ys) auto
  moreover have "entries_of ord (e # xs) = map (\<lambda>m. (m, s)) (ord ms) @ entries_of ord xs"
    by (simp add: entries_of_def e)
  moreover have "\<forall>x \<in> set (entries_of ord xs). f64_rank s \<le> f64_rank (snd x)"
    using Cons.prems by (auto simp: set_entries_of score_order.ordered_Cons e)
  ultimately show ?case
    using Cons by (auto simp: sorted_append score_order.ordered_Cons)
qed

lemma zset_entries_iff:
  assumes "zset_inv z" "is_order ord"
  shows "(\<exists>s. (m, s) \<in> set (zset_entries ord z) \<and> f64_rank s = r) \<longleftrightarrow>
    (\<exists>s. get_score m z = Some s \<and> f64_rank s = r)"
  using zset_inv_D(4) [OF assms(1), of m r]
  by (auto simp: zset_entries_def set_entries_of [OF assms(2)] in_bucket_def get_score_def)

lemma distinct_entries_of:
  assumes "is_order ord" "buckets_ok xs" "\<And>m r r'. in_bucket xs m r \<Longrightarrow> in_bucket xs m r' \<Longrightarrow> r = r'"
  shows "distinct (map fst (entries_of ord xs))"
  using assms(2,3)
proof (induction xs)
  case Nil
  then show ?case by (simp add: entries_of_def)
next
  case (Cons e xs)
  obtain s ms where e: "e = (s, ms)" by (cases e)
  have fst: "map fst (entries_of ord (e # xs)) = ord ms @ map fst (entries_of ord xs)"
    by (simp add: entries_of_def e comp_def)
  have lt: "f64_rank s < f64_rank s'" if "(s', ms') \<in> set xs" for s' ms'
    using that Cons.prems(1) by (force simp: buckets_ok_def e score_order.ordered_Cons)
  have "set ms \<inter> fst ` set (entries_of ord xs) = {}"
  proof (rule ccontr)
    assume "\<not> ?thesis"
    then obtain m s' ms' where m: "m \<in> set ms" "(s', ms') \<in> set xs" "m \<in> set ms'"
      by (auto simp: set_entries_of [OF assms(1)])
    then have "in_bucket (e # xs) m (f64_rank s)" "in_bucket (e # xs) m (f64_rank s')"
      by (auto simp: in_bucket_def e)
    then have "f64_rank s = f64_rank s'" by (rule Cons.prems(2))
    with lt [OF m(2)] show False by simp
  qed
  moreover have "distinct (map fst (entries_of ord xs))"
  proof (rule Cons.IH)
    show "buckets_ok xs" using Cons.prems(1) by (simp add: buckets_ok_def score_order.ordered_Cons)
    show "r = r'" if "in_bucket xs m r" "in_bucket xs m r'" for m r r'
      using Cons.prems(2) [of m r r'] that unfolding e in_bucket_Cons by blast
  qed
  ultimately show ?case
    using Cons.prems(1) unfolding fst
    by (auto simp: set_order [OF assms(1)] distinct_order [OF assms(1)] buckets_ok_def e)
qed

lemma zset_entries_members:
  assumes "zset_inv z" "is_order ord"
  shows "distinct (map fst (zset_entries ord z))"
    and "set (map fst (zset_entries ord z)) = fst ` set (member_scores z)"
    and "length (zset_entries ord z) = zset_len z"
proof -
  note D = zset_inv_D [OF assms(1)]
  show d: "distinct (map fst (zset_entries ord z))"
    unfolding zset_entries_def by (rule distinct_entries_of [OF assms(2) D(1)]) (auto simp: D(4))
  have "m \<in> set (map fst (zset_entries ord z)) \<longleftrightarrow> get_score m z \<noteq> None" for m
    using zset_entries_iff [OF assms, of m] by force
  then show s: "set (map fst (zset_entries ord z)) = fst ` set (member_scores z)"
    by (simp add: set_eq_iff get_score_def map_of_eq_None_iff)
  show "length (zset_entries ord z) = zset_len z"
    using distinct_card [OF d] distinct_card [OF D(2)] s by (simp add: zset_len_def)
qed

subsection \<open>Rank\<close>

lemma index_of_sorted:
  "sorted xs \<Longrightarrow> distinct xs \<Longrightarrow> m \<in> set xs \<Longrightarrow> index_of m xs = Some (card {x \<in> set xs. x < m})"
proof (induction xs)
  case (Cons x xs)
  show ?case
  proof (cases "x = m")
    case True
    with Cons.prems have "{y \<in> set (x # xs). y < m} = {}" by auto
    then show ?thesis using True by simp
  next
    case False
    with Cons.prems have "x < m" by auto
    then have "{y \<in> set (x # xs). y < m} = insert x {y \<in> set xs. y < m}" by auto
    then show ?thesis using Cons False by simp
  qed
qed simp

definition before :: "(f64 \<times> bytes list) list \<Rightarrow> int \<Rightarrow> bytes \<Rightarrow> bytes set" where
  "before xs r m = {x. \<exists>r'. in_bucket xs x r' \<and> (r' < r \<or> r' = r \<and> x < m)}"

lemma finite_bucket_members: "finite {x. \<exists>r. in_bucket xs x r}"
  by (rule finite_subset [of _ "\<Union>(s, ms) \<in> set xs. set ms"]) (auto simp: in_bucket_def)

lemma rank_loop_before:
  assumes "not_nan target"
  shows "buckets_ok xs \<Longrightarrow> (\<And>x r r'. in_bucket xs x r \<Longrightarrow> in_bucket xs x r' \<Longrightarrow> r = r') \<Longrightarrow>
    in_bucket xs m (f64_rank target) \<Longrightarrow>
    rank_loop target m acc xs = Some (acc + card (before xs (f64_rank target) m))"
proof (induction xs arbitrary: acc)
  case Nil
  then show ?case by (simp add: in_bucket_def)
next
  case (Cons e xs)
  obtain s ms where e: "e = (s, ms)" by (cases e)
  have ok: "not_nan s" "buckets_ok xs" "distinct ms"
    and gt: "\<And>x r. in_bucket xs x r \<Longrightarrow> f64_rank s < r"
    using Cons.prems(1) by (force simp: buckets_ok_def e score_order.ordered_Cons in_bucket_def)+
  consider "f64_rank s < f64_rank target" | "f64_rank s = f64_rank target" | "f64_rank target < f64_rank s"
    by linarith
  then show ?case
  proof cases
    case 1
    have b: "before (e # xs) (f64_rank target) m = set ms \<union> before xs (f64_rank target) m"
      using 1 by (auto simp: before_def e in_bucket_Cons)
    have "set ms \<inter> before xs (f64_rank target) m = {}"
    proof (rule ccontr)
      assume "\<not> ?thesis"
      then obtain x r where "x \<in> set ms" "in_bucket xs x r" by (auto simp: before_def)
      with Cons.prems(2) [of x "f64_rank s" r] gt [of x r] show False by (auto simp: e in_bucket_Cons)
    qed
    moreover have "finite (before xs (f64_rank target) m)"
      by (rule finite_subset [OF _ finite_bucket_members [of xs]]) (auto simp: before_def)
    ultimately have "card (before (e # xs) (f64_rank target) m) =
        length ms + card (before xs (f64_rank target) m)"
      by (simp add: b card_Un_disjoint distinct_card [OF ok(3)])
    moreover have "in_bucket xs m (f64_rank target)" using Cons.prems(3) 1 by (auto simp: e in_bucket_Cons)
    moreover have "in_bucket xs x r \<Longrightarrow> in_bucket xs x r' \<Longrightarrow> r = r'" for x r r'
      using Cons.prems(2) by (auto simp: e in_bucket_Cons)
    ultimately show ?thesis
      using 1 ok assms Cons.IH [of "acc + length ms"] by (simp add: e f64_lt_def)
  next
    case 2
    have "m \<in> set ms" using Cons.prems(3) gt [of m "f64_rank target"] 2 by (auto simp: e in_bucket_Cons)
    moreover have "before (e # xs) (f64_rank target) m = {x \<in> set ms. x < m}"
      using 2 gt by (fastforce simp: before_def e in_bucket_Cons)
    ultimately show ?thesis
      using 2 ok assms index_of_sorted [of "sort ms" m] by (simp add: e f64_lt_def f64_eq_def)
  next
    case 3
    then have False using Cons.prems(3) gt [of m "f64_rank target"] by (auto simp: e in_bucket_Cons)
    then show ?thesis ..
  qed
qed

subsection \<open>Popping\<close>

definition extremal :: "int \<Rightarrow> ((f64 \<times> bytes list) list \<Rightarrow> (f64 \<times> bytes list) option) \<Rightarrow> bool" where
  "extremal d nb \<longleftrightarrow> (\<forall>xs. nb xs = None \<longleftrightarrow> xs = []) \<and>
     (\<forall>xs e. bl_ordered not_nan f64_rank xs \<and> nb xs = Some e \<longrightarrow>
        e \<in> set xs \<and> (\<forall>e' \<in> set xs. d * f64_rank (fst e) \<le> d * f64_rank (fst e')))"

lemma extremal_first: "extremal 1 first_bucket"
proof -
  have "d * f64_rank (fst e) \<le> d * f64_rank (fst e')"
    if "bl_ordered not_nan f64_rank (e # xs)" "e' \<in> set (e # xs)" "d = (1 :: int)" for e e' d and xs :: "(f64 \<times> bytes list) list"
    using that by (auto simp: score_order.ordered_Cons dest!: bspec)
  then show ?thesis
    unfolding extremal_def first_bucket_def by (auto split: list.splits) force
qed

lemma ordered_last_max:
  "bl_ordered not_nan f64_rank xs \<Longrightarrow> e' \<in> set xs \<Longrightarrow> f64_rank (fst e') \<le> f64_rank (fst (last xs))"
proof (induction xs)
  case (Cons e xs)
  then show ?case
    by (cases "xs = []") (auto simp: score_order.ordered_Cons intro: less_imp_le)
qed simp

lemma extremal_last: "extremal (- 1) last_bucket"
proof -
  have "e \<in> set xs \<and> (\<forall>e' \<in> set xs. f64_rank (fst e') \<le> f64_rank (fst e))"
    if "bl_ordered not_nan f64_rank xs" "last_bucket xs = Some e" for xs and e :: "f64 \<times> bytes list"
    using that ordered_last_max [OF that(1)] by (auto simp: last_bucket_def split: if_splits)
  moreover have "last_bucket xs = None \<longleftrightarrow> xs = []" for xs :: "(f64 \<times> bytes list) list"
    by (simp add: last_bucket_def)
  ultimately show ?thesis unfolding extremal_def mult_minus1 neg_le_iff_le by blast
qed

text \<open>What a pop of at most \<open>n\<close> members guarantees, in the direction \<open>d\<close>.\<close>

definition pops ::
    "int \<Rightarrow> nat \<Rightarrow> SortedSetValue \<Rightarrow> (bytes \<times> f64) list \<Rightarrow> SortedSetValue \<Rightarrow> bool" where
  "pops d n z out z' \<longleftrightarrow>
     zset_inv z' \<and> length out = min n (zset_len z) \<and> distinct (map fst out) \<and>
     sorted (map (\<lambda>e. d * f64_rank (snd e)) out) \<and>
     (\<forall>(m, s) \<in> set out. \<exists>s'. get_score m z = Some s' \<and> f64_rank s' = f64_rank s) \<and>
     (\<forall>x. get_score x z' = (if x \<in> fst ` set out then None else get_score x z)) \<and>
     (\<forall>(m, s) \<in> set out. \<forall>x s'. get_score x z' = Some s' \<longrightarrow> d * f64_rank s \<le> d * f64_rank s')"

lemma zset_len_0: "zset_inv z \<Longrightarrow> zset_len z = 0 \<longleftrightarrow> bt_list (members_by_score z) = []"
proof
  assume z: "zset_inv z" and "zset_len z = 0"
  then have "\<not> in_bucket (bt_list (members_by_score z)) m r" for m r
    using zset_inv_D(4) [OF z] by (simp add: zset_len_def)
  with zset_inv_D(1) [OF z] show "bt_list (members_by_score z) = []"
    by (cases "bt_list (members_by_score z)") (auto simp: in_bucket_def buckets_ok_def neq_Nil_conv, force)
next
  assume z: "zset_inv z" and "bt_list (members_by_score z) = []"
  then have "map_of (member_scores z) m = None" for m
    using zset_inv_D(4) [OF z, of m] by (cases "map_of (member_scores z) m") (auto simp: in_bucket_def)
  then show "zset_len z = 0"
    by (cases "member_scores z") (auto simp: zset_len_def, metis option.distinct(1))
qed

lemma zset_len_remove:
  assumes "zset_inv z" "get_score m z = Some s"
  shows "zset_len z = Suc (zset_len (snd (zset_remove m z)))"
proof -
  have d: "distinct (map fst (member_scores z))" by (rule zset_inv_D(2) [OF assms(1)])
  have "length (AList.delete m xs) = length xs - 1" if "distinct (map fst xs)" "m \<in> fst ` set xs" for xs :: "(bytes \<times> f64) list"
  proof -
    have "length (map fst (AList.delete m xs)) = length (remove1 m (map fst xs))"
      using that(1) by (simp only: delete_keys distinct_remove1_removeAll)
    then show ?thesis using that(2) by (simp add: length_remove1)
  qed
  moreover have "m \<in> fst ` set (member_scores z)"
    using assms(2) by (force simp: get_score_def dest: map_of_SomeD)
  moreover have "member_scores z \<noteq> []" using assms(2) by (auto simp: get_score_def)
  ultimately show ?thesis
    using assms(2) d by (simp add: zset_remove_def get_score_def zset_len_def)
qed

lemma pops_Cons:
  assumes IH: "pops d n z1 out z'" and len: "zset_len z = Suc (zset_len z1)"
    and sc: "\<And>x. get_score x z1 = (if x = m then None else get_score x z)"
    and s0: "get_score m z = Some s0" "f64_rank s0 = f64_rank s"
    and least: "\<And>x s'. get_score x z = Some s' \<Longrightarrow> d * f64_rank s \<le> d * f64_rank s'"
  shows "pops d (Suc n) z ((m, s) # out) z'"
proof -
  have out: "\<exists>s'. get_score x z = Some s' \<and> f64_rank s' = f64_rank r \<and> x \<noteq> m" if "(x, r) \<in> set out" for x r
  proof -
    have "\<forall>(m, s) \<in> set out. \<exists>s'. get_score m z1 = Some s' \<and> f64_rank s' = f64_rank s"
      using IH by (simp add: pops_def)
    with that obtain s' where "get_score x z1 = Some s'" "f64_rank s' = f64_rank r" by blast
    with sc [of x] show ?thesis by (metis option.distinct(1))
  qed
  have z': "get_score x z' = (if x \<in> fst ` set ((m, s) # out) then None else get_score x z)" for x
    using IH sc [of x] by (auto simp: pops_def)
  have "m \<notin> fst ` set out" using out by force
  moreover have "\<forall>e \<in> set out. d * f64_rank s \<le> d * f64_rank (snd e)"
    using out least by (metis prod.collapse)
  moreover have "\<forall>x s'. get_score x z' = Some s' \<longrightarrow> d * f64_rank s \<le> d * f64_rank s'"
    using z' least by (metis option.distinct(1))
  moreover have "\<forall>(x, r) \<in> set ((m, s) # out). \<exists>s'. get_score x z = Some s' \<and> f64_rank s' = f64_rank r"
    using out s0 by auto
  moreover have "zset_inv z'" "length out = min n (zset_len z1)" "distinct (map fst out)"
    "sorted (map (\<lambda>e. d * f64_rank (snd e)) out)"
    "\<forall>(m, s) \<in> set out. \<forall>x s'. get_score x z' = Some s' \<longrightarrow> d * f64_rank s \<le> d * f64_rank s'"
    using IH unfolding pops_def by blast+
  ultimately show ?thesis
    using len z' unfolding pops_def by simp
qed

lemma pop_loop_pops:
  assumes "extremal d nb" "is_order ord"
  shows "zset_inv z \<Longrightarrow> pops d n z (fst (pop_loop nb ord n z)) (snd (pop_loop nb ord n z))"
proof (induction n arbitrary: z)
  case 0
  then show ?case by (simp add: pops_def)
next
  case (Suc n)
  note D = zset_inv_D [OF Suc.prems]
  show ?case
  proof (cases "nb (bt_list (members_by_score z))")
    case None
    then have "zset_len z = 0" using assms(1) zset_len_0 [OF Suc.prems] by (simp add: extremal_def)
    with None Suc.prems show ?thesis by (simp add: pops_def)
  next
    case (Some e)
    obtain s ms where e: "e = (s, ms)" by (cases e)
    have o: "bl_ordered not_nan f64_rank (bt_list (members_by_score z))"
      using D(1) by (simp add: buckets_ok_def)
    with Some e assms(1) have mem: "(s, ms) \<in> set (bt_list (members_by_score z))"
      and min: "\<And>e'. e' \<in> set (bt_list (members_by_score z)) \<Longrightarrow> d * f64_rank s \<le> d * f64_rank (fst e')"
      unfolding extremal_def by auto
    have "ms \<noteq> []" using mem D(1) by (auto simp: buckets_ok_def)
    then obtain m tl where om: "ord ms = m # tl"
      using set_order [OF assms(2), of ms] by (cases "ord ms") auto
    then have "m \<in> set ms" using set_order [OF assms(2), of ms] by auto
    then obtain s0 where s0: "get_score m z = Some s0" "f64_rank s0 = f64_rank s"
      using mem D(4) [of m "f64_rank s"] by (auto simp: in_bucket_def get_score_def)
    define z1 where "z1 = snd (zset_remove m z)"
    have z1: "zset_inv z1" "zset_len z = Suc (zset_len z1)"
      "\<And>x. get_score x z1 = (if x = m then None else get_score x z)"
      using zset_inv_remove [OF Suc.prems] zset_len_remove [OF Suc.prems s0(1)]
      by (simp_all add: z1_def get_score_remove)
    have least: "d * f64_rank s \<le> d * f64_rank s'" if "get_score x z = Some s'" for x s'
      using that D(4) [of x "f64_rank s'"] min by (force simp: in_bucket_def get_score_def)
    obtain out z' where r: "pop_loop nb ord n z1 = (out, z')" by (cases "pop_loop nb ord n z1")
    have IH: "pops d n z1 out z'" using Suc.IH [OF z1(1)] r by simp
    have "pops d (Suc n) z ((m, s) # out) z'"
      by (rule pops_Cons [OF IH z1(2,3) s0 least])
    then show ?thesis using Some e om r by (simp add: z1_def)
  qed
qed

end
