(* ===== verification/Stream_Value.thy ===== *)
theory Stream_Value
  imports BTree_Map Value_Types
begin

text \<open>
  \<open>data_structures/stream.rs\<close>: stream ids, an append-only log of entries ordered by id, and
  its range reads. Ids are pairs of \<open>u64\<close>, ordered lexicographically as the derived \<open>Ord\<close>
  orders them; the automatic id adds one to a \<open>u64\<close> and wraps at its maximum.
\<close>

datatype StreamId = StreamId (id_ms: "64 word") (id_seq: "64 word")

instantiation StreamId :: linorder
begin

definition less_eq_StreamId :: "StreamId \<Rightarrow> StreamId \<Rightarrow> bool" where
  "less_eq_StreamId a b \<longleftrightarrow> id_ms a < id_ms b \<or> id_ms a = id_ms b \<and> id_seq a \<le> id_seq b"

definition less_StreamId :: "StreamId \<Rightarrow> StreamId \<Rightarrow> bool" where
  "less_StreamId a b \<longleftrightarrow> id_ms a < id_ms b \<or> id_ms a = id_ms b \<and> id_seq a < id_seq b"

instance
  by standard (auto simp: less_eq_StreamId_def less_StreamId_def StreamId.expand)

end

definition stream_id_cmp :: "StreamId \<Rightarrow> StreamId \<Rightarrow> cmp_result" where
  "stream_id_cmp a b = (if a < b then Less else if a = b then Equal else Greater)"

definition stream_id_rank :: "StreamId \<Rightarrow> int" where
  "stream_id_rank i = uint (id_ms i) * 2 ^ 64 + uint (id_seq i)"

lemma lex_rank:
  fixes a b c d :: int
  assumes "0 \<le> b" "b < 2 ^ 64" "0 \<le> d" "d < 2 ^ 64"
  shows "a * 2 ^ 64 + b < c * 2 ^ 64 + d \<longleftrightarrow> a < c \<or> a = c \<and> b < d"
proof -
  consider "a < c" | "a = c" | "c < a" by linarith
  then show ?thesis by cases (use assms in auto)
qed

lemma stream_id_rank_less: "stream_id_rank a < stream_id_rank b \<longleftrightarrow> a < b"
  unfolding stream_id_rank_def less_StreamId_def word_less_def word_uint_eq_iff
  by (rule lex_rank) (use uint_bounded [of "id_seq a"] uint_bounded [of "id_seq b"] in simp_all)

lemma stream_id_rank_eq: "stream_id_rank a = stream_id_rank b \<longleftrightarrow> a = b"
  using stream_id_rank_less [of a b] stream_id_rank_less [of b a] by (metis linorder_neqE order_less_irrefl)

interpretation id_order: ranked_order stream_id_cmp "\<lambda>_. True" stream_id_rank
  by unfold_locales (simp add: stream_id_cmp_def stream_id_rank_less stream_id_rank_eq)

definition stream_id_min :: StreamId where "stream_id_min = StreamId 0 0"
definition stream_id_max :: StreamId where "stream_id_max = StreamId (- 1) (- 1)"

definition stream_id_to_string :: "StreamId \<Rightarrow> bytes" where
  "stream_id_to_string i = nat_to_string (unat (id_ms i)) @ ''-'' @ nat_to_string (unat (id_seq i))"

text \<open>\<open>str::split_once\<close> at the first occurrence of a character.\<close>

fun split_once :: "char \<Rightarrow> bytes \<Rightarrow> (bytes \<times> bytes) option" where
  "split_once c [] = None"
| "split_once c (x # xs) =
     (if x = c then Some ([], xs) else map_option (\<lambda>(a, b). (x # a, b)) (split_once c xs))"

definition stream_id_parse :: "bytes \<Rightarrow> bool \<Rightarrow> StreamId result" where
  "stream_id_parse s is_upper =
     (let err = Inl (''invalid stream id: '' @ s) in
      if s = ''-'' then Inr stream_id_min
      else if s = ''+'' then Inr stream_id_max
      else if s = ''$'' then Inr stream_id_max
      else case split_once (CHR ''-'') s of
        Some (ms_s, seq_s) \<Rightarrow>
          (case parse_u64 ms_s of
             None \<Rightarrow> err
           | Some m \<Rightarrow> (case parse_u64 seq_s of
                          None \<Rightarrow> err
                        | Some q \<Rightarrow> Inr (StreamId (word_of_nat m) (word_of_nat q))))
      | None \<Rightarrow>
          (case parse_u64 s of
             None \<Rightarrow> err
           | Some m \<Rightarrow> Inr (StreamId (word_of_nat m) (if is_upper then - 1 else 0))))"

type_synonym stream_entry = "StreamId \<times> (bytes \<times> bytes) list"

record StreamValue =
  st_entries :: "(StreamId, (bytes \<times> bytes) list) btree"
  last_id :: StreamId
  st_expires_at :: "instant option"

definition stream_new :: StreamValue where
  "stream_new = \<lparr>st_entries = bt_new, last_id = stream_id_min, st_expires_at = None\<rparr>"

definition stream_is_expired :: "instant \<Rightarrow> StreamValue \<Rightarrow> bool" where
  "stream_is_expired t s = past t (st_expires_at s)"

definition stream_len :: "StreamValue \<Rightarrow> nat" where
  "stream_len s = length (bt_list (st_entries s))"

definition xadd_error :: bytes where
  "xadd_error = ''ERR The ID specified in XADD is equal or smaller than the target stream top item''"

definition stream_add ::
    "env \<Rightarrow> StreamId option \<Rightarrow> (bytes \<times> bytes) list \<Rightarrow> StreamValue \<Rightarrow> StreamId result \<times> StreamValue" where
  "stream_add E requested fvs s =
     (let store = (\<lambda>i. (Inr i, s\<lparr>st_entries := bt_insert stream_id_cmp i fvs (st_entries s),
                                   last_id := i\<rparr>)) in
      case requested of
        Some i \<Rightarrow> if i \<le> last_id s then (Inl xadd_error, s) else store i
      | None \<Rightarrow>
          (let now_ms = word_of_nat (unix_ms E) in
           if now_ms > id_ms (last_id s) then store (StreamId now_ms 0)
           else store (StreamId (id_ms (last_id s)) (id_seq (last_id s) + 1))))"

text \<open>The loop with the optional limit: the limit is tested after an entry has been pushed.\<close>

definition limited :: "nat option \<Rightarrow> 'a list \<Rightarrow> 'a list" where
  "limited limit xs = (case limit of None \<Rightarrow> xs | Some n \<Rightarrow> take (max n 1) xs)"

definition stream_range ::
    "StreamId \<Rightarrow> StreamId \<Rightarrow> nat option \<Rightarrow> StreamValue \<Rightarrow> stream_entry list option" where
  "stream_range start stop limit s =
     map_option (limited limit) (bt_range stream_id_cmp start stop (st_entries s))"

definition read_after :: "StreamId \<Rightarrow> nat option \<Rightarrow> StreamValue \<Rightarrow> stream_entry list" where
  "read_after cursor limit s =
     limited limit (filter (\<lambda>e. \<not> fst e \<le> cursor) (bt_range_from stream_id_cmp cursor (st_entries s)))"

subsection \<open>Ids\<close>

lemma split_once_append: "c \<notin> set xs \<Longrightarrow> split_once c (xs @ c # ys) = Some (xs, ys)"
  by (induction xs) auto

lemma stream_id_roundtrip: "stream_id_parse (stream_id_to_string i) u = Inr i"
proof -
  obtain a b where i: "i = StreamId a b" by (cases i)
  have lt: "unat (x :: 64 word) < 2 ^ 64" for x
    using unsigned_less [of x] by simp
  obtain c cs where c: "nat_to_string (unat a) = c # cs" "c \<noteq> CHR ''-''" "c \<noteq> CHR ''+''"
    by (rule nat_to_string_Cons)
  then have "stream_id_to_string i \<noteq> ''-''" "stream_id_to_string i \<noteq> ''+''" "stream_id_to_string i \<noteq> ''$''"
    by (simp_all add: stream_id_to_string_def i)
  moreover have "split_once (CHR ''-'') (stream_id_to_string i) =
      Some (nat_to_string (unat a), nat_to_string (unat b))"
  proof -
    have "CHR ''-'' \<notin> set (nat_to_string (unat a))"
      using digit_char_neq_sign(1) by blast
    then show ?thesis by (simp add: stream_id_to_string_def i split_once_append)
  qed
  ultimately show ?thesis
    using lt [of a] lt [of b] unfolding stream_id_parse_def Let_def by (simp add: i)
qed

subsection \<open>The log\<close>

definition stream_inv :: "StreamValue \<Rightarrow> bool" where
  "stream_inv s \<longleftrightarrow>
     bl_ordered (\<lambda>_. True) stream_id_rank (bt_list (st_entries s)) \<and>
     (\<forall>e \<in> set (bt_list (st_entries s)). stream_id_min < fst e \<and> fst e \<le> last_id s) \<and>
     last_id s = (if bt_list (st_entries s) = [] then stream_id_min else fst (last (bt_list (st_entries s))))"

lemma stream_id_min_le [simp]: "stream_id_min \<le> i"
  by (auto simp: stream_id_min_def less_eq_StreamId_def word_greater_zero_iff)

text \<open>
  The automatic id is only guaranteed to grow while the sequence number of the last id is
  below its maximum; \<open>auto_id_ok\<close> is that condition, which an explicit id never needs.
\<close>

definition auto_id_ok :: "env \<Rightarrow> StreamId option \<Rightarrow> StreamValue \<Rightarrow> bool" where
  "auto_id_ok E requested s \<longleftrightarrow>
     requested \<noteq> None \<or> word_of_nat (unix_ms E) > id_ms (last_id s) \<or> id_seq (last_id s) \<noteq> - 1"

lemma stream_inv_new [value_inv_intros]: "stream_inv stream_new"
  by (simp add: stream_inv_def stream_new_def bt_new_def)

lemma stream_inv_expiry [simp]: "stream_inv (s\<lparr>st_expires_at := e\<rparr>) \<longleftrightarrow> stream_inv s"
  by (simp add: stream_inv_def)

lemma seq_plus_1: "(x :: 64 word) \<noteq> - 1 \<Longrightarrow> x < x + 1"
  by (metis add.commute add_eq_0_iff lessI unatSuc word_less_nat_alt)

lemma stream_add_cases:
  assumes "auto_id_ok E requested s"
  obtains (rejected) i where "requested = Some i" "i \<le> last_id s" "stream_add E requested fvs s = (Inl xadd_error, s)"
  | (stored) i where "last_id s < i" "requested = None \<or> requested = Some i"
      "stream_add E requested fvs s =
         (Inr i, s\<lparr>st_entries := bt_insert stream_id_cmp i fvs (st_entries s), last_id := i\<rparr>)"
proof (cases requested)
  case (Some i)
  then show ?thesis
    using rejected [of i] stored [of i] by (cases "i \<le> last_id s") (auto simp: stream_add_def Let_def)
next
  case None
  define n where "n = (word_of_nat (unix_ms E) :: 64 word)"
  define i where "i = (if n > id_ms (last_id s) then StreamId n 0
      else StreamId (id_ms (last_id s)) (id_seq (last_id s) + 1))"
  have "last_id s < i"
    using assms None by (auto simp: i_def n_def auto_id_ok_def less_StreamId_def intro: seq_plus_1)
  moreover have "stream_add E requested fvs s =
      (Inr i, s\<lparr>st_entries := bt_insert stream_id_cmp i fvs (st_entries s), last_id := i\<rparr>)"
    using None by (simp add: stream_add_def Let_def i_def n_def)
  ultimately show ?thesis using stored None by blast
qed

lemma stream_add_appends:
  assumes "stream_inv s" "last_id s < i"
  shows "bt_list (bt_insert stream_id_cmp i fvs (st_entries s)) = bt_list (st_entries s) @ [(i, fvs)]"
proof -
  have "stream_id_rank (fst e) < stream_id_rank i" if "e \<in> set (bt_list (st_entries s))" for e
    using that assms by (auto simp: stream_inv_def stream_id_rank_less)
  then show ?thesis
    using assms(1) by (simp add: stream_inv_def bt_insert_def id_order.insert_last)
qed

lemma stream_inv_add:
  assumes "stream_inv s" "auto_id_ok E requested s"
  shows "stream_inv (snd (stream_add E requested fvs s))"
  using assms(2)
proof (cases rule: stream_add_cases [where fvs = fvs])
  case (rejected i)
  then show ?thesis using assms(1) by simp
next
  case (stored i)
  then show ?thesis
    using assms(1) stream_add_appends [OF assms(1) stored(1), of fvs]
      id_order.ordered_insert [of "bt_list (st_entries s)" i fvs]
    by (auto simp: stream_inv_def bt_insert_def intro: less_imp_le le_less_trans [OF stream_id_min_le])
qed

lemma stream_range_filter:
  assumes "stream_inv s"
  shows "stream_range start stop limit s =
    (if bt_rooted (st_entries s) \<and> stop < start then None
     else Some (limited limit (filter (\<lambda>e. start \<le> fst e \<and> fst e \<le> stop) (bt_list (st_entries s)))))"
  using assms
  by (simp add: stream_inv_def stream_range_def id_order.range_filter stream_id_rank_less
      linorder_not_less [symmetric])

lemma read_after_filter:
  assumes "stream_inv s"
  shows "read_after cursor limit s = limited limit (filter (\<lambda>e. cursor < fst e) (bt_list (st_entries s)))"
proof -
  have "filter (\<lambda>e. \<not> fst e \<le> cursor) (filter (\<lambda>e. stream_id_rank cursor \<le> stream_id_rank (fst e)) xs) =
      filter (\<lambda>e. cursor < fst e) xs" for xs :: "stream_entry list"
    by (induction xs) (auto simp: linorder_not_le stream_id_rank_less linorder_not_less [symmetric])
  then show ?thesis
    using assms by (simp add: stream_inv_def read_after_def id_order.range_from_filter)
qed

end
