(* ===== verification/Cache_Value.thy ===== *)
theory Cache_Value
  imports Value_Types Sorted_Set Stream_Value
begin

text \<open>
  \<open>CacheValue\<close> (data_structures/mod.rs): the six kinds of value a key can hold, their common
  expiry slot (\<open>expires_at_ref\<close> and \<open>expires_at_mut\<close> of storage.rs), and the invariant of a
  value. The locale \<open>expiry_slot\<close> is the contract of the slot that the TTL commands use.
\<close>

datatype CacheValue =
    String_v bytes "instant option"
  | Hash_v HashValue
  | List_v ListValue
  | Set_v SetValue
  | SortedSet_v SortedSetValue
  | Stream_v StreamValue

fun value_is_expired :: "instant \<Rightarrow> CacheValue \<Rightarrow> bool" where
  "value_is_expired t (String_v _ (Some expires_at)) = (t > expires_at)"
| "value_is_expired t (Hash_v h) = hash_is_expired t h"
| "value_is_expired t (List_v l) = list_is_expired t l"
| "value_is_expired t (Set_v s) = set_is_expired t s"
| "value_is_expired t (SortedSet_v ss) = zset_is_expired t ss"
| "value_is_expired t (Stream_v s) = stream_is_expired t s"
| "value_is_expired t _ = False"

fun expires_at_ref :: "CacheValue \<Rightarrow> instant option" where
  "expires_at_ref (String_v _ slot) = slot"
| "expires_at_ref (Hash_v h) = h_expires_at h"
| "expires_at_ref (List_v l) = l_expires_at l"
| "expires_at_ref (Set_v s) = s_expires_at s"
| "expires_at_ref (SortedSet_v z) = z_expires_at z"
| "expires_at_ref (Stream_v s) = st_expires_at s"

text \<open>\<open>*expires_at_mut(value) = slot\<close>.\<close>

fun expires_at_mut :: "instant option \<Rightarrow> CacheValue \<Rightarrow> CacheValue" where
  "expires_at_mut e (String_v b _) = String_v b e"
| "expires_at_mut e (Hash_v h) = Hash_v (h\<lparr>h_expires_at := e\<rparr>)"
| "expires_at_mut e (List_v l) = List_v (l\<lparr>l_expires_at := e\<rparr>)"
| "expires_at_mut e (Set_v s) = Set_v (s\<lparr>s_expires_at := e\<rparr>)"
| "expires_at_mut e (SortedSet_v z) = SortedSet_v (z\<lparr>z_expires_at := e\<rparr>)"
| "expires_at_mut e (Stream_v s) = Stream_v (s\<lparr>st_expires_at := e\<rparr>)"

locale expiry_slot =
  fixes slot :: "'v \<Rightarrow> instant option"
    and put_slot :: "instant option \<Rightarrow> 'v \<Rightarrow> 'v"
    and expired :: "instant \<Rightarrow> 'v \<Rightarrow> bool"
    and inv :: "'v \<Rightarrow> bool"
  assumes slot_put: "slot (put_slot e v) = e"
    and put_put: "put_slot e (put_slot e' v) = put_slot e v"
    and put_same: "put_slot (slot v) v = v"
    and expired_slot: "expired t v \<longleftrightarrow> past t (slot v)"
    and inv_put: "inv v \<Longrightarrow> inv (put_slot e v)"
begin

lemma expired_put: "expired t (put_slot e v) \<longleftrightarrow> past t e"
  by (simp add: expired_slot slot_put)

lemma never_expires: "\<not> expired t (put_slot None v)"
  by (simp add: expired_put)

lemma expires_after_deadline: "expired t (put_slot (Some d) v) \<longleftrightarrow> d < t"
  by (simp add: expired_put)

lemma expired_mono: "expired t v \<Longrightarrow> t \<le> t' \<Longrightarrow> expired t' v"
  by (cases "slot v") (auto simp: expired_slot)

end

fun value_inv :: "CacheValue \<Rightarrow> bool" where
  "value_inv (String_v _ _) = True"
| "value_inv (Hash_v h) = hash_inv h"
| "value_inv (List_v l) = True"
| "value_inv (Set_v s) = set_inv s"
| "value_inv (SortedSet_v z) = zset_inv z"
| "value_inv (Stream_v s) = stream_inv s"

interpretation cache_expiry: expiry_slot expires_at_ref expires_at_mut value_is_expired value_inv
proof unfold_locales
  fix e e' :: "instant option" and v t
  show "expires_at_ref (expires_at_mut e v) = e" by (cases v) simp_all
  show "expires_at_mut e (expires_at_mut e' v) = expires_at_mut e v" by (cases v) simp_all
  show "expires_at_mut (expires_at_ref v) v = v" by (cases v) simp_all
  show "value_is_expired t v \<longleftrightarrow> past t (expires_at_ref v)"
    by (cases "(t, v)" rule: value_is_expired.cases)
      (simp_all add: hash_is_expired_def list_is_expired_def set_is_expired_def
        zset_is_expired_def stream_is_expired_def)
  show "value_inv v \<Longrightarrow> value_inv (expires_at_mut e v)"
    by (cases v) (simp_all add: hash_inv_def set_inv_def zset_inv_def)
qed

end
