(* ===== verification/Sharded_Map.thy ===== *)
theory Sharded_Map
  imports Cache_Value
begin

unbundle bit_operations_syntax

text \<open>
  \<open>ShardedMap\<close> (storage.rs): 64 hash tables, a key lives in the one its hash selects. The
  hash function \<open>xxh3_64\<close> is a third-party function and an argument \<open>h\<close> of the model.

  A single-key operation locks the shard of its key, looks the key up and updates, inserts
  or removes its entry; \<open>with_entry h key f\<close> is that pattern, where \<open>f\<close> maps the entry found
  to the operation's result and the entry left behind, and \<open>read_entry\<close> is the read-only one.
  The locale \<open>keyed_store\<close> is what a client may rely on (the shards behave as one map), and
  its interpretation here shows that the sharded table keeps the promise for every hash.
\<close>

definition SHARD_COUNT :: nat where "SHARD_COUNT = 64"
definition SHARD_MASK :: "64 word" where "SHARD_MASK = word_of_nat SHARD_COUNT - 1"

record storage =
  shards :: "CacheValue table list"

definition storage_new :: storage where
  "storage_new = \<lparr>shards = replicate SHARD_COUNT []\<rparr>"

definition shard_index :: "hasher \<Rightarrow> bytes \<Rightarrow> nat" where
  "shard_index h key = unat (h key AND SHARD_MASK)"

definition shard :: "hasher \<Rightarrow> bytes \<Rightarrow> storage \<Rightarrow> CacheValue table" where
  "shard h key s = shards s ! shard_index h key"

definition lookup :: "hasher \<Rightarrow> storage \<Rightarrow> bytes \<Rightarrow> CacheValue option" where
  "lookup h s key = map_of (shard h key s) key"

definition write_back :: "bytes \<Rightarrow> 'v option \<Rightarrow> 'v table \<Rightarrow> 'v table" where
  "write_back key e g = (case e of None \<Rightarrow> AList.delete key g | Some v \<Rightarrow> AList.update key v g)"

definition with_entry ::
    "hasher \<Rightarrow> bytes \<Rightarrow> (CacheValue option \<Rightarrow> 'r \<times> CacheValue option) \<Rightarrow> storage \<Rightarrow> 'r \<times> storage" where
  "with_entry h key f s =
     (let g = shard h key s; (r, e) = f (map_of g key)
      in (r, s\<lparr>shards := (shards s)[shard_index h key := write_back key e g]\<rparr>))"

definition read_entry :: "hasher \<Rightarrow> bytes \<Rightarrow> (CacheValue option \<Rightarrow> 'r) \<Rightarrow> storage \<Rightarrow> 'r" where
  "read_entry h key f s = f (map_of (shard h key s) key)"

definition sharded :: "hasher \<Rightarrow> storage \<Rightarrow> bool" where
  "sharded h s \<longleftrightarrow> length (shards s) = SHARD_COUNT \<and>
     (\<forall>i < SHARD_COUNT. distinct (map fst (shards s ! i)) \<and>
        (\<forall>k \<in> fst ` set (shards s ! i). shard_index h k = i))"

lemma SHARD_MASK_eq: "SHARD_MASK = 63"
  by (simp add: SHARD_MASK_def SHARD_COUNT_def)

lemma shard_index_less [simp]: "shard_index h key < SHARD_COUNT"
proof -
  have "unat (h key AND 63) \<le> unat (63 :: 64 word)"
    by (rule word_and_le1 [THEN word_le_nat_alt [THEN iffD1]])
  then show ?thesis by (simp add: shard_index_def SHARD_MASK_eq SHARD_COUNT_def)
qed

lemma read_entry_lookup: "read_entry h key f s = f (lookup h s key)"
  by (simp add: read_entry_def lookup_def)

lemma map_of_write_back: "map_of (write_back k e g) = (map_of g)(k := e)"
  by (cases e) (simp_all add: write_back_def update_conv' delete_conv')

lemma distinct_write_back: "distinct (map fst g) \<Longrightarrow> distinct (map fst (write_back k e g))"
  by (cases e) (simp_all add: write_back_def distinct_update distinct_delete)

lemma keys_write_back: "fst ` set (write_back k e g) \<subseteq> insert k (fst ` set g)"
  using dom_delete_subset [of k g] by (cases e) (auto simp: write_back_def dom_update)

lemma write_back_same: "write_back k (map_of g k) g = g"
  by (cases "map_of g k") (simp_all add: write_back_def update_same delete_absent)

lemma with_entry_result: "fst (with_entry h k f s) = fst (f (lookup h s k))"
  by (simp add: with_entry_def lookup_def Let_def split_beta)

lemma with_entry_unchanged:
  assumes "snd (f (lookup h s k)) = lookup h s k"
  shows "snd (with_entry h k f s) = s"
proof -
  have "write_back k (snd (f (lookup h s k))) (shard h k s) = shard h k s"
    unfolding assms by (simp add: lookup_def write_back_same)
  then show ?thesis by (simp add: with_entry_def lookup_def Let_def split_beta shard_def)
qed

lemma sharded_new [simp]: "sharded h storage_new"
  by (simp add: sharded_def storage_new_def)

lemma lookup_new [simp]: "lookup h storage_new k = None"
  by (simp add: lookup_def shard_def storage_new_def)

lemma sharded_length: "sharded h s \<Longrightarrow> length (shards s) = SHARD_COUNT"
  by (simp add: sharded_def)

subsection \<open>The shards as one map\<close>

locale keyed_store =
  fixes find :: "'s \<Rightarrow> bytes \<Rightarrow> 'v option"
    and entry :: "bytes \<Rightarrow> ('v option \<Rightarrow> 'r \<times> 'v option) \<Rightarrow> 's \<Rightarrow> 'r \<times> 's"
    and wf :: "'s \<Rightarrow> bool"
  assumes find_entry: "wf s \<Longrightarrow> find (snd (entry k f s)) = (find s)(k := snd (f (find s k)))"
    and entry_result: "fst (entry k f s) = fst (f (find s k))"
    and wf_entry: "wf s \<Longrightarrow> wf (snd (entry k f s))"
    and entry_unchanged: "wf s \<Longrightarrow> snd (f (find s k)) = find s k \<Longrightarrow> snd (entry k f s) = s"
begin

lemma entry_frame: "wf s \<Longrightarrow> j \<noteq> k \<Longrightarrow> find (snd (entry k f s)) j = find s j"
  by (simp add: find_entry)

lemma entry_here: "wf s \<Longrightarrow> find (snd (entry k f s)) k = snd (f (find s k))"
  by (simp add: find_entry)

lemma all_values_entry:
  assumes "wf s" "\<And>j v. find s j = Some v \<Longrightarrow> P v"
    "(\<And>v. find s k = Some v \<Longrightarrow> P v) \<Longrightarrow> (\<And>v. snd (f (find s k)) = Some v \<Longrightarrow> P v)"
  shows "find (snd (entry k f s)) j = Some v \<Longrightarrow> P v"
  using assms by (simp add: find_entry split: if_splits)

lemma entry_twice:
  assumes "wf s"
  shows "find (snd (entry k g (snd (entry k f s)))) = (find s)(k := snd (g (snd (f (find s k)))))"
  using find_entry [OF wf_entry [OF assms]] by (simp add: find_entry [OF assms])

lemma entries_commute:
  assumes "wf s" "j \<noteq> k"
  shows "find (snd (entry k g (snd (entry j f s)))) = find (snd (entry j f (snd (entry k g s))))"
  using assms by (simp add: find_entry wf_entry fun_upd_twist)

end

lemma lookup_with_entry:
  assumes "sharded h s"
  shows "lookup h (snd (with_entry h k f s)) = (lookup h s)(k := snd (f (lookup h s k)))"
proof
  fix j
  have i: "shard_index h k < length (shards s)" using assms by (simp add: sharded_length)
  show "lookup h (snd (with_entry h k f s)) j = ((lookup h s)(k := snd (f (lookup h s k)))) j"
    using i by (cases "shard_index h j = shard_index h k")
      (auto simp: with_entry_def lookup_def shard_def Let_def split_beta map_of_write_back)
qed

lemma sharded_with_entry:
  assumes "sharded h s"
  shows "sharded h (snd (with_entry h k f s))"
proof -
  define e where "e = snd (f (lookup h s k))"
  define g where "g = shard h k s"
  have s': "shards (snd (with_entry h k f s)) = (shards s)[shard_index h k := write_back k e g]"
    by (simp add: with_entry_def lookup_def Let_def split_beta e_def g_def)
  have g: "distinct (map fst g)" "\<forall>j \<in> fst ` set g. shard_index h j = shard_index h k"
    using assms shard_index_less [of h k] by (auto simp: sharded_def g_def shard_def)
  have "distinct (map fst (write_back k e g))" using g(1) by (rule distinct_write_back)
  moreover have "\<forall>j \<in> fst ` set (write_back k e g). shard_index h j = shard_index h k"
    using g(2) keys_write_back [of k e g] by blast
  ultimately show ?thesis
    using assms unfolding sharded_def s' by (simp add: nth_list_update)
qed

interpretation sharded_store: keyed_store "lookup h" "with_entry h" "sharded h" for h
proof unfold_locales
  fix s k and f :: "CacheValue option \<Rightarrow> 'r \<times> CacheValue option"
  show "fst (with_entry h k f s) = fst (f (lookup h s k))" by (rule with_entry_result)
  assume s: "sharded h s"
  show "lookup h (snd (with_entry h k f s)) = (lookup h s)(k := snd (f (lookup h s k)))"
    by (rule lookup_with_entry [OF s])
  show "sharded h (snd (with_entry h k f s))" by (rule sharded_with_entry [OF s])
  assume u: "snd (f (lookup h s k)) = lookup h s k"
  show "snd (with_entry h k f s) = s" by (rule with_entry_unchanged [of f, OF u])
qed

subsection \<open>The invariant of a storage\<close>

text \<open>
  \<open>storage_inv_intros\<close> collects, over the storage theories, that each operation keeps the
  invariant.
\<close>

named_theorems storage_inv_intros

definition storage_inv :: "hasher \<Rightarrow> storage \<Rightarrow> bool" where
  "storage_inv h s \<longleftrightarrow> sharded h s \<and> (\<forall>k v. lookup h s k = Some v \<longrightarrow> value_inv v)"

definition entry_ok :: "CacheValue option \<Rightarrow> bool" where
  "entry_ok e = (case e of None \<Rightarrow> True | Some v \<Rightarrow> value_inv v)"

lemma entry_ok_simps [simp]: "entry_ok None" "entry_ok (Some v) \<longleftrightarrow> value_inv v"
  by (simp_all add: entry_ok_def)

lemma storage_inv_new [simp]: "storage_inv h storage_new"
  by (simp add: storage_inv_def)

lemma storage_inv_sharded: "storage_inv h s \<Longrightarrow> sharded h s"
  by (simp add: storage_inv_def)

lemma storage_inv_entry: "storage_inv h s \<Longrightarrow> entry_ok (lookup h s k)"
  by (cases "lookup h s k") (auto simp: storage_inv_def)

lemma storage_inv_with_this_entry:
  assumes "storage_inv h s" "entry_ok (lookup h s k) \<Longrightarrow> entry_ok (snd (f (lookup h s k)))"
  shows "storage_inv h (snd (with_entry h k f s))"
proof -
  have s: "sharded h s" using assms(1) by (rule storage_inv_sharded)
  have "entry_ok (snd (f (lookup h s k)))"
    using assms(2) storage_inv_entry [OF assms(1)] by blast
  then show ?thesis
    using assms(1) sharded_store.wf_entry [OF s, of k f]
    by (auto simp: storage_inv_def sharded_store.find_entry [OF s])
qed

lemma storage_inv_with_entry:
  "storage_inv h s \<Longrightarrow> (\<And>e. entry_ok e \<Longrightarrow> entry_ok (snd (f e))) \<Longrightarrow>
     storage_inv h (snd (with_entry h k f s))"
  by (rule storage_inv_with_this_entry) simp_all

lemma lookup_in_shard:
  assumes "sharded h s"
  shows "lookup h s k = Some v \<longleftrightarrow> (\<exists>i < SHARD_COUNT. (k, v) \<in> set (shards s ! i))"
proof
  assume "lookup h s k = Some v"
  then show "\<exists>i < SHARD_COUNT. (k, v) \<in> set (shards s ! i)"
    by (auto simp: lookup_def shard_def intro!: exI [of _ "shard_index h k"] dest: map_of_SomeD)
next
  assume "\<exists>i < SHARD_COUNT. (k, v) \<in> set (shards s ! i)"
  then obtain i where i: "i < SHARD_COUNT" "(k, v) \<in> set (shards s ! i)" by blast
  then have "shard_index h k = i" "distinct (map fst (shards s ! i))"
    using assms by (force simp: sharded_def)+
  with i show "lookup h s k = Some v" by (simp add: lookup_def shard_def map_of_is_SomeI)
qed

end
