(* ===== verification/Storage_Keys.thy ===== *)
theory Storage_Keys
  imports Sharded_Map
begin

text \<open>
  \<open>CacheStorage\<close> (storage.rs), part one: the string operations, the operations on whole keys
  and on the whole database, and the TTL operations. Each takes the hash function, the
  environment where it reads the clock or iterates a table, its arguments and the storage;
  an operation that writes returns its result and the new storage. \<open>Inl\<close> is the error text
  of a \<open>Result\<close>, \<open>None\<close> the \<open>None\<close> of an \<open>Option\<close>.
\<close>

definition WRONGTYPE :: bytes where
  "WRONGTYPE = ''WRONGTYPE Operation against a key holding the wrong kind of value''"

subsection \<open>Strings\<close>

definition cs_get :: "hasher \<Rightarrow> env \<Rightarrow> bytes \<Rightarrow> storage \<Rightarrow> bytes option" where
  "cs_get h E key = read_entry h key (\<lambda>e. case e of
     None \<Rightarrow> None
   | Some v \<Rightarrow>
       if value_is_expired (now E) v then None
       else (case v of String_v value _ \<Rightarrow> Some value | _ \<Rightarrow> None))"

definition cs_set :: "hasher \<Rightarrow> env \<Rightarrow> bytes \<Rightarrow> bytes \<Rightarrow> nat option \<Rightarrow> storage \<Rightarrow> bool \<times> storage" where
  "cs_set h E key value ttl = with_entry h key (\<lambda>_.
     (True, Some (String_v value (map_option (\<lambda>d. now E + d) ttl))))"

definition cs_delete :: "hasher \<Rightarrow> bytes \<Rightarrow> storage \<Rightarrow> bool \<times> storage" where
  "cs_delete h key = with_entry h key (\<lambda>e. (e \<noteq> None, None))"

definition cs_incr :: "hasher \<Rightarrow> bytes \<Rightarrow> storage \<Rightarrow> int result \<times> storage" where
  "cs_incr h key = with_entry h key (\<lambda>e. case e of
     Some (String_v bs x) \<Rightarrow>
       (case parse_i64 (utf8_lossy bs) of
          None \<Rightarrow> (Inl ''Value is not an integer'', e)
        | Some current \<Rightarrow>
            let new_value = wrap_i64 (current + 1)
            in (Inr new_value, Some (String_v (int_to_string new_value) x)))
   | Some _ \<Rightarrow> (Inl WRONGTYPE, e)
   | None \<Rightarrow> (Inr 1, Some (String_v ''1'' None)))"

definition cs_decr :: "hasher \<Rightarrow> bytes \<Rightarrow> storage \<Rightarrow> int result \<times> storage" where
  "cs_decr h key = with_entry h key (\<lambda>e. case e of
     Some (String_v bs x) \<Rightarrow>
       (case parse_i64 (utf8_lossy bs) of
          None \<Rightarrow> (Inl ''Value is not an integer'', e)
        | Some current \<Rightarrow>
            let new_value = wrap_i64 (current - 1)
            in (Inr new_value, Some (String_v (int_to_string new_value) x)))
   | Some _ \<Rightarrow> (Inl WRONGTYPE, e)
   | None \<Rightarrow> (Inr (- 1), Some (String_v ''-1'' None)))"

definition cs_append :: "hasher \<Rightarrow> bytes \<Rightarrow> bytes \<Rightarrow> storage \<Rightarrow> nat result \<times> storage" where
  "cs_append h key value = with_entry h key (\<lambda>e. case e of
     Some (String_v existing x) \<Rightarrow>
       (let combined = existing @ value
        in (Inr (length combined), Some (String_v combined x)))
   | Some _ \<Rightarrow> (Inl WRONGTYPE, e)
   | None \<Rightarrow> (Inr (length value), Some (String_v value None)))"

definition cs_strlen :: "hasher \<Rightarrow> bytes \<Rightarrow> storage \<Rightarrow> nat result" where
  "cs_strlen h key = read_entry h key (\<lambda>e. case e of
     Some (String_v bs _) \<Rightarrow> Inr (length bs)
   | Some _ \<Rightarrow> Inl WRONGTYPE
   | None \<Rightarrow> Inr 0)"

definition cs_set_nx :: "hasher \<Rightarrow> env \<Rightarrow> bytes \<Rightarrow> bytes \<Rightarrow> storage \<Rightarrow> bool \<times> storage" where
  "cs_set_nx h E key value = with_entry h key (\<lambda>e.
     if (case e of Some v \<Rightarrow> \<not> value_is_expired (now E) v | None \<Rightarrow> False) then (False, e)
     else (True, Some (String_v value None)))"

definition cs_set_ex :: "hasher \<Rightarrow> env \<Rightarrow> bytes \<Rightarrow> bytes \<Rightarrow> nat \<Rightarrow> storage \<Rightarrow> unit \<times> storage" where
  "cs_set_ex h E key value ttl = with_entry h key (\<lambda>_.
     ((), Some (String_v value (Some (now E + ttl)))))"

definition cs_get_set :: "hasher \<Rightarrow> env \<Rightarrow> bytes \<Rightarrow> bytes \<Rightarrow> storage \<Rightarrow> bytes option result \<times> storage" where
  "cs_get_set h E key value = with_entry h key (\<lambda>e. case e of
     Some (String_v b _) \<Rightarrow> (Inr (Some b), Some (String_v value None))
   | Some v \<Rightarrow>
       if \<not> value_is_expired (now E) v then (Inl WRONGTYPE, e)
       else (Inr None, Some (String_v value None))
   | None \<Rightarrow> (Inr None, Some (String_v value None)))"

definition cs_incr_by :: "hasher \<Rightarrow> bytes \<Rightarrow> int \<Rightarrow> storage \<Rightarrow> int result \<times> storage" where
  "cs_incr_by h key delta = with_entry h key (\<lambda>e. case e of
     Some (String_v bs x) \<Rightarrow>
       (case parse_i64 (utf8_lossy bs) of
          None \<Rightarrow> (Inl ''Value is not an integer'', e)
        | Some current \<Rightarrow>
            (case checked_add_i64 current delta of
               None \<Rightarrow> (Inl ''ERR increment or decrement would overflow'', e)
             | Some new_value \<Rightarrow> (Inr new_value, Some (String_v (int_to_string new_value) x))))
   | Some _ \<Rightarrow> (Inl WRONGTYPE, e)
   | None \<Rightarrow> (Inr delta, Some (String_v (int_to_string delta) None)))"

definition cs_incr_by_float :: "hasher \<Rightarrow> env \<Rightarrow> bytes \<Rightarrow> f64 \<Rightarrow> storage \<Rightarrow> f64 result \<times> storage" where
  "cs_incr_by_float h E key delta = with_entry h key (\<lambda>e. case e of
     Some (String_v bs x) \<Rightarrow>
       (case f64_parse E (utf8_lossy bs) of
          None \<Rightarrow> (Inl ''Value is not a valid float'', e)
        | Some current \<Rightarrow>
            let new_value = f64_add E current delta
            in if \<not> f64_is_finite new_value
               then (Inl ''ERR increment would produce NaN or Infinity'', e)
               else (Inr new_value, Some (String_v (f64_to_string E new_value) x)))
   | Some _ \<Rightarrow> (Inl WRONGTYPE, e)
   | None \<Rightarrow> (Inr delta, Some (String_v (f64_to_string E delta) None)))"

definition slice_string :: "int \<Rightarrow> int \<Rightarrow> bytes \<Rightarrow> bytes" where
  "slice_string start end bs =
     (let len = int (length bs) in
      if len = 0 then []
      else
        (let s = as_usize (if start < 0 then max (wrap_i64 (len + start)) 0 else min start len);
             e = as_usize (if end < 0 then max (wrap_i64 (len + end)) 0 else min end (len - 1))
         in if s > e then []
            else drop s (take (Suc (min e (length bs - 1))) bs)))"

definition cs_get_range :: "hasher \<Rightarrow> bytes \<Rightarrow> int \<Rightarrow> int \<Rightarrow> storage \<Rightarrow> bytes option" where
  "cs_get_range h key start end = read_entry h key (\<lambda>e. case e of
     None \<Rightarrow> None
   | Some (String_v b _) \<Rightarrow> Some (slice_string start end b)
   | Some _ \<Rightarrow> None)"

subsection \<open>Time to live\<close>

definition cs_set_expiry :: "hasher \<Rightarrow> env \<Rightarrow> bytes \<Rightarrow> instant \<Rightarrow> storage \<Rightarrow> bool \<times> storage" where
  "cs_set_expiry h E key expires_at = with_entry h key (\<lambda>e. case e of
     Some v \<Rightarrow>
       if \<not> value_is_expired (now E) v then (True, Some (expires_at_mut (Some expires_at) v))
       else (False, e)
   | None \<Rightarrow> (False, e))"

definition cs_pttl_millis :: "hasher \<Rightarrow> env \<Rightarrow> bytes \<Rightarrow> storage \<Rightarrow> int option" where
  "cs_pttl_millis h E key = read_entry h key (\<lambda>e. case e of
     None \<Rightarrow> None
   | Some v \<Rightarrow>
       if value_is_expired (now E) v then None
       else (case expires_at_ref v of
               None \<Rightarrow> Some (- 1)
             | Some at \<Rightarrow>
                 if at \<le> now E then Some 0
                 else Some (wrap_i64 (int ((at - now E) div 1000000)))))"

definition cs_persist :: "hasher \<Rightarrow> env \<Rightarrow> bytes \<Rightarrow> storage \<Rightarrow> bool \<times> storage" where
  "cs_persist h E key = with_entry h key (\<lambda>e. case e of
     Some v \<Rightarrow>
       if \<not> value_is_expired (now E) v then
         (if expires_at_ref v \<noteq> None then (True, Some (expires_at_mut None v)) else (False, e))
       else (False, e)
   | None \<Rightarrow> (False, e))"

subsection \<open>Keys and the whole database\<close>

definition cs_exists :: "hasher \<Rightarrow> env \<Rightarrow> bytes list \<Rightarrow> storage \<Rightarrow> nat" where
  "cs_exists h E keys s = length (filter (\<lambda>key. read_entry h key (\<lambda>e. case e of
     Some v \<Rightarrow> \<not> value_is_expired (now E) v | None \<Rightarrow> False) s) keys)"

fun contains_sub :: "bytes \<Rightarrow> bytes \<Rightarrow> bool" where
  "contains_sub p [] = (p = [])"
| "contains_sub p (x # xs) = (take (length p) (x # xs) = p \<or> contains_sub p xs)"

definition matches_pattern_static :: "bytes \<Rightarrow> bytes \<Rightarrow> bool" where
  "matches_pattern_static key pattern =
     (if pattern = ''*'' then True
      else contains_sub (filter (\<lambda>c. c \<noteq> CHR ''*'') pattern) key)"

definition cs_keys :: "env \<Rightarrow> bytes \<Rightarrow> storage \<Rightarrow> bytes list" where
  "cs_keys E pattern s = concat (map (\<lambda>g.
     map fst (filter (\<lambda>(k, v). \<not> value_is_expired (now E) v \<and>
                        (pattern = ''*'' \<or> matches_pattern_static (utf8_lossy k) pattern))
                (table_iter (hash_order E) g))) (shards s))"

definition cs_flushall :: "storage \<Rightarrow> storage" where
  "cs_flushall s = s\<lparr>shards := map (\<lambda>_. []) (shards s)\<rparr>"

definition cs_dbsize :: "env \<Rightarrow> storage \<Rightarrow> nat" where
  "cs_dbsize E s = sum_list (map (\<lambda>g.
     length (filter (\<lambda>(k, v). \<not> value_is_expired (now E) v) g)) (shards s))"

definition cs_cleanup_expired :: "env \<Rightarrow> storage \<Rightarrow> storage" where
  "cs_cleanup_expired E s =
     s\<lparr>shards := map (filter (\<lambda>(k, v). \<not> value_is_expired (now E) v)) (shards s)\<rparr>"

definition cs_get_all_entries :: "env \<Rightarrow> storage \<Rightarrow> CacheValue table" where
  "cs_get_all_entries E s = concat (map (table_iter (hash_order E)) (shards s))"

definition cs_type_of :: "hasher \<Rightarrow> env \<Rightarrow> bytes \<Rightarrow> storage \<Rightarrow> bytes" where
  "cs_type_of h E key = read_entry h key (\<lambda>e. case e of
     None \<Rightarrow> ''none''
   | Some v \<Rightarrow>
       if value_is_expired (now E) v then ''none''
       else (case v of
               String_v _ _ \<Rightarrow> ''string'' | Hash_v _ \<Rightarrow> ''hash'' | List_v _ \<Rightarrow> ''list''
             | Set_v _ \<Rightarrow> ''set'' | SortedSet_v _ \<Rightarrow> ''zset'' | Stream_v _ \<Rightarrow> ''stream''))"

definition cs_rename :: "hasher \<Rightarrow> env \<Rightarrow> bytes \<Rightarrow> bytes \<Rightarrow> storage \<Rightarrow> unit result \<times> storage" where
  "cs_rename h E key new_key s =
     (case with_entry h key (\<lambda>e. (e, None)) s of
        (removed, s1) \<Rightarrow>
          (case removed of
             Some v \<Rightarrow>
               if \<not> value_is_expired (now E) v
               then with_entry h new_key (\<lambda>_. (Inr (), Some v)) s1
               else (Inl ''ERR no such key'', s1)
           | None \<Rightarrow> (Inl ''ERR no such key'', s1)))"

fun random_key_loop :: "env \<Rightarrow> storage \<Rightarrow> nat list \<Rightarrow> bytes option" where
  "random_key_loop E s [] = None"
| "random_key_loop E s (i # is) =
     (let live = map fst (filter (\<lambda>(k, v). \<not> value_is_expired (now E) v)
                            (table_iter (hash_order E) (shards s ! i)))
      in case choose_nth E i live of
           Some k \<Rightarrow> Some k
         | None \<Rightarrow> random_key_loop E s is)"

definition cs_random_key :: "env \<Rightarrow> storage \<Rightarrow> bytes option" where
  "cs_random_key E s = random_key_loop E s (shuffle E [0..<length (shards s)])"

subsection \<open>The invariant\<close>

lemma cs_set_inv [storage_inv_intros]: "storage_inv h s \<Longrightarrow> storage_inv h (snd (cs_set h E k v t s))"
  unfolding cs_set_def by (rule storage_inv_with_entry) simp_all

lemma cs_delete_inv [storage_inv_intros]: "storage_inv h s \<Longrightarrow> storage_inv h (snd (cs_delete h k s))"
  unfolding cs_delete_def by (rule storage_inv_with_entry) simp_all

lemma cs_incr_inv [storage_inv_intros]: "storage_inv h s \<Longrightarrow> storage_inv h (snd (cs_incr h k s))"
  unfolding cs_incr_def
  by (rule storage_inv_with_entry) (auto simp: Let_def split: option.splits CacheValue.splits)

lemma cs_decr_inv [storage_inv_intros]: "storage_inv h s \<Longrightarrow> storage_inv h (snd (cs_decr h k s))"
  unfolding cs_decr_def
  by (rule storage_inv_with_entry) (auto simp: Let_def split: option.splits CacheValue.splits)

lemma cs_append_inv [storage_inv_intros]: "storage_inv h s \<Longrightarrow> storage_inv h (snd (cs_append h k v s))"
  unfolding cs_append_def
  by (rule storage_inv_with_entry) (auto simp: Let_def split: option.splits CacheValue.splits)

lemma cs_set_nx_inv [storage_inv_intros]: "storage_inv h s \<Longrightarrow> storage_inv h (snd (cs_set_nx h E k v s))"
  unfolding cs_set_nx_def by (rule storage_inv_with_entry) simp_all

lemma cs_set_ex_inv [storage_inv_intros]: "storage_inv h s \<Longrightarrow> storage_inv h (snd (cs_set_ex h E k v t s))"
  unfolding cs_set_ex_def by (rule storage_inv_with_entry) simp_all

lemma cs_get_set_inv [storage_inv_intros]: "storage_inv h s \<Longrightarrow> storage_inv h (snd (cs_get_set h E k v s))"
  unfolding cs_get_set_def
  by (rule storage_inv_with_entry) (auto split: option.splits CacheValue.splits)

lemma cs_incr_by_inv [storage_inv_intros]: "storage_inv h s \<Longrightarrow> storage_inv h (snd (cs_incr_by h k d s))"
  unfolding cs_incr_by_def
  by (rule storage_inv_with_entry) (auto split: option.splits CacheValue.splits)

lemma cs_incr_by_float_inv [storage_inv_intros]:
  "storage_inv h s \<Longrightarrow> storage_inv h (snd (cs_incr_by_float h E k d s))"
  unfolding cs_incr_by_float_def
  by (rule storage_inv_with_entry) (auto simp: Let_def split: option.splits CacheValue.splits)

lemma cs_set_expiry_inv [storage_inv_intros]:
  "storage_inv h s \<Longrightarrow> storage_inv h (snd (cs_set_expiry h E k at s))"
  unfolding cs_set_expiry_def
  by (rule storage_inv_with_entry) (auto simp: cache_expiry.inv_put split: option.splits)

lemma cs_persist_inv [storage_inv_intros]: "storage_inv h s \<Longrightarrow> storage_inv h (snd (cs_persist h E k s))"
  unfolding cs_persist_def
  by (rule storage_inv_with_entry) (auto simp: cache_expiry.inv_put split: option.splits)

text \<open>Operations on every shard: the storage is rebuilt from a sub-table of each shard.\<close>

lemma sub_tables:
  assumes "sharded h s" "length gs = length (shards s)"
    "\<And>i. i < length gs \<Longrightarrow> distinct (map fst (gs ! i)) \<and> set (gs ! i) \<subseteq> set (shards s ! i)"
  shows "sharded h (s\<lparr>shards := gs\<rparr>)"
    "lookup h (s\<lparr>shards := gs\<rparr>) k = Some v \<Longrightarrow> lookup h s k = Some v"
proof -
  have n: "length gs = SHARD_COUNT" using assms by (simp add: sharded_length)
  have "shard_index h j = i" if "i < SHARD_COUNT" "j \<in> fst ` set (gs ! i)" for i j
    using assms(1,3) that n by (force simp: sharded_def)
  then show s': "sharded h (s\<lparr>shards := gs\<rparr>)"
    using assms(3) n by (simp add: sharded_def)
  show "lookup h s k = Some v" if "lookup h (s\<lparr>shards := gs\<rparr>) k = Some v"
    using that assms(3) n unfolding lookup_in_shard [OF s'] lookup_in_shard [OF assms(1)] by auto
qed

lemma storage_inv_sub_tables:
  assumes "storage_inv h s" "length gs = length (shards s)"
    "\<And>i. i < length gs \<Longrightarrow> distinct (map fst (gs ! i)) \<and> set (gs ! i) \<subseteq> set (shards s ! i)"
  shows "storage_inv h (s\<lparr>shards := gs\<rparr>)"
  using sub_tables [OF storage_inv_sharded [OF assms(1)] assms(2,3)] assms(1)
  by (auto simp: storage_inv_def)

lemma cs_flushall_inv [storage_inv_intros]: "storage_inv h s \<Longrightarrow> storage_inv h (cs_flushall s)"
  unfolding cs_flushall_def by (rule storage_inv_sub_tables) simp_all

lemma distinct_shard: "sharded h s \<Longrightarrow> i < length (shards s) \<Longrightarrow> distinct (map fst (shards s ! i))"
  by (simp add: sharded_def)

lemma cs_cleanup_expired_inv [storage_inv_intros]:
  "storage_inv h s \<Longrightarrow> storage_inv h (cs_cleanup_expired E s)"
  unfolding cs_cleanup_expired_def
  by (rule storage_inv_sub_tables)
    (auto simp: distinct_map_filter distinct_shard [OF storage_inv_sharded])

lemma cs_rename_inv [storage_inv_intros]:
  assumes s: "storage_inv h s"
  shows "storage_inv h (snd (cs_rename h E k k' s))"
proof -
  define r s1 where "r = fst (with_entry h k (\<lambda>e. (e, None)) s)"
    and "s1 = snd (with_entry h k (\<lambda>e. (e, None)) s)"
  have s1: "storage_inv h s1"
    unfolding s1_def by (rule storage_inv_with_entry [OF s]) simp
  have r: "entry_ok r"
    by (simp add: r_def sharded_store.entry_result storage_inv_entry [OF s])
  have "storage_inv h (snd (with_entry h k' (\<lambda>_. (Inr (), Some v)) s1))" if "r = Some v" for v
    using that r by (intro storage_inv_with_entry [OF s1]) simp
  with s1 show ?thesis
    by (auto simp: cs_rename_def split_beta simp flip: r_def s1_def split: option.split)
qed

subsection \<open>Reading the result of an operation\<close>

definition live :: "hasher \<Rightarrow> env \<Rightarrow> storage \<Rightarrow> bytes \<Rightarrow> bool" where
  "live h E s k \<longleftrightarrow> (\<exists>v. lookup h s k = Some v \<and> \<not> value_is_expired (now E) v)"

lemma lookup_after [simp]:
  "sharded h s \<Longrightarrow> lookup h (snd (with_entry h k f s)) k = snd (f (lookup h s k))"
  by (rule sharded_store.entry_here)

lemma result_of_entry [simp]: "fst (with_entry h k f s) = fst (f (lookup h s k))"
  by (rule sharded_store.entry_result)

lemma in_some_shard:
  assumes "sharded h s"
  shows "lookup h s k = Some v \<longleftrightarrow> (\<exists>g \<in> set (shards s). (k, v) \<in> set g)"
  unfolding lookup_in_shard [OF assms] using sharded_length [OF assms]
  by (metis in_set_conv_nth)

lemma distinct_concat_shards:
  assumes "sharded h s" "\<And>g. distinct (map fst g) \<Longrightarrow> distinct (f g) \<and> set (f g) \<subseteq> fst ` set g"
  shows "distinct (concat (map f (shards s)))"
proof (rule distinct_concat_indexed [where idx = "shard_index h" and b = 0], intro allI impI)
  fix i
  assume "i < length (map f (shards s))"
  then have i: "i < length (shards s)" by simp
  have "distinct (f (shards s ! i)) \<and> set (f (shards s ! i)) \<subseteq> fst ` set (shards s ! i)"
    using assms(2) distinct_shard [OF assms(1) i] by blast
  moreover have "\<forall>k \<in> fst ` set (shards s ! i). shard_index h k = i"
    using assms(1) i by (simp add: sharded_def)
  ultimately show "distinct (map f (shards s) ! i) \<and> (\<forall>k \<in> set (map f (shards s) ! i). shard_index h k = 0 + i)"
    using i by auto
qed

end
