(* ===== verification/Keys_Properties.thy ===== *)
theory Keys_Properties
  imports Storage_Keys
begin

text \<open>
  What the string, key and TTL operations of the storage do, stated over \<open>lookup\<close>: the storage
  seen as one map from keys to values.
\<close>

definition one_string :: "bytes \<Rightarrow> bytes \<Rightarrow> storage" where
  "one_string k v = snd (cs_set (\<lambda>_. 5) sample_env k v None storage_new)"

lemma one_string_facts:
  "sharded (\<lambda>_. 5) (one_string k v)" "lookup (\<lambda>_. 5) (one_string k v) k = Some (String_v v None)"
  by (simp_all add: one_string_def cs_set_def sharded_store.wf_entry)

text \<open>
  SET then GET: a GET at any later time returns the value until the deadline has
  passed and nothing after it; without a TTL it always returns the value.
\<close>

theorem set_then_get:
  assumes "sharded h s"
  shows "cs_get h E' key (snd (cs_set h E key value ttl s)) =
    (if past (now E') (map_option (\<lambda>d. now E + d) ttl) then None else Some value)"
  using assms by (cases ttl) (simp_all add: cs_get_def cs_set_def read_entry_lookup)

theorem set_then_get_witness:
  "cs_get (\<lambda>_. 5) (sample_env\<lparr>now := 2001\<rparr>) ''k'' (snd (cs_set (\<lambda>_. 5) sample_env ''k'' ''v'' (Some 1000) storage_new)) = None"
  using set_then_get [OF sharded_new, of "\<lambda>_. 5" "sample_env\<lparr>now := 2001\<rparr>" "''k''" sample_env "''v''" "Some 1000"]
  by (simp add: sample_env_def)



text \<open>
  INCR on a stored integer adds one with the wrap-around of the release build: at the
  largest 64-bit value the counter becomes the smallest one, where INCRBY 1 is an error.
\<close>

theorem incr_wraps:
  assumes "sharded h s" "lookup h s key = Some (String_v bs x)" "parse_i64 (utf8_lossy bs) = Some n"
  shows "let m = (if n = 2 ^ 63 - 1 then - (2 ^ 63) else n + 1) in
    fst (cs_incr h key s) = Inr m \<and>
    lookup h (snd (cs_incr h key s)) = (lookup h s)(key \<mapsto> String_v (int_to_string m) x)"
proof -
  have n: "in_i64 n" using assms(3) by (rule parse_i64_in_i64)
  have "wrap_i64 (n + 1) = (if n = 2 ^ 63 - 1 then - (2 ^ 63) else n + 1)"
  proof (cases "n = 2 ^ 63 - 1")
    case True
    then show ?thesis by (simp add: wrap_i64_def)
  next
    case False
    then have "in_i64 (n + 1)" using n by (auto simp: in_i64_def)
    then show ?thesis using False by simp
  qed
  then show ?thesis
    unfolding Let_def using assms by (simp add: cs_incr_def Let_def sharded_store.find_entry)
qed

theorem incr_wraps_witness:
  "fst (cs_incr (\<lambda>_. 5) ''n'' (one_string ''n'' ''9223372036854775807'')) = Inr (- 9223372036854775808)"
proof -
  have "parse_i64 (utf8_lossy ''9223372036854775807'') = Some 9223372036854775807"
    by (simp add: utf8_head_def parse_i64_def parse_digits_def digit_value_def in_i64_def)
  from incr_wraps [OF one_string_facts this] show ?thesis by simp
qed

text \<open>
  The TTL life cycle of a live key: EXPIRE sets the deadline whatever the type of the
  value, PTTL then counts down to it and reports a missing key once it has passed, and a
  PERSIST before the deadline restores the value without one.
\<close>

theorem expire_persist_cycle:
  assumes "sharded h s" "lookup h s key = Some v" "\<not> value_is_expired (now E) v"
    "(at - now E') div 1000000 < 2 ^ 63"
  shows "fst (cs_set_expiry h E key at s) \<and>
    cs_pttl_millis h E' key (snd (cs_set_expiry h E key at s)) =
      (if at < now E' then None else Some (int ((at - now E') div 1000000))) \<and>
    (now E' \<le> at \<longrightarrow>
      lookup h (snd (cs_persist h E' key (snd (cs_set_expiry h E key at s)))) =
        (lookup h s)(key \<mapsto> expires_at_mut None v))"
proof -
  let ?s1 = "snd (cs_set_expiry h E key at s)"
  have s1: "sharded h ?s1" using assms(1) by (simp add: cs_set_expiry_def sharded_store.wf_entry)
  have l1: "lookup h ?s1 = (lookup h s)(key \<mapsto> expires_at_mut (Some at) v)"
    using assms(1-3) by (simp add: cs_set_expiry_def sharded_store.find_entry)
  have "in_i64 (int ((at - now E') div 1000000))" using assms(4) by (rule in_i64_int)
  then have "wrap_i64 (int ((at - now E') div 1000000)) = int ((at - now E') div 1000000)"
    by (rule wrap_i64_id)
  then have "cs_pttl_millis h E' key ?s1 =
      (if at < now E' then None else Some (int ((at - now E') div 1000000)))"
    by (simp add: cs_pttl_millis_def read_entry_lookup l1 cache_expiry.expires_after_deadline
        cache_expiry.slot_put)
  moreover have "lookup h (snd (cs_persist h E' key ?s1)) = (lookup h s)(key \<mapsto> expires_at_mut None v)"
    if "now E' \<le> at"
    using that s1 by (simp add: cs_persist_def sharded_store.find_entry l1
        cache_expiry.expires_after_deadline cache_expiry.slot_put cache_expiry.put_put)
  moreover have "fst (cs_set_expiry h E key at s)" using assms(2,3) by (simp add: cs_set_expiry_def)
  ultimately show ?thesis by blast
qed

theorem expire_persist_cycle_witness:
  "cs_pttl_millis (\<lambda>_. 5) sample_env ''k''
     (snd (cs_set_expiry (\<lambda>_. 5) sample_env ''k'' 7001000 (one_string ''k'' ''v''))) = Some 7"
proof -
  have "\<not> value_is_expired (now sample_env) (String_v ''v'' None)" by simp
  moreover have "(7001000 - now sample_env) div 1000000 < 2 ^ 63" by (simp add: sample_env_def)
  ultimately show ?thesis
    using expire_persist_cycle [OF one_string_facts [of "''k''" "''v''"], of sample_env 7001000 sample_env]
    by (simp add: sample_env_def)
qed

lemma lookup_filter:
  assumes "sharded h s"
  shows "lookup h (s\<lparr>shards := map (filter (\<lambda>(k, v). P v)) (shards s)\<rparr>) k =
    (case lookup h s k of None \<Rightarrow> None | Some v \<Rightarrow> if P v then Some v else None)"
proof -
  have i: "shard_index h k < length (shards s)" using assms by (simp add: sharded_length)
  have d: "distinct (map fst (shards s ! shard_index h k))" using assms i by (rule distinct_shard)
  have "map_of (filter (\<lambda>(k, v). P v) g) k =
      (case map_of g k of None \<Rightarrow> None | Some v \<Rightarrow> if P v then Some v else None)"
    if "distinct (map fst g)" for g :: "CacheValue table"
    using that by (induction g) (auto simp: map_of_eq_None_iff image_iff split: option.splits)
  from this [OF d] i show ?thesis by (simp add: lookup_def shard_def)
qed

text \<open>
  The background sweep removes exactly the expired keys: every key keeps the value it
  had if that value is live and disappears otherwise.
\<close>

theorem cleanup_keeps_live:
  assumes "sharded h s"
  shows "lookup h (cs_cleanup_expired E s) k =
    (case lookup h s k of
       None \<Rightarrow> None | Some v \<Rightarrow> if value_is_expired (now E) v then None else Some v)"
  using lookup_filter [OF assms, of "\<lambda>v. \<not> value_is_expired (now E) v" k]
  by (simp add: cs_cleanup_expired_def split: option.splits)

theorem cleanup_keeps_live_witness:
  "lookup (\<lambda>_. 5) (cs_cleanup_expired sample_env (one_string ''k'' ''v'')) ''k'' = Some (String_v ''v'' None)"
  using cleanup_keeps_live [OF one_string_facts(1), of sample_env "''k''" "''v''" "''k''"]
  by (simp add: one_string_facts)

definition selected :: "env \<Rightarrow> bytes \<Rightarrow> bytes \<times> CacheValue \<Rightarrow> bool" where
  "selected E pattern = (\<lambda>(k, v). \<not> value_is_expired (now E) v \<and>
     (pattern = ''*'' \<or> matches_pattern_static (utf8_lossy k) pattern))"

lemma filtered_iter:
  assumes "is_order ord" "distinct (map fst g)"
  shows "distinct (map fst (filter P (table_iter ord g)))"
    "set (map fst (filter P (table_iter ord g))) = fst ` {e \<in> set g. P e}"
  using assms set_table_iter [OF assms] distinct_order [OF assms(1), of "map fst g"]
  by (simp_all add: distinct_map_filter)

text \<open>
  KEYS lists every live key whose name matches the pattern exactly once, whatever the
  iteration order of the tables.
\<close>

theorem keys_lists_live_matches:
  assumes "sharded h s" "is_order (hash_order E)"
  shows "distinct (cs_keys E pattern s) \<and>
    set (cs_keys E pattern s) =
      {k. live h E s k \<and> (pattern = ''*'' \<or> matches_pattern_static (utf8_lossy k) pattern)}"
proof
  have eq: "cs_keys E pattern s =
      concat (map (\<lambda>g. map fst (filter (selected E pattern) (table_iter (hash_order E) g))) (shards s))"
    by (simp add: cs_keys_def selected_def)
  show "distinct (cs_keys E pattern s)"
    unfolding eq using assms(1)
    by (rule distinct_concat_shards)
      (simp add: filtered_iter(1) [OF assms(2)] filtered_iter(2) [OF assms(2)] image_mono del: set_map)
  have "set (cs_keys E pattern s) = (\<Union>g \<in> set (shards s). fst ` {e \<in> set g. selected E pattern e})"
  proof -
    have "distinct (map fst g)" if "g \<in> set (shards s)" for g
      using that assms(1) by (metis distinct_shard in_set_conv_nth)
    then have "set (map fst (filter (selected E pattern) (table_iter (hash_order E) g))) =
        fst ` {e \<in> set g. selected E pattern e}" if "g \<in> set (shards s)" for g
      using filtered_iter(2) [OF assms(2)] that by blast
    then show ?thesis unfolding eq set_concat set_map [of "\<lambda>g. map fst (filter _ (table_iter _ g))"]
      image_image by (intro SUP_cong refl)
  qed
  also have "\<dots> = {k. \<exists>v. lookup h s k = Some v \<and> selected E pattern (k, v)}"
    unfolding in_some_shard [OF assms(1)] by force
  also have "\<dots> = {k. live h E s k \<and> (pattern = ''*'' \<or> matches_pattern_static (utf8_lossy k) pattern)}"
    by (auto simp: selected_def live_def)
  finally show "set (cs_keys E pattern s) =
      {k. live h E s k \<and> (pattern = ''*'' \<or> matches_pattern_static (utf8_lossy k) pattern)}" .
qed

theorem keys_lists_live_matches_witness:
  "set (cs_keys sample_env ''u*'' (one_string ''user:1'' ''v'')) =
     {k. live (\<lambda>_. 5) sample_env (one_string ''user:1'' ''v'') k \<and>
         (''u*'' = ''*'' \<or> matches_pattern_static (utf8_lossy k) ''u*'')}"
proof -
  have "is_order (hash_order sample_env)" by (simp add: sample_env_def)
  from keys_lists_live_matches [OF one_string_facts(1) this] show ?thesis by blast
qed

text \<open>
  DBSIZE is the number of live keys.
\<close>

theorem dbsize_counts_live:
  assumes "sharded h s"
  shows "cs_dbsize E s = card {k. live h E s k}"
proof -
  define f where "f = (\<lambda>g :: CacheValue table. map fst (filter (selected E ''*'') g))"
  have f: "f g = map fst (filter (\<lambda>(k, v). \<not> value_is_expired (now E) v) g)" for g
    by (simp add: f_def selected_def)
  have "distinct (concat (map f (shards s)))"
    using assms by (rule distinct_concat_shards) (auto simp: f_def distinct_map_filter)
  then have "length (concat (map f (shards s))) = card (set (concat (map f (shards s))))"
    by (simp only: distinct_card)
  moreover have "length (concat (map f (shards s))) = cs_dbsize E s"
    by (simp add: cs_dbsize_def length_concat f comp_def)
  moreover have "set (concat (map f (shards s))) = {k. live h E s k}"
    unfolding live_def in_some_shard [OF assms] by (force simp: f)
  ultimately show ?thesis by simp
qed

theorem dbsize_counts_live_witness:
  "cs_dbsize sample_env (one_string ''k'' ''v'') = 1"
proof -
  have "{k. live (\<lambda>_. 5) sample_env (one_string ''k'' ''v'') k} = {''k''}"
    by (auto simp: live_def one_string_def cs_set_def sharded_store.find_entry split: if_splits)
  then show ?thesis using dbsize_counts_live [OF one_string_facts(1), of sample_env "''k''" "''v''"] by simp
qed

text \<open>
  RENAME of a live key moves its value, with its deadline, to the new name and replaces
  what the new name held; RENAME of an expired or missing key is an error.
\<close>

theorem rename_moves:
  assumes "sharded h s"
  shows "if live h E s key
    then fst (cs_rename h E key new_key s) = Inr () \<and>
      lookup h (snd (cs_rename h E key new_key s)) =
        (lookup h s)(key := None, new_key := lookup h s key)
    else fst (cs_rename h E key new_key s) = Inl ''ERR no such key'' \<and>
      lookup h (snd (cs_rename h E key new_key s)) = (lookup h s)(key := None)"
proof -
  let ?s1 = "snd (with_entry h key (\<lambda>e. (e, None :: CacheValue option)) s)"
  have s1: "sharded h ?s1" using assms by (rule sharded_store.wf_entry)
  have l1: "lookup h ?s1 = (lookup h s)(key := None)"
    using assms by (simp add: sharded_store.find_entry)
  show ?thesis
    by (cases "lookup h s key")
      (auto simp: cs_rename_def split_beta live_def l1 sharded_store.find_entry [OF s1])
qed

theorem rename_moves_witness:
  "lookup (\<lambda>_. 5) (snd (cs_rename (\<lambda>_. 5) sample_env ''a'' ''b'' (one_string ''a'' ''v''))) ''b'' =
     Some (String_v ''v'' None)"
proof -
  have "live (\<lambda>_. 5) sample_env (one_string ''a'' ''v'') ''a''"
    by (simp add: live_def one_string_facts)
  then show ?thesis
    using rename_moves [OF one_string_facts(1), of sample_env "''a''" "''v''" "''a''" "''b''"]
    by (simp add: one_string_facts)
qed

end
