(* ===== verification/Storage_Collections.thy ===== *)
theory Storage_Collections
  imports Storage_Keys
begin

text \<open>
  \<open>CacheStorage\<close> (storage.rs), part two: the hash, list and set operations. An operation
  that can panic returns \<open>None\<close> in place of its result together with the storage the
  panicking thread leaves behind (\<open>parking_lot\<close> locks are not poisoned, so other
  connections go on with that storage).
\<close>

subsection \<open>Hashes\<close>

definition cs_hget :: "hasher \<Rightarrow> env \<Rightarrow> bytes \<Rightarrow> bytes \<Rightarrow> storage \<Rightarrow> bytes option" where
  "cs_hget h E key field = read_entry h key (\<lambda>e. case e of
     Some (Hash_v hs) \<Rightarrow> if \<not> hash_is_expired (now E) hs then get_field field hs else None
   | _ \<Rightarrow> None)"

definition cs_hset :: "hasher \<Rightarrow> bytes \<Rightarrow> bytes \<Rightarrow> bytes \<Rightarrow> storage \<Rightarrow> bool result \<times> storage" where
  "cs_hset h key field value = with_entry h key (\<lambda>e. case e of
     Some (Hash_v hs) \<Rightarrow>
       (case set_field field value hs of (old, hs') \<Rightarrow> (Inr (old = None), Some (Hash_v hs')))
   | Some _ \<Rightarrow> (Inl WRONGTYPE, e)
   | None \<Rightarrow> (Inr True, Some (Hash_v (snd (set_field field value hash_new)))))"

text \<open>The loop \<open>for field in fields { if hash.delete_field(field) { count += 1; } }\<close>.\<close>

fun delete_fields :: "bytes list \<Rightarrow> HashValue \<Rightarrow> nat \<times> HashValue" where
  "delete_fields [] hs = (0, hs)"
| "delete_fields (f # fs) hs =
     (case delete_field f hs of (hit, hs') \<Rightarrow>
        (case delete_fields fs hs' of (n, hs'') \<Rightarrow> ((if hit then 1 else 0) + n, hs'')))"

definition cs_hdel :: "hasher \<Rightarrow> bytes \<Rightarrow> bytes list \<Rightarrow> storage \<Rightarrow> nat result \<times> storage" where
  "cs_hdel h key fs = with_entry h key (\<lambda>e. case e of
     Some (Hash_v hs) \<Rightarrow>
       (case delete_fields fs hs of (n, hs') \<Rightarrow> (Inr n, Some (Hash_v hs')))
   | Some _ \<Rightarrow> (Inl WRONGTYPE, e)
   | None \<Rightarrow> (Inr 0, e))"

definition cs_hgetall :: "hasher \<Rightarrow> env \<Rightarrow> bytes \<Rightarrow> storage \<Rightarrow> (bytes \<times> bytes) list result" where
  "cs_hgetall h E key = read_entry h key (\<lambda>e. case e of
     Some (Hash_v hs) \<Rightarrow>
       if \<not> hash_is_expired (now E) hs then Inr (hash_get_all (hash_order E) hs) else Inr []
   | Some _ \<Rightarrow> Inl WRONGTYPE
   | None \<Rightarrow> Inr [])"

definition cs_hkeys :: "hasher \<Rightarrow> env \<Rightarrow> bytes \<Rightarrow> storage \<Rightarrow> bytes list result" where
  "cs_hkeys h E key = read_entry h key (\<lambda>e. case e of
     Some (Hash_v hs) \<Rightarrow>
       if \<not> hash_is_expired (now E) hs
       then Inr (map fst (hash_get_all (hash_order E) hs)) else Inr []
   | Some _ \<Rightarrow> Inl WRONGTYPE
   | None \<Rightarrow> Inr [])"

definition cs_hvals :: "hasher \<Rightarrow> env \<Rightarrow> bytes \<Rightarrow> storage \<Rightarrow> bytes list result" where
  "cs_hvals h E key = read_entry h key (\<lambda>e. case e of
     Some (Hash_v hs) \<Rightarrow>
       if \<not> hash_is_expired (now E) hs
       then Inr (map snd (hash_get_all (hash_order E) hs)) else Inr []
   | Some _ \<Rightarrow> Inl WRONGTYPE
   | None \<Rightarrow> Inr [])"

definition cs_hlen :: "hasher \<Rightarrow> env \<Rightarrow> bytes \<Rightarrow> storage \<Rightarrow> nat result" where
  "cs_hlen h E key = read_entry h key (\<lambda>e. case e of
     Some (Hash_v hs) \<Rightarrow> if \<not> hash_is_expired (now E) hs then Inr (hash_len hs) else Inr 0
   | Some _ \<Rightarrow> Inl WRONGTYPE
   | None \<Rightarrow> Inr 0)"

definition cs_hexists :: "hasher \<Rightarrow> env \<Rightarrow> bytes \<Rightarrow> bytes \<Rightarrow> storage \<Rightarrow> bool result" where
  "cs_hexists h E key field = read_entry h key (\<lambda>e. case e of
     Some (Hash_v hs) \<Rightarrow>
       if \<not> hash_is_expired (now E) hs then Inr (get_field field hs \<noteq> None) else Inr False
   | Some _ \<Rightarrow> Inl WRONGTYPE
   | None \<Rightarrow> Inr False)"

definition cs_hset_nx :: "hasher \<Rightarrow> env \<Rightarrow> bytes \<Rightarrow> bytes \<Rightarrow> bytes \<Rightarrow> storage \<Rightarrow> bool result \<times> storage" where
  "cs_hset_nx h E key field value = with_entry h key (\<lambda>e. case e of
     Some (Hash_v hs) \<Rightarrow>
       if \<not> hash_is_expired (now E) hs
       then (if get_field field hs \<noteq> None then (Inr False, e)
             else (Inr True, Some (Hash_v (snd (set_field field value hs)))))
       else (Inr True, Some (Hash_v (snd (set_field field value hash_new))))
   | None \<Rightarrow> (Inr True, Some (Hash_v (snd (set_field field value hash_new))))
   | Some _ \<Rightarrow> (Inl WRONGTYPE, e))"

definition cs_hincr_by :: "hasher \<Rightarrow> env \<Rightarrow> bytes \<Rightarrow> bytes \<Rightarrow> int \<Rightarrow> storage \<Rightarrow> int result \<times> storage" where
  "cs_hincr_by h E key field delta = with_entry h key (\<lambda>e.
     let fresh = (Inr delta, Some (Hash_v (snd (set_field field (int_to_string delta) hash_new))))
     in case e of
          Some (Hash_v hs) \<Rightarrow>
            if \<not> hash_is_expired (now E) hs then
              (case (case get_field field hs of
                       Some b \<Rightarrow> parse_i64 (utf8_lossy b) | None \<Rightarrow> Some 0) of
                 None \<Rightarrow> (Inl ''Value is not an integer'', e)
               | Some current \<Rightarrow>
                   (case checked_add_i64 current delta of
                      None \<Rightarrow> (Inl ''ERR increment would overflow'', e)
                    | Some new_value \<Rightarrow>
                        (Inr new_value,
                         Some (Hash_v (snd (set_field field (int_to_string new_value) hs))))))
            else fresh
        | None \<Rightarrow> fresh
        | Some _ \<Rightarrow> (Inl WRONGTYPE, e))"

subsection \<open>Lists\<close>

definition cs_lpush :: "hasher \<Rightarrow> bytes \<Rightarrow> bytes list \<Rightarrow> storage \<Rightarrow> nat result \<times> storage" where
  "cs_lpush h key values = with_entry h key (\<lambda>e. case e of
     Some (List_v l) \<Rightarrow> (let l' = fold push_left values l in (Inr (list_len l'), Some (List_v l')))
   | Some _ \<Rightarrow> (Inl WRONGTYPE, e)
   | None \<Rightarrow> (let l' = fold push_left values list_new in (Inr (list_len l'), Some (List_v l'))))"

definition cs_rpush :: "hasher \<Rightarrow> bytes \<Rightarrow> bytes list \<Rightarrow> storage \<Rightarrow> nat result \<times> storage" where
  "cs_rpush h key values = with_entry h key (\<lambda>e. case e of
     Some (List_v l) \<Rightarrow> (let l' = fold push_right values l in (Inr (list_len l'), Some (List_v l')))
   | Some _ \<Rightarrow> (Inl WRONGTYPE, e)
   | None \<Rightarrow> (let l' = fold push_right values list_new in (Inr (list_len l'), Some (List_v l'))))"

definition cs_lpop :: "hasher \<Rightarrow> bytes \<Rightarrow> storage \<Rightarrow> bytes option result \<times> storage" where
  "cs_lpop h key = with_entry h key (\<lambda>e. case e of
     Some (List_v l) \<Rightarrow> (case pop_left l of (x, l') \<Rightarrow> (Inr x, Some (List_v l')))
   | Some _ \<Rightarrow> (Inl WRONGTYPE, e)
   | None \<Rightarrow> (Inr None, e))"

definition cs_rpop :: "hasher \<Rightarrow> bytes \<Rightarrow> storage \<Rightarrow> bytes option result \<times> storage" where
  "cs_rpop h key = with_entry h key (\<lambda>e. case e of
     Some (List_v l) \<Rightarrow> (case pop_right l of (x, l') \<Rightarrow> (Inr x, Some (List_v l')))
   | Some _ \<Rightarrow> (Inl WRONGTYPE, e)
   | None \<Rightarrow> (Inr None, e))"

definition cs_lrange :: "hasher \<Rightarrow> env \<Rightarrow> bytes \<Rightarrow> int \<Rightarrow> int \<Rightarrow> storage \<Rightarrow> bytes list result" where
  "cs_lrange h E key start stop = read_entry h key (\<lambda>e. case e of
     Some (List_v l) \<Rightarrow>
       if \<not> list_is_expired (now E) l then Inr (list_get_range start stop l) else Inr []
   | Some _ \<Rightarrow> Inl WRONGTYPE
   | None \<Rightarrow> Inr [])"

definition cs_llen :: "hasher \<Rightarrow> env \<Rightarrow> bytes \<Rightarrow> storage \<Rightarrow> nat result" where
  "cs_llen h E key = read_entry h key (\<lambda>e. case e of
     Some (List_v l) \<Rightarrow> if \<not> list_is_expired (now E) l then Inr (list_len l) else Inr 0
   | Some _ \<Rightarrow> Inl WRONGTYPE
   | None \<Rightarrow> Inr 0)"

definition head_opt :: "'a list \<Rightarrow> 'a option" where
  "head_opt xs = (case xs of [] \<Rightarrow> None | x # _ \<Rightarrow> Some x)"

definition cs_lindex :: "hasher \<Rightarrow> env \<Rightarrow> bytes \<Rightarrow> int \<Rightarrow> storage \<Rightarrow> bytes option result" where
  "cs_lindex h E key index = read_entry h key (\<lambda>e. case e of
     Some (List_v l) \<Rightarrow>
       if \<not> list_is_expired (now E) l then Inr (head_opt (list_get_range index index l))
       else Inr None
   | Some _ \<Rightarrow> Inl WRONGTYPE
   | None \<Rightarrow> Inr None)"

definition cs_lset :: "hasher \<Rightarrow> env \<Rightarrow> bytes \<Rightarrow> int \<Rightarrow> bytes \<Rightarrow> storage \<Rightarrow> unit result \<times> storage" where
  "cs_lset h E key index value = with_entry h key (\<lambda>e. case e of
     Some (List_v l) \<Rightarrow>
       if \<not> list_is_expired (now E) l then
         (let len = int (length (l_items l));
              real = (if index < 0 then wrap_i64 (len + index) else index)
          in if real < 0 \<or> real \<ge> len then (Inl ''ERR index out of range'', e)
             else (Inr (), Some (List_v (l\<lparr>l_items := (l_items l)[as_usize real := value]\<rparr>))))
       else (Inl ''ERR no such key'', e)
   | None \<Rightarrow> (Inl ''ERR no such key'', e)
   | Some _ \<Rightarrow> (Inl WRONGTYPE, e))"

text \<open>
  The closure of \<open>retain\<close> in \<open>lrem\<close> (and the loop of its other branch): drop an element
  equal to \<open>value\<close> while fewer than \<open>limit\<close> have been dropped.
\<close>

fun retain_loop :: "bytes \<Rightarrow> nat \<Rightarrow> nat \<Rightarrow> bytes list \<Rightarrow> nat \<times> bytes list" where
  "retain_loop value limit removed [] = (removed, [])"
| "retain_loop value limit removed (v # vs) =
     (if removed < limit \<and> v = value then retain_loop value limit (Suc removed) vs
      else (case retain_loop value limit removed vs of (n, keep) \<Rightarrow> (n, v # keep)))"

definition cs_lrem :: "hasher \<Rightarrow> env \<Rightarrow> bytes \<Rightarrow> int \<Rightarrow> bytes \<Rightarrow> storage \<Rightarrow> nat result \<times> storage" where
  "cs_lrem h E key cnt value = with_entry h key (\<lambda>e. case e of
     Some (List_v l) \<Rightarrow>
       if \<not> list_is_expired (now E) l then
         (if cnt \<ge> 0 then
            (let limit = (if cnt = 0 then usize_max else as_usize cnt)
             in case retain_loop value limit 0 (l_items l) of
                  (removed, keep) \<Rightarrow> (Inr removed, Some (List_v (l\<lparr>l_items := keep\<rparr>))))
          else
            (let limit = as_usize (wrap_i64 (- cnt))
             in case retain_loop value limit 0 (rev (l_items l)) of
                  (removed, keep) \<Rightarrow> (Inr removed, Some (List_v (l\<lparr>l_items := rev keep\<rparr>)))))
       else (Inr 0, e)
   | _ \<Rightarrow> (Inr 0, e))"

text \<open>
  \<open>trim_bounds\<close> are the two indices \<open>ltrim\<close> and \<open>zrevrange\<close> compute; \<open>stop + 1\<close> wraps for
  the largest \<open>stop\<close>, which gives an end beyond the list.
\<close>

definition trim_bounds :: "int \<Rightarrow> int \<Rightarrow> int \<Rightarrow> nat \<times> nat" where
  "trim_bounds len start stop =
     (as_usize (if start < 0 then max (wrap_i64 (len + start)) 0 else min start len),
      as_usize (if stop < 0 then max (wrap_i64 (len + stop)) (- 1) + 1
                else min (wrap_i64 (stop + 1)) len))"

definition cs_ltrim ::
    "hasher \<Rightarrow> env \<Rightarrow> bytes \<Rightarrow> int \<Rightarrow> int \<Rightarrow> storage \<Rightarrow> unit result option \<times> storage" where
  "cs_ltrim h E key start stop = with_entry h key (\<lambda>e. case e of
     Some (List_v l) \<Rightarrow>
       if \<not> list_is_expired (now E) l then
         (case trim_bounds (int (length (l_items l))) start stop of (s, e') \<Rightarrow>
            if s \<ge> e' then (Some (Inr ()), Some (List_v (l\<lparr>l_items := []\<rparr>)))
            else
              (let items = drop s (l_items l)
               in if e' - s > length items then (None, Some (List_v (l\<lparr>l_items := items\<rparr>)))
                  else (Some (Inr ()), Some (List_v (l\<lparr>l_items := take (e' - s) items\<rparr>)))))
       else (Some (Inl WRONGTYPE), e)
   | Some _ \<Rightarrow> (Some (Inl WRONGTYPE), e)
   | None \<Rightarrow> (Some (Inr ()), e))"

text \<open>
  \<open>rpoplpush\<close> releases the source's lock before it takes the destination's: two steps.
\<close>

definition rpoplpush_pop :: "hasher \<Rightarrow> env \<Rightarrow> bytes \<Rightarrow> storage \<Rightarrow> bytes option result \<times> storage" where
  "rpoplpush_pop h E source = with_entry h source (\<lambda>e. case e of
     Some (List_v l) \<Rightarrow>
       if \<not> list_is_expired (now E) l
       then (case pop_right l of (x, l') \<Rightarrow> (Inr x, Some (List_v l')))
       else (Inl WRONGTYPE, e)
   | Some _ \<Rightarrow> (Inl WRONGTYPE, e)
   | None \<Rightarrow> (Inr None, e))"

definition rpoplpush_push :: "hasher \<Rightarrow> env \<Rightarrow> bytes \<Rightarrow> bytes \<Rightarrow> storage \<Rightarrow> unit result \<times> storage" where
  "rpoplpush_push h E destination v = with_entry h destination (\<lambda>e. case e of
     Some (List_v l) \<Rightarrow>
       if \<not> list_is_expired (now E) l then (Inr (), Some (List_v (push_left v l)))
       else (Inr (), Some (List_v (push_left v list_new)))
   | None \<Rightarrow> (Inr (), Some (List_v (push_left v list_new)))
   | Some _ \<Rightarrow> (Inl WRONGTYPE, e))"

definition cs_rpoplpush ::
    "hasher \<Rightarrow> env \<Rightarrow> bytes \<Rightarrow> bytes \<Rightarrow> storage \<Rightarrow> bytes option result \<times> storage" where
  "cs_rpoplpush h E source destination s =
     (case rpoplpush_pop h E source s of
        (Inl err, s1) \<Rightarrow> (Inl err, s1)
      | (Inr None, s1) \<Rightarrow> (Inr None, s1)
      | (Inr (Some v), s1) \<Rightarrow>
          (case rpoplpush_push h E destination v s1 of
             (Inl err, s2) \<Rightarrow> (Inl err, s2)
           | (Inr _, s2) \<Rightarrow> (Inr (Some v), s2)))"

subsection \<open>Sets\<close>

definition cs_sadd :: "hasher \<Rightarrow> bytes \<Rightarrow> bytes list \<Rightarrow> storage \<Rightarrow> nat result \<times> storage" where
  "cs_sadd h key members = with_entry h key (\<lambda>e. case e of
     Some (Set_v st) \<Rightarrow> (case add_all members st of (n, st') \<Rightarrow> (Inr n, Some (Set_v st')))
   | Some _ \<Rightarrow> (Inl WRONGTYPE, e)
   | None \<Rightarrow> (case add_all members set_new of (n, st') \<Rightarrow> (Inr n, Some (Set_v st'))))"

definition cs_srem :: "hasher \<Rightarrow> bytes \<Rightarrow> bytes list \<Rightarrow> storage \<Rightarrow> nat result \<times> storage" where
  "cs_srem h key members = with_entry h key (\<lambda>e. case e of
     Some (Set_v st) \<Rightarrow> (case remove_all members st of (n, st') \<Rightarrow> (Inr n, Some (Set_v st')))
   | Some _ \<Rightarrow> (Inl WRONGTYPE, e)
   | None \<Rightarrow> (Inr 0, e))"

definition cs_smembers :: "hasher \<Rightarrow> env \<Rightarrow> bytes \<Rightarrow> storage \<Rightarrow> bytes list result" where
  "cs_smembers h E key = read_entry h key (\<lambda>e. case e of
     Some (Set_v st) \<Rightarrow>
       if \<not> set_is_expired (now E) st then Inr (set_get_all (hash_order E) st) else Inr []
   | Some _ \<Rightarrow> Inl WRONGTYPE
   | None \<Rightarrow> Inr [])"

definition cs_sismember :: "hasher \<Rightarrow> env \<Rightarrow> bytes \<Rightarrow> bytes \<Rightarrow> storage \<Rightarrow> bool result" where
  "cs_sismember h E key member = read_entry h key (\<lambda>e. case e of
     Some (Set_v st) \<Rightarrow>
       if \<not> set_is_expired (now E) st then Inr (set_contains member st) else Inr False
   | Some _ \<Rightarrow> Inl WRONGTYPE
   | None \<Rightarrow> Inr False)"

definition cs_scard :: "hasher \<Rightarrow> env \<Rightarrow> bytes \<Rightarrow> storage \<Rightarrow> nat result" where
  "cs_scard h E key = read_entry h key (\<lambda>e. case e of
     Some (Set_v st) \<Rightarrow> if \<not> set_is_expired (now E) st then Inr (set_len st) else Inr 0
   | Some _ \<Rightarrow> Inl WRONGTYPE
   | None \<Rightarrow> Inr 0)"

definition snapshot_set :: "hasher \<Rightarrow> env \<Rightarrow> bytes \<Rightarrow> storage \<Rightarrow> SetValue option result" where
  "snapshot_set h E key = read_entry h key (\<lambda>e. case e of
     Some (Set_v st) \<Rightarrow> if \<not> set_is_expired (now E) st then Inr (Some st) else Inr None
   | Some _ \<Rightarrow> Inl WRONGTYPE
   | None \<Rightarrow> Inr None)"

fun sinter_loop :: "hasher \<Rightarrow> env \<Rightarrow> storage \<Rightarrow> SetValue option \<Rightarrow> bytes list \<Rightarrow> bytes list result" where
  "sinter_loop h E s res [] =
     Inr (case res of None \<Rightarrow> [] | Some st \<Rightarrow> set_get_all (hash_order E) st)"
| "sinter_loop h E s res (key # keys) =
     (case snapshot_set h E key s of
        Inl err \<Rightarrow> Inl err
      | Inr None \<Rightarrow> Inr []
      | Inr (Some st) \<Rightarrow>
          (case res of
             None \<Rightarrow> sinter_loop h E s (Some st) keys
           | Some r \<Rightarrow>
               sinter_loop h E s
                 (Some (snd (add_all (set_intersection (hash_order E) r st) set_new))) keys))"

definition cs_sinter :: "hasher \<Rightarrow> env \<Rightarrow> bytes list \<Rightarrow> storage \<Rightarrow> bytes list result" where
  "cs_sinter h E keys s = (if keys = [] then Inr [] else sinter_loop h E s None keys)"

fun sunion_loop :: "hasher \<Rightarrow> env \<Rightarrow> storage \<Rightarrow> SetValue \<Rightarrow> bytes list \<Rightarrow> bytes list result" where
  "sunion_loop h E s res [] = Inr (set_get_all (hash_order E) res)"
| "sunion_loop h E s res (key # keys) =
     (case snapshot_set h E key s of
        Inl err \<Rightarrow> Inl err
      | Inr None \<Rightarrow> sunion_loop h E s res keys
      | Inr (Some st) \<Rightarrow>
          sunion_loop h E s (snd (add_all (set_get_all (hash_order E) st) res)) keys)"

definition cs_sunion :: "hasher \<Rightarrow> env \<Rightarrow> bytes list \<Rightarrow> storage \<Rightarrow> bytes list result" where
  "cs_sunion h E keys s = (if keys = [] then Inr [] else sunion_loop h E s set_new keys)"

fun sdiff_loop :: "hasher \<Rightarrow> env \<Rightarrow> storage \<Rightarrow> SetValue \<Rightarrow> bytes list \<Rightarrow> bytes list result" where
  "sdiff_loop h E s res [] = Inr (set_get_all (hash_order E) res)"
| "sdiff_loop h E s res (key # keys) =
     (case snapshot_set h E key s of
        Inl err \<Rightarrow> Inl err
      | Inr None \<Rightarrow> sdiff_loop h E s res keys
      | Inr (Some st) \<Rightarrow>
          sdiff_loop h E s
            (snd (add_all (set_difference (hash_order E) res st) set_new)) keys)"

definition cs_sdiff :: "hasher \<Rightarrow> env \<Rightarrow> bytes list \<Rightarrow> storage \<Rightarrow> bytes list result" where
  "cs_sdiff h E keys s = (case keys of
     [] \<Rightarrow> Inr []
   | key # rest \<Rightarrow>
       (case snapshot_set h E key s of
          Inl err \<Rightarrow> Inl err
        | Inr None \<Rightarrow> Inr []
        | Inr (Some st) \<Rightarrow> sdiff_loop h E s st rest))"

definition cs_spop :: "hasher \<Rightarrow> env \<Rightarrow> bytes \<Rightarrow> nat \<Rightarrow> storage \<Rightarrow> bytes list result option \<times> storage" where
  "cs_spop h E key cnt = with_entry h key (\<lambda>e. case e of
     Some (Set_v st) \<Rightarrow>
       if \<not> set_is_expired (now E) st then
         (if cnt > capacity_limit E then (None, e)
          else
            (let chosen = choose_multiple E cnt (set_get_all (hash_order E) st)
             in (Some (Inr chosen), Some (Set_v (snd (remove_all chosen st))))))
       else (Some (Inl WRONGTYPE), e)
   | Some _ \<Rightarrow> (Some (Inl WRONGTYPE), e)
   | None \<Rightarrow> (Some (Inr []), e))"

definition cs_srand_member :: "hasher \<Rightarrow> env \<Rightarrow> bytes \<Rightarrow> int \<Rightarrow> storage \<Rightarrow> bytes list result option" where
  "cs_srand_member h E key cnt = read_entry h key (\<lambda>e. case e of
     Some (Set_v st) \<Rightarrow>
       if \<not> set_is_expired (now E) st then
         (let all = set_get_all (hash_order E) st
          in if cnt \<ge> 0 then Some (Inr (choose_multiple E (as_usize cnt) all))
             else
               (let n = as_usize (wrap_i64 (- cnt))
                in if n > capacity_limit E then None
                   else Some (Inr (List.map_filter (\<lambda>i. choose_nth E i all) [0..<n]))))
       else Some (Inl WRONGTYPE)
   | Some _ \<Rightarrow> Some (Inl WRONGTYPE)
   | None \<Rightarrow> Some (Inr []))"

text \<open>Like \<open>rpoplpush\<close>, \<open>smove\<close> takes the two locks one after the other.\<close>

definition smove_take :: "hasher \<Rightarrow> env \<Rightarrow> bytes \<Rightarrow> bytes \<Rightarrow> storage \<Rightarrow> bool result \<times> storage" where
  "smove_take h E source member = with_entry h source (\<lambda>e. case e of
     Some (Set_v st) \<Rightarrow>
       if \<not> set_is_expired (now E) st
       then (case set_remove member st of (hit, st') \<Rightarrow> (Inr hit, Some (Set_v st')))
       else (Inl WRONGTYPE, e)
   | Some _ \<Rightarrow> (Inl WRONGTYPE, e)
   | None \<Rightarrow> (Inr False, e))"

definition smove_put :: "hasher \<Rightarrow> env \<Rightarrow> bytes \<Rightarrow> bytes \<Rightarrow> storage \<Rightarrow> unit result \<times> storage" where
  "smove_put h E destination member = with_entry h destination (\<lambda>e. case e of
     Some (Set_v st) \<Rightarrow>
       if \<not> set_is_expired (now E) st then (Inr (), Some (Set_v (snd (set_add member st))))
       else (Inr (), Some (Set_v (snd (set_add member set_new))))
   | None \<Rightarrow> (Inr (), Some (Set_v (snd (set_add member set_new))))
   | Some _ \<Rightarrow> (Inl WRONGTYPE, e))"

definition cs_smove ::
    "hasher \<Rightarrow> env \<Rightarrow> bytes \<Rightarrow> bytes \<Rightarrow> bytes \<Rightarrow> storage \<Rightarrow> bool result \<times> storage" where
  "cs_smove h E source destination member s =
     (case smove_take h E source member s of
        (Inl err, s1) \<Rightarrow> (Inl err, s1)
      | (Inr False, s1) \<Rightarrow> (Inr False, s1)
      | (Inr True, s1) \<Rightarrow>
          (case smove_put h E destination member s1 of
             (Inl err, s2) \<Rightarrow> (Inl err, s2)
           | (Inr _, s2) \<Rightarrow> (Inr True, s2)))"

subsection \<open>The invariant\<close>

lemma hash_inv_delete_fields [value_inv_intros]: "hash_inv hs \<Longrightarrow> hash_inv (snd (delete_fields fs hs))"
proof (induction fs arbitrary: hs)
  case (Cons f fs)
  from Cons.IH [OF hash_inv_delete_field [OF Cons.prems]] show ?case by (simp add: split_beta)
qed simp

lemma cs_hset_inv [storage_inv_intros]: "storage_inv h s \<Longrightarrow> storage_inv h (snd (cs_hset h k f v s))"
  unfolding cs_hset_def by (rule storage_inv_with_entry)
    (auto simp: split_beta value_inv_intros split: option.splits CacheValue.splits)

lemma cs_hdel_inv [storage_inv_intros]: "storage_inv h s \<Longrightarrow> storage_inv h (snd (cs_hdel h k fs s))"
  unfolding cs_hdel_def by (rule storage_inv_with_entry)
    (auto simp: split_beta value_inv_intros split: option.splits CacheValue.splits)

lemma cs_hset_nx_inv [storage_inv_intros]:
  "storage_inv h s \<Longrightarrow> storage_inv h (snd (cs_hset_nx h E k f v s))"
  unfolding cs_hset_nx_def by (rule storage_inv_with_entry)
    (auto simp: value_inv_intros split: option.splits CacheValue.splits)

lemma cs_hincr_by_inv [storage_inv_intros]:
  "storage_inv h s \<Longrightarrow> storage_inv h (snd (cs_hincr_by h E k f d s))"
  unfolding cs_hincr_by_def by (rule storage_inv_with_entry)
    (auto simp: Let_def value_inv_intros split: option.splits CacheValue.splits)

lemma cs_lpush_inv [storage_inv_intros]: "storage_inv h s \<Longrightarrow> storage_inv h (snd (cs_lpush h k vs s))"
  unfolding cs_lpush_def by (rule storage_inv_with_entry)
    (auto simp: Let_def split: option.splits CacheValue.splits)

lemma cs_rpush_inv [storage_inv_intros]: "storage_inv h s \<Longrightarrow> storage_inv h (snd (cs_rpush h k vs s))"
  unfolding cs_rpush_def by (rule storage_inv_with_entry)
    (auto simp: Let_def split: option.splits CacheValue.splits)

lemma cs_lpop_inv [storage_inv_intros]: "storage_inv h s \<Longrightarrow> storage_inv h (snd (cs_lpop h k s))"
  unfolding cs_lpop_def by (rule storage_inv_with_entry)
    (auto simp: split_beta split: option.splits CacheValue.splits)

lemma cs_rpop_inv [storage_inv_intros]: "storage_inv h s \<Longrightarrow> storage_inv h (snd (cs_rpop h k s))"
  unfolding cs_rpop_def by (rule storage_inv_with_entry)
    (auto simp: split_beta split: option.splits CacheValue.splits)

lemma cs_lset_inv [storage_inv_intros]: "storage_inv h s \<Longrightarrow> storage_inv h (snd (cs_lset h E k i v s))"
  unfolding cs_lset_def by (rule storage_inv_with_entry)
    (auto simp: Let_def split: option.splits CacheValue.splits)

lemma cs_lrem_inv [storage_inv_intros]: "storage_inv h s \<Longrightarrow> storage_inv h (snd (cs_lrem h E k n v s))"
  unfolding cs_lrem_def by (rule storage_inv_with_entry)
    (auto simp: Let_def split_beta split: option.splits CacheValue.splits)

lemma cs_ltrim_inv [storage_inv_intros]: "storage_inv h s \<Longrightarrow> storage_inv h (snd (cs_ltrim h E k i j s))"
  unfolding cs_ltrim_def by (rule storage_inv_with_entry)
    (auto simp: Let_def split_beta split: option.splits CacheValue.splits)

lemma rpoplpush_pop_inv: "storage_inv h s \<Longrightarrow> storage_inv h (snd (rpoplpush_pop h E k s))"
  unfolding rpoplpush_pop_def by (rule storage_inv_with_entry)
    (auto simp: split_beta split: option.splits CacheValue.splits)

lemma rpoplpush_push_inv: "storage_inv h s \<Longrightarrow> storage_inv h (snd (rpoplpush_push h E k v s))"
  unfolding rpoplpush_push_def by (rule storage_inv_with_entry)
    (auto split: option.splits CacheValue.splits)

lemma cs_rpoplpush_inv [storage_inv_intros]:
  assumes "storage_inv h s"
  shows "storage_inv h (snd (cs_rpoplpush h E k k' s))"
proof -
  have "storage_inv h (snd (rpoplpush_pop h E k s))" using assms by (rule rpoplpush_pop_inv)
  moreover from this have "storage_inv h (snd (rpoplpush_push h E k' v (snd (rpoplpush_pop h E k s))))" for v
    by (rule rpoplpush_push_inv)
  ultimately show ?thesis
    by (auto simp: cs_rpoplpush_def split: prod.splits sum.splits option.splits) (metis snd_conv)+
qed

lemma cs_sadd_inv [storage_inv_intros]: "storage_inv h s \<Longrightarrow> storage_inv h (snd (cs_sadd h k vs s))"
  unfolding cs_sadd_def by (rule storage_inv_with_entry)
    (auto simp: split_beta value_inv_intros split: option.splits CacheValue.splits)

lemma cs_srem_inv [storage_inv_intros]: "storage_inv h s \<Longrightarrow> storage_inv h (snd (cs_srem h k vs s))"
  unfolding cs_srem_def by (rule storage_inv_with_entry)
    (auto simp: split_beta value_inv_intros split: option.splits CacheValue.splits)

lemma cs_spop_inv [storage_inv_intros]: "storage_inv h s \<Longrightarrow> storage_inv h (snd (cs_spop h E k n s))"
  unfolding cs_spop_def by (rule storage_inv_with_entry)
    (auto simp: Let_def value_inv_intros split: option.splits CacheValue.splits)

lemma smove_take_inv: "storage_inv h s \<Longrightarrow> storage_inv h (snd (smove_take h E k m s))"
  unfolding smove_take_def by (rule storage_inv_with_entry)
    (auto simp: split_beta value_inv_intros split: option.splits CacheValue.splits)

lemma smove_put_inv: "storage_inv h s \<Longrightarrow> storage_inv h (snd (smove_put h E k m s))"
  unfolding smove_put_def by (rule storage_inv_with_entry)
    (auto simp: value_inv_intros split: option.splits CacheValue.splits)

lemma cs_smove_inv [storage_inv_intros]:
  assumes "storage_inv h s"
  shows "storage_inv h (snd (cs_smove h E k k' m s))"
proof -
  have "storage_inv h (snd (smove_take h E k m s))" using assms by (rule smove_take_inv)
  moreover from this have "storage_inv h (snd (smove_put h E k' m (snd (smove_take h E k m s))))"
    by (rule smove_put_inv)
  ultimately show ?thesis
    by (auto simp: cs_smove_def split: prod.splits sum.splits bool.splits)
qed

end
