(* ===== verification/Collection_Properties.thy ===== *)
theory Collection_Properties
  imports Storage_Collections
begin

text \<open>
  What the hash, list and set operations of the storage do, stated over \<open>lookup\<close>.
\<close>

subsection \<open>Example storages\<close>

definition one_list :: "bytes \<Rightarrow> bytes list \<Rightarrow> storage" where
  "one_list k xs = snd (cs_rpush (\<lambda>_. 5) k xs storage_new)"

definition one_set :: "bytes \<Rightarrow> bytes list \<Rightarrow> storage" where
  "one_set k xs = snd (cs_sadd (\<lambda>_. 5) k xs storage_new)"

lemma one_list_facts:
  "sharded (\<lambda>_. 5) (one_list k xs)"
  "lookup (\<lambda>_. 5) (one_list k xs) k = Some (List_v \<lparr>l_items = xs, l_expires_at = None\<rparr>)"
  using fold_push_right [of xs list_new]
  by (simp_all add: one_list_def cs_rpush_def sharded_store.wf_entry Let_def list_new_def
      equality)

lemma one_set_facts:
  "sharded (\<lambda>_. 5) (one_set k xs)" "storage_inv (\<lambda>_. 5) (one_set k xs)"
  "lookup (\<lambda>_. 5) (one_set k xs) k = Some (Set_v (snd (add_all xs set_new)))"
  by (simp_all add: one_set_def cs_sadd_def sharded_store.wf_entry split_beta)
    (use cs_sadd_inv [OF storage_inv_new, of "\<lambda>_. 5" k xs] in \<open>simp add: cs_sadd_def split_beta\<close>)

subsection \<open>Lists\<close>

lemma push_right_list:
  "fold push_right vs l = l\<lparr>l_items := l_items l @ vs\<rparr>"
  by (induction vs arbitrary: l) (simp_all add: push_right_def)

lemma push_left_list:
  "fold push_left vs l = l\<lparr>l_items := rev vs @ l_items l\<rparr>"
  by (induction vs arbitrary: l) (simp_all add: push_left_def)

text \<open>\<open>n\<close> LPOPs in a row.\<close>

fun lpops :: "hasher \<Rightarrow> bytes \<Rightarrow> nat \<Rightarrow> storage \<Rightarrow> bytes option result list" where
  "lpops h key 0 s = []"
| "lpops h key (Suc n) s = (case cs_lpop h key s of (r, s') \<Rightarrow> r # lpops h key n s')"

lemma lpops_items:
  assumes "sharded h s" "lookup h s key = Some (List_v l)"
  shows "lpops h key n s =
    map (\<lambda>x. Inr (Some x)) (take n (l_items l)) @ replicate (n - length (l_items l)) (Inr None)"
  using assms
proof (induction n arbitrary: s l)
  case (Suc n)
  let ?s1 = "snd (cs_lpop h key s)"
  have s1: "sharded h ?s1" using Suc.prems by (simp add: cs_lpop_def sharded_store.wf_entry)
  have r: "fst (cs_lpop h key s) = Inr (fst (pop_left l))"
      "lookup h ?s1 key = Some (List_v (snd (pop_left l)))"
    using Suc.prems by (simp_all add: cs_lpop_def split_beta)
  from Suc.IH [OF s1 r(2)] r(1) show ?case
    by (cases "l_items l") (simp_all add: split_beta pop_left_def)
qed simp

text \<open>
  A list is a queue: after RPUSH of several values to a missing key, LPOP returns them
  in the order they were pushed, and nil once they are gone.
\<close>

theorem rpush_lpop_fifo:
  assumes "sharded h s" "lookup h s key = None"
  shows "lpops h key n (snd (cs_rpush h key vs s)) =
    map (\<lambda>x. Inr (Some x)) (take n vs) @ replicate (n - length vs) (Inr None)"
proof -
  have "sharded h (snd (cs_rpush h key vs s))"
    using assms by (simp add: cs_rpush_def sharded_store.wf_entry)
  moreover have "lookup h (snd (cs_rpush h key vs s)) key = Some (List_v (fold push_right vs list_new))"
    using assms by (simp add: cs_rpush_def Let_def)
  ultimately show ?thesis by (simp add: lpops_items push_right_list list_new_def)
qed

theorem rpush_lpop_fifo_witness:
  "lpops (\<lambda>_. 5) ''q'' 3 (snd (cs_rpush (\<lambda>_. 5) ''q'' [''a'', ''b''] storage_new)) =
     [Inr (Some ''a''), Inr (Some ''b''), Inr None]"
  using rpush_lpop_fifo [OF sharded_new lookup_new, of "\<lambda>_. 5" "''q''" 3 "[''a'', ''b'']"]
  by (simp add: numeral_eq_Suc)



text \<open>
  LRANGE and LINDEX with a start at or beyond the end of a non-empty list return its
  last element; Redis documents an empty reply.
\<close>

theorem lrange_beyond_end_returns_last:
  assumes "lookup h s key = Some (List_v l)" "\<not> list_is_expired (now E) l"
    "fits (l_items l)" "l_items l \<noteq> []" "int (length (l_items l)) \<le> start" "start \<le> stop"
    "stop < 2 ^ 63 - 1"
  shows "cs_lrange h E key start stop s = Inr [last (l_items l)] \<and>
    cs_lindex h E key start s = Inr (Some (last (l_items l))) \<and>
    redis_slice start stop (l_items l) = []"
proof -
  have "list_get_range start stop l = [last (l_items l)]"
    using assms by (intro list_get_range_beyond_end) auto
  moreover have "list_get_range start start l = [last (l_items l)]"
    using assms by (intro list_get_range_beyond_end) auto
  moreover have "redis_slice start stop (l_items l) = []"
    using assms(5,6) by (auto simp: redis_slice_def Let_def)
  ultimately show ?thesis
    using assms(1,2) by (simp add: cs_lrange_def cs_lindex_def read_entry_lookup head_opt_def)
qed

theorem lrange_beyond_end_returns_last_witness:
  "cs_lindex (\<lambda>_. 5) sample_env ''l'' 10 (one_list ''l'' [''a'', ''b'', ''c'']) = Inr (Some ''c'')"
  using lrange_beyond_end_returns_last [OF one_list_facts(2), of sample_env "[''a'', ''b'', ''c'']" 10 10 "''l''"]
  by (simp add: list_is_expired_def fits_def)

lemma remove1_pow_Cons:
  "(remove1 v ^^ n) (x # xs) =
     (if x = v then (if n = 0 then x # xs else (remove1 v ^^ (n - 1)) xs)
      else x # (remove1 v ^^ n) xs)"
proof (induction n arbitrary: x xs)
  case (Suc n)
  then show ?case by (simp add: funpow_Suc_right del: funpow.simps)
qed simp

lemma remove1_pow_Nil [simp]: "(remove1 v ^^ n) [] = []"
  by (induction n) simp_all

lemma retain_loop_removes:
  "retain_loop v limit r xs =
     (r + min (limit - r) (count_list xs v), (remove1 v ^^ (limit - r)) xs)"
proof (induction xs arbitrary: r)
  case (Cons x xs)
  show ?case
  proof (cases "r < limit \<and> x = v")
    case True
    then have "limit - r = Suc (limit - Suc r)" by linarith
    then show ?thesis using True Cons.IH [of "Suc r"] by (simp add: remove1_pow_Cons del: funpow.simps)
  next
    case False
    then show ?thesis using Cons.IH [of r] by (auto simp: remove1_pow_Cons)
  qed
qed simp

lemma remove1_pow_all: "count_list xs v \<le> n \<Longrightarrow> (remove1 v ^^ n) xs = filter (\<lambda>x. x \<noteq> v) xs"
proof (induction xs arbitrary: n)
  case (Cons x xs)
  from Cons.prems Cons.IH [of n] Cons.IH [of "n - 1"] show ?case
    by (auto simp: remove1_pow_Cons split: if_splits)
qed simp

text \<open>
  LREM on a live list removes the first \<open>count\<close> occurrences of the value, the last
  \<open>-count\<close> ones for a negative count, all of them for zero, and returns how many it removed.
\<close>

theorem lrem_removes:
  assumes "sharded h s" "lookup h s key = Some (List_v l)" "\<not> list_is_expired (now E) l"
    "in_i64 cnt" "fits (l_items l)" "cnt \<noteq> - (2 ^ 63)"
  shows "let items = l_items l;
      items' = (if cnt > 0 then (remove1 v ^^ nat cnt) items
        else if cnt < 0 then rev ((remove1 v ^^ nat (- cnt)) (rev items))
        else filter (\<lambda>x. x \<noteq> v) items)
    in lookup h (snd (cs_lrem h E key cnt v s)) = (lookup h s)(key \<mapsto> List_v (l\<lparr>l_items := items'\<rparr>)) \<and>
      fst (cs_lrem h E key cnt v s) =
        Inr (if cnt = 0 then count_list items v else min (nat \<bar>cnt\<bar>) (count_list items v))"
proof -
  have le: "count_list (l_items l) v \<le> usize_max"
  proof -
    have "count_list (l_items l) v \<le> length (l_items l)" by (rule count_le_length)
    also have "\<dots> \<le> usize_max" using assms(5) by (simp add: fits_def usize_max_def)
    finally show ?thesis .
  qed
  have pos: "as_usize cnt = nat cnt" if "cnt > 0"
    using that assms(4) by (intro as_usize_nonneg) auto
  have neg: "as_usize (wrap_i64 (- cnt)) = nat (- cnt)" if "cnt < 0"
  proof -
    have "in_i64 (- cnt)" using that assms(4,6) by (auto simp: in_i64_def)
    then show ?thesis using that by (simp add: as_usize_nonneg)
  qed
  consider "cnt > 0" | "cnt < 0" | "cnt = 0" by linarith
  then show ?thesis
    by cases (use assms(1-3) pos neg le in \<open>simp_all add: cs_lrem_def Let_def split_beta retain_loop_removes
      sharded_store.find_entry remove1_pow_all min_def\<close>)
qed

theorem lrem_removes_witness:
  "fst (cs_lrem (\<lambda>_. 5) sample_env ''l'' (- 1) ''a'' (one_list ''l'' [''a'', ''b'', ''a''])) = Inr 1"
  using lrem_removes [OF one_list_facts, of sample_env "[''a'', ''b'', ''a'']" "- 1" "''a''" "''l''"]
  by (simp add: list_is_expired_def fits_def in_i64_def Let_def)

lemma trim_bounds_slice:
  assumes "fits xs" "in_i64 start" "in_i64 stop" "stop \<noteq> 2 ^ 63 - 1"
    "trim_bounds (int (length xs)) start stop = (s, e)"
  shows "e \<le> length xs"
    and "(if s \<ge> e then [] else take (e - s) (drop s xs)) = redis_slice start stop xs"
proof -
  define len where "len = int (length xs)"
  have len: "0 \<le> len" "len < 2 ^ 63" using assms(1) by (simp_all add: len_def fits_int)
  have w: "wrap_i64 (len + start) = len + start" if "start < 0"
    using that assms(2) len by (intro wrap_i64_id) (auto simp: in_i64_def)
  have w1: "wrap_i64 (len + stop) = len + stop" if "stop < 0"
    using that assms(3) len by (intro wrap_i64_id) (auto simp: in_i64_def)
  have w2: "wrap_i64 (stop + 1) = stop + 1"
    using assms(3,4) by (intro wrap_i64_id) (auto simp: in_i64_def)
  define si where "si = (if start < 0 then max (len + start) 0 else min start len)"
  define ei where "ei = (if stop < 0 then max (len + stop) (- 1) + 1 else min (stop + 1) len)"
  have si: "0 \<le> si" "si \<le> len" and ei: "0 \<le> ei" "ei \<le> len"
    using len by (auto simp: si_def ei_def)
  have s: "s = nat si" and e: "e = nat ei"
    using assms(5) w w1 w2 si ei len
    unfolding trim_bounds_def len_def [symmetric] si_def ei_def
    by (auto simp: as_usize_bounded)
  show "e \<le> length xs" using e ei by (simp add: len_def nat_le_iff)
  define lo where "lo = max 0 (if start < 0 then len + start else start)"
  define hi where "hi = min (len - 1) (if stop < 0 then len + stop else stop)"
  have rhs: "redis_slice start stop xs =
      (if lo > hi then [] else take (nat (hi - lo + 1)) (drop (nat lo) xs))"
    unfolding redis_slice_def Let_def len_def [symmetric] lo_def hi_def ..
  have ord: "lo > hi \<longleftrightarrow> ei \<le> si"
    using len(1) unfolding lo_def hi_def si_def ei_def by (auto simp: max_def min_def)
  have eq: "lo = si \<and> hi - lo + 1 = ei - si" if "si < ei"
    using that len(1) unfolding lo_def hi_def si_def ei_def
    by (auto simp: max_def min_def split: if_splits)
  show "(if s \<ge> e then [] else take (e - s) (drop s xs)) = redis_slice start stop xs"
  proof (cases "ei \<le> si")
    case True
    then show ?thesis using rhs ord s e by (simp add: nat_mono)
  next
    case False
    then have "nat (hi - lo + 1) = e - s" "nat lo = s" "\<not> s \<ge> e"
      using eq si ei s e by (auto simp: nat_diff_distrib nat_le_iff)
    then show ?thesis using rhs ord False by simp
  qed
qed

text \<open>
  LTRIM on a live list keeps exactly the slice Redis documents, for every pair of
  indices but the largest stop.
\<close>

theorem ltrim_keeps_slice:
  assumes "sharded h s" "lookup h s key = Some (List_v l)" "\<not> list_is_expired (now E) l"
    "fits (l_items l)" "in_i64 start" "in_i64 stop" "stop \<noteq> 2 ^ 63 - 1"
  shows "fst (cs_ltrim h E key start stop s) = Some (Inr ()) \<and>
    lookup h (snd (cs_ltrim h E key start stop s)) =
      (lookup h s)(key \<mapsto> List_v (l\<lparr>l_items := redis_slice start stop (l_items l)\<rparr>))"
proof -
  obtain i j where b: "trim_bounds (int (length (l_items l))) start stop = (i, j)" by force
  note t = trim_bounds_slice [OF assms(4-7) b]
  show ?thesis
    using assms(1-3) b t(1) unfolding t(2) [symmetric]
    by (cases "i \<ge> j") (simp_all add: cs_ltrim_def sharded_store.find_entry Let_def)
qed

theorem ltrim_keeps_slice_witness:
  "lookup (\<lambda>_. 5) (snd (cs_ltrim (\<lambda>_. 5) sample_env ''l'' 1 (- 1) (one_list ''l'' [''a'', ''b'', ''c'']))) ''l'' =
     Some (List_v \<lparr>l_items = [''b'', ''c''], l_expires_at = None\<rparr>)"
  using ltrim_keeps_slice [OF one_list_facts, of sample_env "[''a'', ''b'', ''c'']" 1 "- 1" "''l''"]
  by (simp add: list_is_expired_def fits_def in_i64_def redis_slice_def)

text \<open>
  LTRIM with the largest stop (2^63 - 1) on a live list with elements from \<open>start\<close> on
  panics, after it has already dropped the elements before \<open>start\<close>.
\<close>

theorem ltrim_max_stop_panics:
  assumes "sharded h s" "lookup h s key = Some (List_v l)" "\<not> list_is_expired (now E) l"
    "fits (l_items l)" "0 \<le> start" "start < int (length (l_items l))"
  shows "fst (cs_ltrim h E key start (2 ^ 63 - 1) s) = None \<and>
    lookup h (snd (cs_ltrim h E key start (2 ^ 63 - 1) s)) =
      (lookup h s)(key \<mapsto> List_v (l\<lparr>l_items := drop (nat start) (l_items l)\<rparr>))"
proof -
  have len: "int (length (l_items l)) < 2 ^ 63" using assms(4) by (simp add: fits_int)
  have "trim_bounds (int (length (l_items l))) start (2 ^ 63 - 1) = (nat start, 2 ^ 63)"
  proof -
    have "wrap_i64 (2 ^ 63) = - (2 ^ 63)" by (simp add: wrap_i64_def)
    moreover have "as_usize (- (2 ^ 63)) = 2 ^ 63" by (simp add: as_usize_def)
    moreover have "as_usize start = nat start" using assms(5,6) len by (simp add: as_usize_bounded)
    ultimately show ?thesis
      using assms(5,6) len by (simp add: trim_bounds_def)
  qed
  moreover have "nat start < 2 ^ 63" "length (l_items l) < 2 ^ 63"
    using assms(4-6) len by (simp_all add: fits_def nat_less_iff)
  ultimately show ?thesis
    using assms(1-3) by (simp add: cs_ltrim_def sharded_store.find_entry Let_def)
qed

theorem ltrim_max_stop_panics_witness:
  "fst (cs_ltrim (\<lambda>_. 5) sample_env ''l'' 1 (2 ^ 63 - 1) (one_list ''l'' [''a'', ''b'', ''c''])) = None"
  using ltrim_max_stop_panics [OF one_list_facts, of sample_env "[''a'', ''b'', ''c'']" 1 "''l''"]
  by (simp add: list_is_expired_def fits_def)

definition accepts_list :: "CacheValue option \<Rightarrow> bool" where
  "accepts_list e = (case e of None \<Rightarrow> True | Some (List_v l) \<Rightarrow> True | Some _ \<Rightarrow> False)"

definition live_items :: "env \<Rightarrow> CacheValue option \<Rightarrow> ListValue" where
  "live_items E e = (case e of
     Some (List_v l) \<Rightarrow> if list_is_expired (now E) l then list_new else l | _ \<Rightarrow> list_new)"

text \<open>
  RPOPLPUSH between two different keys, the source a live non-empty list: when the
  destination is missing or a live list the last element moves to its head; when it holds
  another type the reply is an error and the element is gone from both.
\<close>

theorem rpoplpush_moves_or_loses:
  assumes "sharded h s" "src \<noteq> dst" "lookup h s src = Some (List_v l)"
    "\<not> list_is_expired (now E) l" "l_items l \<noteq> []"
  shows "let s' = snd (cs_rpoplpush h E src dst s);
      popped = (lookup h s)(src \<mapsto> List_v (l\<lparr>l_items := butlast (l_items l)\<rparr>))
    in if accepts_list (lookup h s dst)
      then fst (cs_rpoplpush h E src dst s) = Inr (Some (last (l_items l))) \<and>
        lookup h s' = popped(dst \<mapsto> List_v (push_left (last (l_items l)) (live_items E (lookup h s dst))))
      else fst (cs_rpoplpush h E src dst s) = Inl WRONGTYPE \<and> lookup h s' = popped"
proof -
  define s1 where "s1 = snd (rpoplpush_pop h E src s)"
  have pop: "rpoplpush_pop h E src s = (Inr (Some (last (l_items l))), s1)"
    using assms(3-5) by (simp add: s1_def rpoplpush_pop_def pop_right_def prod_eq_iff)
  have s1: "sharded h s1" using assms(1) by (simp add: s1_def rpoplpush_pop_def sharded_store.wf_entry)
  have l1: "lookup h s1 = (lookup h s)(src \<mapsto> List_v (l\<lparr>l_items := butlast (l_items l)\<rparr>))"
    using assms(1,3-5) by (simp add: s1_def rpoplpush_pop_def sharded_store.find_entry pop_right_def)
  let ?r = "rpoplpush_push h E dst (last (l_items l)) s1"
  have eq: "cs_rpoplpush h E src dst s =
      (case fst ?r of Inl err \<Rightarrow> (Inl err, snd ?r) | Inr _ \<Rightarrow> (Inr (Some (last (l_items l))), snd ?r))"
    unfolding cs_rpoplpush_def pop by (auto simp: split_beta split: sum.split)
  have l2: "lookup h (snd ?r) = (lookup h s1)(dst :=
      (if accepts_list (lookup h s dst)
       then Some (List_v (push_left (last (l_items l)) (live_items E (lookup h s dst))))
       else lookup h s dst))"
    using assms(2)
    by (simp add: rpoplpush_push_def sharded_store.find_entry [OF s1] l1 accepts_list_def live_items_def
        split: option.split CacheValue.split)
  have r: "fst ?r = (if accepts_list (lookup h s dst) then Inr () else Inl WRONGTYPE)"
    using assms(2) by (simp add: rpoplpush_push_def l1 accepts_list_def split: option.split CacheValue.split)
  have keep: "(lookup h s1)(dst := lookup h s dst) = lookup h s1"
    using assms(2) by (simp add: l1 fun_upd_idem)
  show ?thesis
  proof (cases "accepts_list (lookup h s dst)")
    case True
    then show ?thesis by (simp only: Let_def eq r l2 l1 if_True sum.case fst_conv snd_conv)
  next
    case False
    then show ?thesis by (simp only: Let_def eq r l2 keep if_False sum.case fst_conv snd_conv) (simp only: l1)
  qed
qed

theorem rpoplpush_moves_or_loses_witness:
  "fst (cs_rpoplpush (\<lambda>_. 5) sample_env ''l'' ''m'' (one_list ''l'' [''a'', ''b''])) = Inr (Some ''b'')"
proof -
  have "lookup (\<lambda>_. 5) (one_list ''l'' [''a'', ''b'']) ''m'' = None"
    by (simp add: one_list_def cs_rpush_def sharded_store.find_entry)
  then show ?thesis
    using rpoplpush_moves_or_loses [OF one_list_facts(1) _ one_list_facts(2), of "''l''" "''m''" sample_env "[''a'', ''b'']"]
    by (simp add: list_is_expired_def accepts_list_def)
qed

subsection \<open>Sets\<close>

text \<open>
  SADD and SREM on a set reply with the number of members that were really added or
  removed (a member given twice counts once) and leave the union and the difference.
\<close>

theorem sadd_srem_count:
  assumes "storage_inv h s" "lookup h s key = Some (Set_v st)"
  shows "fst (cs_sadd h key ms s) = Inr (card (set ms - set (s_members st))) \<and>
    fst (cs_srem h key ms s) = Inr (card (set ms \<inter> set (s_members st))) \<and>
    (\<exists>added removed.
       lookup h (snd (cs_sadd h key ms s)) = (lookup h s)(key \<mapsto> Set_v added) \<and>
       set (s_members added) = set (s_members st) \<union> set ms \<and> set_inv added \<and>
       lookup h (snd (cs_srem h key ms s)) = (lookup h s)(key \<mapsto> Set_v removed) \<and>
       set (s_members removed) = set (s_members st) - set ms \<and> set_inv removed)"
proof -
  have inv: "set_inv st" using storage_inv_entry [OF assms(1), of key] assms(2) by simp
  have s: "sharded h s" using assms(1) by (rule storage_inv_sharded)
  have "fst (cs_sadd h key ms s) = Inr (card (set ms - set (s_members st)))"
    "fst (cs_srem h key ms s) = Inr (card (set ms \<inter> set (s_members st)))"
    "lookup h (snd (cs_sadd h key ms s)) = (lookup h s)(key \<mapsto> Set_v (snd (add_all ms st)))"
    "lookup h (snd (cs_srem h key ms s)) = (lookup h s)(key \<mapsto> Set_v (snd (remove_all ms st)))"
    using assms(2) inv by (simp_all add: cs_sadd_def cs_srem_def split_beta
        sharded_store.find_entry [OF s] add_all_count remove_all_count)
  moreover have "set_inv (snd (add_all ms st))" "set_inv (snd (remove_all ms st))"
    using inv by (simp_all add: value_inv_intros)
  ultimately show ?thesis using add_all_members remove_all_members by blast
qed

theorem sadd_srem_count_witness:
  "fst (cs_sadd (\<lambda>_. 5) ''s'' [''b'', ''c'', ''c''] (one_set ''s'' [''a'', ''b''])) = Inr 1"
proof -
  let ?old = "snd (add_all [''a'', ''b''] set_new)"
  have "fst (cs_sadd (\<lambda>_. 5) ''s'' [''b'', ''c'', ''c''] (one_set ''s'' [''a'', ''b''])) =
      Inr (card (set [''b'', ''c'', ''c''] - set (s_members ?old)))"
    using sadd_srem_count [OF one_set_facts(2,3), where ms = "[''b'', ''c'', ''c'']"] by blast
  moreover have "set [''b'', ''c'', ''c''] - set (s_members ?old) = {''c''}"
    unfolding add_all_members by auto
  ultimately show ?thesis by (simp only: card.insert finite.emptyI empty_iff) simp
qed

definition members_at :: "hasher \<Rightarrow> env \<Rightarrow> storage \<Rightarrow> bytes \<Rightarrow> bytes set" where
  "members_at h E s key = (case lookup h s key of
     Some (Set_v st) \<Rightarrow> if set_is_expired (now E) st then {} else set (s_members st) | _ \<Rightarrow> {})"

definition set_or_missing :: "hasher \<Rightarrow> storage \<Rightarrow> bytes \<Rightarrow> bool" where
  "set_or_missing h s key = (case lookup h s key of None \<Rightarrow> True | Some (Set_v _) \<Rightarrow> True | _ \<Rightarrow> False)"

lemma snapshot_cases:
  assumes "storage_inv h s" "set_or_missing h s key"
  obtains (missing) "snapshot_set h E key s = Inr None" "members_at h E s key = {}"
  | (found) st where "snapshot_set h E key s = Inr (Some st)" "set_inv st"
      "members_at h E s key = set (s_members st)"
proof (cases "lookup h s key")
  case None
  then show ?thesis by (intro missing) (simp_all add: snapshot_set_def read_entry_lookup members_at_def)
next
  case (Some v)
  then obtain st where v: "v = Set_v st"
    using assms(2) by (auto simp: set_or_missing_def split: CacheValue.splits)
  have "set_inv st" using storage_inv_entry [OF assms(1), of key] Some v by simp
  then show ?thesis
    using missing found [of st] Some v
    by (cases "set_is_expired (now E) st")
      (simp_all add: snapshot_set_def read_entry_lookup members_at_def)
qed

lemma get_all_facts:
  assumes "is_order ord" "set_inv st"
  shows "set (set_get_all ord st) = set (s_members st)" "distinct (set_get_all ord st)"
  using assms by (simp_all add: set_get_all_def set_order distinct_order set_inv_def)

lemma set_of_intersection: "is_order ord \<Longrightarrow>
    set (set_intersection ord a b) = set (s_members a) \<inter> set (s_members b)"
  by (auto simp: set_intersection_def set_order)

lemma set_of_difference: "is_order ord \<Longrightarrow>
    set (set_difference ord a b) = set (s_members a) - set (s_members b)"
  by (auto simp: set_difference_def set_order)

definition elements :: "bytes list result \<Rightarrow> bytes set \<Rightarrow> bool" where
  "elements r A \<longleftrightarrow> (\<exists>xs. r = Inr xs \<and> distinct xs \<and> set xs = A)"

lemma elements_get_all:
  "is_order ord \<Longrightarrow> set_inv st \<Longrightarrow> set (s_members st) = A \<Longrightarrow> elements (Inr (set_get_all ord st)) A"
  by (auto simp: elements_def get_all_facts)

lemma sinter_loop_elements:
  assumes "storage_inv h s" "is_order (hash_order E)" "\<forall>k \<in> set keys. set_or_missing h s k" "set_inv r"
  shows "elements (sinter_loop h E s (Some r) keys)
    (set (s_members r) \<inter> (\<Inter>k \<in> set keys. members_at h E s k))"
  using assms(3,4)
proof (induction keys arbitrary: r)
  case Nil
  then show ?case using assms(2) by (simp add: elements_get_all)
next
  case (Cons k keys)
  from Cons.prems have "set_or_missing h s k" by simp
  from assms(1) this show ?case
  proof (cases rule: snapshot_cases [where E = E])
    case missing
    then show ?thesis by (simp add: elements_def)
  next
    case (found st)
    let ?r = "snd (add_all (set_intersection (hash_order E) r st) set_new)"
    have "elements (sinter_loop h E s (Some ?r) keys)
        (set (s_members ?r) \<inter> (\<Inter>k \<in> set keys. members_at h E s k))"
      using Cons.prems by (intro Cons.IH) (simp_all add: value_inv_intros)
    with found show ?thesis by (simp add: set_of_intersection [OF assms(2)] Int_assoc)
  qed
qed

lemma sunion_loop_elements:
  assumes "storage_inv h s" "is_order (hash_order E)" "\<forall>k \<in> set keys. set_or_missing h s k" "set_inv r"
  shows "elements (sunion_loop h E s r keys)
    (set (s_members r) \<union> (\<Union>k \<in> set keys. members_at h E s k))"
  using assms(3,4)
proof (induction keys arbitrary: r)
  case Nil
  then show ?case using assms(2) by (simp add: elements_get_all)
next
  case (Cons k keys)
  from Cons.prems have "set_or_missing h s k" by simp
  from assms(1) this show ?case
  proof (cases rule: snapshot_cases [where E = E])
    case missing
    then show ?thesis using Cons by simp
  next
    case (found st)
    let ?r = "snd (add_all (set_get_all (hash_order E) st) r)"
    have "elements (sunion_loop h E s ?r keys)
        (set (s_members ?r) \<union> (\<Union>k \<in> set keys. members_at h E s k))"
      using Cons.prems by (intro Cons.IH) (simp_all add: value_inv_intros)
    with found show ?thesis by (simp add: get_all_facts [OF assms(2)] Un_assoc)
  qed
qed

lemma sdiff_loop_elements:
  assumes "storage_inv h s" "is_order (hash_order E)" "\<forall>k \<in> set keys. set_or_missing h s k" "set_inv r"
  shows "elements (sdiff_loop h E s r keys)
    (set (s_members r) - (\<Union>k \<in> set keys. members_at h E s k))"
  using assms(3,4)
proof (induction keys arbitrary: r)
  case Nil
  then show ?case using assms(2) by (simp add: elements_get_all)
next
  case (Cons k keys)
  from Cons.prems have "set_or_missing h s k" by simp
  from assms(1) this show ?case
  proof (cases rule: snapshot_cases [where E = E])
    case missing
    then show ?thesis using Cons by simp
  next
    case (found st)
    let ?r = "snd (add_all (set_difference (hash_order E) r st) set_new)"
    have "elements (sdiff_loop h E s ?r keys)
        (set (s_members ?r) - (\<Union>k \<in> set keys. members_at h E s k))"
      using Cons.prems by (intro Cons.IH) (simp_all add: value_inv_intros)
    with found show ?thesis by (simp add: set_of_difference [OF assms(2)] Diff_eq Int_assoc)
  qed
qed

text \<open>
  (C34) SINTER, SUNION and SDIFF over keys that hold sets or nothing reply with the
  intersection, the union and the difference of the live sets, each element once; a missing
  or expired key counts as the empty set.
\<close>

theorem set_algebra:
  assumes "storage_inv h s" "is_order (hash_order E)" "\<forall>k \<in> set (key # keys). set_or_missing h s k"
  shows "elements (cs_sinter h E (key # keys) s) (\<Inter>k \<in> set (key # keys). members_at h E s k) \<and>
    elements (cs_sunion h E (key # keys) s) (\<Union>k \<in> set (key # keys). members_at h E s k) \<and>
    elements (cs_sdiff h E (key # keys) s)
      (members_at h E s key - (\<Union>k \<in> set keys. members_at h E s k))"
proof -
  have keys: "\<forall>k \<in> set keys. set_or_missing h s k" "set_or_missing h s key" using assms(3) by simp_all
  have "elements (cs_sunion h E (key # keys) s) (\<Union>k \<in> set (key # keys). members_at h E s k)"
    using sunion_loop_elements [OF assms set_inv_new] by (simp add: cs_sunion_def)
  moreover from assms(1) keys(2) have
    "elements (cs_sinter h E (key # keys) s) (\<Inter>k \<in> set (key # keys). members_at h E s k) \<and>
     elements (cs_sdiff h E (key # keys) s) (members_at h E s key - (\<Union>k \<in> set keys. members_at h E s k))"
  proof (cases rule: snapshot_cases [where E = E])
    case missing
    then show ?thesis by (simp add: cs_sinter_def cs_sdiff_def elements_def)
  next
    case (found st)
    then show ?thesis
      using sinter_loop_elements [OF assms(1,2) keys(1) found(2)]
        sdiff_loop_elements [OF assms(1,2) keys(1) found(2)]
      by (simp add: cs_sinter_def cs_sdiff_def)
  qed
  ultimately show ?thesis by blast
qed

theorem set_algebra_witness:
  "elements (cs_sinter (\<lambda>_. 5) sample_env [''s'', ''t''] (one_set ''s'' [''a'', ''b''])) {}"
proof -
  have t: "lookup (\<lambda>_. 5) (one_set ''s'' [''a'', ''b'']) ''t'' = None"
    by (simp add: one_set_def cs_sadd_def sharded_store.find_entry)
  have "is_order (hash_order sample_env)" by (simp add: sample_env_def)
  moreover have "\<forall>k \<in> set [''s'', ''t'']. set_or_missing (\<lambda>_. 5) (one_set ''s'' [''a'', ''b'']) k"
    by (simp add: set_or_missing_def one_set_facts t)
  ultimately show ?thesis
    using set_algebra [OF one_set_facts(2), of sample_env "''s''" "[''t'']" "''s''" "[''a'', ''b'']"]
    by (simp add: members_at_def t)
qed

text \<open>
  What the random generator's \<open>choose_multiple\<close> documents: as many different elements of the
  slice as asked for, or all of them when there are fewer.
\<close>

definition sampler_ok :: "env \<Rightarrow> bool" where
  "sampler_ok E \<longleftrightarrow> (\<forall>n xs. length (choose_multiple E n xs) = min n (length xs) \<and>
     mset (choose_multiple E n xs) \<subseteq># mset xs)"

lemma sub_mset_distinct:
  assumes "mset xs \<subseteq># mset ys" "distinct ys"
  shows "set xs \<subseteq> set ys" "distinct xs"
proof -
  show "set xs \<subseteq> set ys" using assms(1) by (metis set_mset_mono set_mset_mset)
  have "count (mset xs) x \<le> 1" for x
    using mset_subset_eq_count [OF assms(1), of x] assms(2)
    by (metis distinct_count_atmost_1 le_trans less_imp_le zero_le_one order_refl)
  then show "distinct xs"
    by (metis count_greater_eq_one_iff distinct_count_atmost_1 le_antisym not_in_iff set_mset_mset)
qed

text \<open>
  SPOP of \<open>count\<close> members from a live set replies with \<open>count\<close> different members (all of
  them if there are fewer), whatever the generator chose, and removes exactly those.
\<close>

theorem spop_removes_reply:
  assumes "storage_inv h s" "lookup h s key = Some (Set_v st)" "\<not> set_is_expired (now E) st"
    "cnt \<le> capacity_limit E" "is_order (hash_order E)" "sampler_ok E"
  shows "\<exists>out st'. fst (cs_spop h E key cnt s) = Some (Inr out) \<and>
    distinct out \<and> set out \<subseteq> set (s_members st) \<and> length out = min cnt (set_len st) \<and>
    lookup h (snd (cs_spop h E key cnt s)) = (lookup h s)(key \<mapsto> Set_v st') \<and>
    set (s_members st') = set (s_members st) - set out"
proof -
  let ?all = "set_get_all (hash_order E) st"
  let ?out = "choose_multiple E cnt ?all"
  have inv: "set_inv st" using storage_inv_entry [OF assms(1), of key] assms(2) by simp
  have s: "sharded h s" using assms(1) by (rule storage_inv_sharded)
  note all = get_all_facts [OF assms(5) inv]
  have sub: "mset ?out \<subseteq># mset ?all" and len: "length ?out = min cnt (length ?all)"
    using assms(6) by (simp_all add: sampler_ok_def)
  have "fst (cs_spop h E key cnt s) = Some (Inr ?out)"
    "lookup h (snd (cs_spop h E key cnt s)) = (lookup h s)(key \<mapsto> Set_v (snd (remove_all ?out st)))"
    using assms(2-4) by (simp_all add: cs_spop_def Let_def sharded_store.find_entry [OF s])
  moreover have "distinct ?out" "set ?out \<subseteq> set (s_members st)"
    using sub_mset_distinct [OF sub all(2)] all(1) by simp_all
  moreover have "length ?out = min cnt (set_len st)"
    using len length_order [OF assms(5)] by (simp add: set_get_all_def set_len_def)
  ultimately show ?thesis using remove_all_members by blast
qed

theorem spop_removes_reply_witness:
  "\<exists>out. fst (cs_spop (\<lambda>_. 5) sample_env ''s'' 1 (one_set ''s'' [''a'', ''b''])) = Some (Inr out) \<and>
     length out = min 1 (set_len (snd (add_all [''a'', ''b''] set_new)))"
proof -
  have "\<not> set_is_expired (now sample_env) (snd (add_all [''a'', ''b''] set_new))"
    by (simp only: set_is_expired_def add_all_expires) (simp add: set_new_def)
  moreover have "1 \<le> capacity_limit sample_env" "is_order (hash_order sample_env)"
    by (simp_all add: sample_env_def)
  moreover have "sampler_ok sample_env"
    using mset_subset_eq_add_left [of "mset (take _ _)" "mset (drop _ _)"]
    by (simp add: sampler_ok_def sample_env_def min.commute)
      (metis append_take_drop_id mset_append mset_subset_eq_add_left)
  ultimately show ?thesis
    using spop_removes_reply [OF one_set_facts(2,3)] by blast
qed

text \<open>
  SMOVE between two different keys, the source a live set with the member: with a
  missing or live destination set the member changes sets; with a destination of another type
  the reply is an error and the member is in neither.
\<close>

theorem smove_moves_or_loses:
  assumes "storage_inv h s" "src \<noteq> dst" "lookup h s src = Some (Set_v st)"
    "\<not> set_is_expired (now E) st" "m \<in> set (s_members st)"
  shows "members_at h E (snd (cs_smove h E src dst m s)) src = set (s_members st) - {m} \<and>
    (if set_or_missing h s dst
     then fst (cs_smove h E src dst m s) = Inr True \<and>
       members_at h E (snd (cs_smove h E src dst m s)) dst = insert m (members_at h E s dst)
     else fst (cs_smove h E src dst m s) = Inl WRONGTYPE \<and>
       lookup h (snd (cs_smove h E src dst m s)) dst = lookup h s dst)"
proof -
  define s1 where "s1 = snd (smove_take h E src m s)"
  have s: "sharded h s" using assms(1) by (rule storage_inv_sharded)
  have take: "smove_take h E src m s = (Inr True, s1)"
    using assms(3-5) by (simp add: s1_def smove_take_def set_remove_def prod_eq_iff)
  have s1: "sharded h s1" by (simp add: s1_def smove_take_def sharded_store.wf_entry [OF s])
  have l1: "lookup h s1 = (lookup h s)(src \<mapsto> Set_v (snd (set_remove m st)))"
    using assms(3-5) by (simp add: s1_def smove_take_def sharded_store.find_entry [OF s] split_beta)
  let ?r = "smove_put h E dst m s1"
  have eq: "cs_smove h E src dst m s =
      (case fst ?r of Inl err \<Rightarrow> (Inl err, snd ?r) | Inr _ \<Rightarrow> (Inr True, snd ?r))"
    unfolding cs_smove_def take by (auto simp: split_beta split: sum.split)
  have src: "lookup h (snd ?r) src = Some (Set_v (snd (set_remove m st)))"
    using assms(2) by (simp add: smove_put_def sharded_store.find_entry [OF s1] l1)
  have r: "fst ?r = (if set_or_missing h s dst then Inr () else Inl WRONGTYPE)"
    using assms(2) by (simp add: smove_put_def l1 set_or_missing_def split: option.split CacheValue.split)
  have dst: "if set_or_missing h s dst then members_at h E (snd ?r) dst = insert m (members_at h E s dst)
      else lookup h (snd ?r) dst = lookup h s dst"
    using assms(2)
    by (auto simp: smove_put_def sharded_store.find_entry [OF s1] l1 set_or_missing_def members_at_def
        set_is_expired_def set_add_def set_new_def split: option.splits CacheValue.splits)
  have "members_at h E (snd ?r) src = set (s_members st) - {m}"
    using assms(4) by (simp add: members_at_def src set_is_expired_def set_remove_def)
  with r dst show ?thesis by (auto simp: eq)
qed

theorem smove_moves_or_loses_witness:
  "fst (cs_smove (\<lambda>_. 5) sample_env ''s'' ''t'' ''a'' (one_set ''s'' [''a'', ''b''])) = Inr True"
proof -
  let ?st = "snd (add_all [''a'', ''b''] set_new)"
  have "set_or_missing (\<lambda>_. 5) (one_set ''s'' [''a'', ''b'']) ''t''"
    by (simp add: set_or_missing_def one_set_def cs_sadd_def sharded_store.find_entry)
  moreover have "\<not> set_is_expired (now sample_env) ?st"
    by (simp only: set_is_expired_def add_all_expires) (simp add: set_new_def)
  moreover have "''a'' \<in> set (s_members ?st)" unfolding add_all_members by simp
  moreover have "''s'' \<noteq> ''t''" by simp
  ultimately show ?thesis
    using smove_moves_or_loses [OF one_set_facts(2) _ one_set_facts(3)] by presburger
qed

subsection \<open>Hashes\<close>

definition hash_or_missing :: "env \<Rightarrow> CacheValue option \<Rightarrow> bool" where
  "hash_or_missing E e = (case e of
     None \<Rightarrow> True | Some (Hash_v hs) \<Rightarrow> \<not> hash_is_expired (now E) hs | _ \<Rightarrow> False)"

text \<open>
  HSET then HGET: on a missing key or a live hash the field has the new value, every
  other field the value it had, and the reply says whether the field is new.
\<close>

theorem hset_then_hget:
  assumes "sharded h s" "hash_or_missing E (lookup h s key)"
  shows "fst (cs_hset h key f v s) = Inr (cs_hget h E key f s = None) \<and>
    cs_hget h E key g (snd (cs_hset h key f v s)) = (if g = f then Some v else cs_hget h E key g s)"
proof (cases "lookup h s key")
  case None
  then show ?thesis
    using assms(1) by (simp add: cs_hset_def cs_hget_def read_entry_lookup get_field_set_field
        hash_is_expired_def set_field_def hash_new_def get_field_def)
next
  case (Some e)
  then obtain hs where "e = Hash_v hs" "\<not> hash_is_expired (now E) hs"
    using assms(2) by (auto simp: hash_or_missing_def split: CacheValue.splits)
  then show ?thesis
    using assms(1) Some by (simp add: cs_hset_def cs_hget_def read_entry_lookup split_beta
        get_field_set_field hash_is_expired_def) (simp add: set_field_def get_field_def)
qed

theorem hset_then_hget_witness:
  "cs_hget (\<lambda>_. 5) sample_env ''h'' ''f'' (snd (cs_hset (\<lambda>_. 5) ''h'' ''f'' ''1'' storage_new)) = Some ''1''"
proof -
  have "hash_or_missing sample_env (lookup (\<lambda>_. 5) storage_new ''h'')" by (simp add: hash_or_missing_def)
  from hset_then_hget [OF sharded_new this, of "''f''" "''1''" "''f''"] show ?thesis by simp
qed

end
