(* ===== verification/Storage_Sorted.thy ===== *)
theory Storage_Sorted
  imports Storage_Collections
begin

text \<open>
  \<open>CacheStorage\<close> (storage.rs), part three: the sorted-set and stream operations. As in
  the other parts, an operation that can panic returns an \<open>option\<close>, \<open>None\<close> for the panic:
  \<open>BTreeMap::range\<close> panics for an inverted range, \<open>Vec::with_capacity\<close> for a capacity that
  cannot be reserved, a slice for an end beyond the vector.
\<close>

subsection \<open>Sorted sets\<close>

definition add_scores :: "(f64 \<times> bytes) list \<Rightarrow> SortedSetValue \<Rightarrow> SortedSetValue" where
  "add_scores members z = fold (\<lambda>(score, member) z. snd (zset_add score member z)) members z"

definition cs_zadd :: "hasher \<Rightarrow> bytes \<Rightarrow> (f64 \<times> bytes) list \<Rightarrow> storage \<Rightarrow> nat result \<times> storage" where
  "cs_zadd h key members = with_entry h key (\<lambda>e. case e of
     Some (SortedSet_v z) \<Rightarrow> (Inr (length members), Some (SortedSet_v (add_scores members z)))
   | Some _ \<Rightarrow> (Inl WRONGTYPE, e)
   | None \<Rightarrow> (Inr (length members), Some (SortedSet_v (add_scores members zset_new))))"

fun zremove_all :: "bytes list \<Rightarrow> SortedSetValue \<Rightarrow> nat \<times> SortedSetValue" where
  "zremove_all [] z = (0, z)"
| "zremove_all (m # rest) z =
     (case zset_remove m z of (hit, z') \<Rightarrow>
        (case zremove_all rest z' of (n, z'') \<Rightarrow> ((if hit then 1 else 0) + n, z'')))"

definition cs_zrem :: "hasher \<Rightarrow> bytes \<Rightarrow> bytes list \<Rightarrow> storage \<Rightarrow> nat result \<times> storage" where
  "cs_zrem h key members = with_entry h key (\<lambda>e. case e of
     Some (SortedSet_v z) \<Rightarrow>
       (case zremove_all members z of (n, z') \<Rightarrow> (Inr n, Some (SortedSet_v z')))
   | Some _ \<Rightarrow> (Inl WRONGTYPE, e)
   | None \<Rightarrow> (Inr 0, e))"

definition cs_zrange ::
    "hasher \<Rightarrow> env \<Rightarrow> bytes \<Rightarrow> int \<Rightarrow> int \<Rightarrow> bool \<Rightarrow> storage \<Rightarrow> (bytes \<times> f64 option) list result" where
  "cs_zrange h E key start stop with_scores = read_entry h key (\<lambda>e. case e of
     Some (SortedSet_v z) \<Rightarrow>
       if \<not> zset_is_expired (now E) z then
         (let len = int (zset_len z);
              start_idx = (if start < 0 then as_usize (max (wrap_i64 (len + start)) 0)
                           else as_usize start);
              stop_idx = (if stop < 0 then as_usize (max (wrap_i64 (len + stop)) 0)
                          else as_usize stop)
          in Inr (zset_get_range (hash_order E) start_idx stop_idx with_scores z))
       else Inr []
   | Some _ \<Rightarrow> Inl WRONGTYPE
   | None \<Rightarrow> Inr [])"

definition cs_zrank :: "hasher \<Rightarrow> env \<Rightarrow> bytes \<Rightarrow> bytes \<Rightarrow> storage \<Rightarrow> nat option result" where
  "cs_zrank h E key member = read_entry h key (\<lambda>e. case e of
     Some (SortedSet_v z) \<Rightarrow> if \<not> zset_is_expired (now E) z then Inr (get_rank member z) else Inr None
   | Some _ \<Rightarrow> Inl WRONGTYPE
   | None \<Rightarrow> Inr None)"

definition cs_zscore :: "hasher \<Rightarrow> env \<Rightarrow> bytes \<Rightarrow> bytes \<Rightarrow> storage \<Rightarrow> f64 option result" where
  "cs_zscore h E key member = read_entry h key (\<lambda>e. case e of
     Some (SortedSet_v z) \<Rightarrow> if \<not> zset_is_expired (now E) z then Inr (get_score member z) else Inr None
   | Some _ \<Rightarrow> Inl WRONGTYPE
   | None \<Rightarrow> Inr None)"

definition cs_zcard :: "hasher \<Rightarrow> env \<Rightarrow> bytes \<Rightarrow> storage \<Rightarrow> nat result" where
  "cs_zcard h E key = read_entry h key (\<lambda>e. case e of
     Some (SortedSet_v z) \<Rightarrow> if \<not> zset_is_expired (now E) z then Inr (zset_len z) else Inr 0
   | Some _ \<Rightarrow> Inl WRONGTYPE
   | None \<Rightarrow> Inr 0)"

definition cs_zcount :: "hasher \<Rightarrow> env \<Rightarrow> bytes \<Rightarrow> f64 \<Rightarrow> f64 \<Rightarrow> storage \<Rightarrow> nat result option" where
  "cs_zcount h E key lo hi = read_entry h key (\<lambda>e. case e of
     Some (SortedSet_v z) \<Rightarrow>
       if \<not> zset_is_expired (now E) z
       then map_option (\<lambda>xs. Inr (length xs))
              (zset_get_range_by_score (hash_order E) lo hi False z)
       else Some (Inr 0)
   | Some _ \<Rightarrow> Some (Inl WRONGTYPE)
   | None \<Rightarrow> Some (Inr 0))"

definition cs_zincr_by :: "hasher \<Rightarrow> env \<Rightarrow> bytes \<Rightarrow> f64 \<Rightarrow> bytes \<Rightarrow> storage \<Rightarrow> f64 result \<times> storage" where
  "cs_zincr_by h E key delta member = with_entry h key (\<lambda>e.
     let fresh = (Inr delta, Some (SortedSet_v (snd (zset_add delta member zset_new))))
     in case e of
          Some (SortedSet_v z) \<Rightarrow>
            if \<not> zset_is_expired (now E) z then
              (let new_score = f64_add E (case get_score member z of None \<Rightarrow> 0 | Some x \<Rightarrow> x) delta
               in (Inr new_score, Some (SortedSet_v (snd (zset_add new_score member z)))))
            else fresh
        | None \<Rightarrow> fresh
        | Some _ \<Rightarrow> (Inl WRONGTYPE, e))"

definition cs_zrange_by_score ::
    "hasher \<Rightarrow> env \<Rightarrow> bytes \<Rightarrow> f64 \<Rightarrow> f64 \<Rightarrow> bool \<Rightarrow> storage \<Rightarrow>
       (bytes \<times> f64 option) list result option" where
  "cs_zrange_by_score h E key lo hi with_scores = read_entry h key (\<lambda>e. case e of
     Some (SortedSet_v z) \<Rightarrow>
       if \<not> zset_is_expired (now E) z
       then map_option Inr (zset_get_range_by_score (hash_order E) lo hi with_scores z)
       else Some (Inl WRONGTYPE)
   | Some _ \<Rightarrow> Some (Inl WRONGTYPE)
   | None \<Rightarrow> Some (Inr []))"

definition cs_zrevrange ::
    "hasher \<Rightarrow> env \<Rightarrow> bytes \<Rightarrow> int \<Rightarrow> int \<Rightarrow> bool \<Rightarrow> storage \<Rightarrow>
       (bytes \<times> f64 option) list result option" where
  "cs_zrevrange h E key start stop with_scores s =
     (case cs_zrange h E key 0 (- 1) with_scores s of
        Inl err \<Rightarrow> Some (Inl err)
      | Inr xs \<Rightarrow>
          (let all = rev xs
           in case trim_bounds (int (length all)) start stop of (st, e) \<Rightarrow>
                if st \<ge> e then Some (Inr [])
                else if e > length all then None
                else Some (Inr (drop st (take e all)))))"

definition cs_zpop_min ::
    "hasher \<Rightarrow> env \<Rightarrow> bytes \<Rightarrow> nat \<Rightarrow> storage \<Rightarrow> (bytes \<times> f64) list result option \<times> storage" where
  "cs_zpop_min h E key cnt = with_entry h key (\<lambda>e. case e of
     Some (SortedSet_v z) \<Rightarrow>
       if \<not> zset_is_expired (now E) z then
         (case pop_min E cnt z of
            None \<Rightarrow> (None, e)
          | Some (out, z') \<Rightarrow> (Some (Inr out), Some (SortedSet_v z')))
       else (Some (Inl WRONGTYPE), e)
   | Some _ \<Rightarrow> (Some (Inl WRONGTYPE), e)
   | None \<Rightarrow> (Some (Inr []), e))"

definition cs_zpop_max ::
    "hasher \<Rightarrow> env \<Rightarrow> bytes \<Rightarrow> nat \<Rightarrow> storage \<Rightarrow> (bytes \<times> f64) list result option \<times> storage" where
  "cs_zpop_max h E key cnt = with_entry h key (\<lambda>e. case e of
     Some (SortedSet_v z) \<Rightarrow>
       if \<not> zset_is_expired (now E) z then
         (case pop_max E cnt z of
            None \<Rightarrow> (None, e)
          | Some (out, z') \<Rightarrow> (Some (Inr out), Some (SortedSet_v z')))
       else (Some (Inl WRONGTYPE), e)
   | Some _ \<Rightarrow> (Some (Inl WRONGTYPE), e)
   | None \<Rightarrow> (Some (Inr []), e))"

subsection \<open>Streams\<close>

definition cs_xadd ::
    "hasher \<Rightarrow> env \<Rightarrow> bytes \<Rightarrow> StreamId option \<Rightarrow> (bytes \<times> bytes) list \<Rightarrow> storage \<Rightarrow>
       StreamId result \<times> storage" where
  "cs_xadd h E key requested_id fvs = with_entry h key (\<lambda>e.
     let fresh = (case stream_add E requested_id fvs stream_new of
                    (Inl err, _) \<Rightarrow> (Inl err, e)
                  | (Inr i, st) \<Rightarrow> (Inr i, Some (Stream_v st)))
     in case e of
          Some (Stream_v st) \<Rightarrow>
            if \<not> stream_is_expired (now E) st
            then (case stream_add E requested_id fvs st of (r, st') \<Rightarrow> (r, Some (Stream_v st')))
            else fresh
        | None \<Rightarrow> fresh
        | Some _ \<Rightarrow> (Inl WRONGTYPE, e))"

definition cs_xlen :: "hasher \<Rightarrow> env \<Rightarrow> bytes \<Rightarrow> storage \<Rightarrow> nat result" where
  "cs_xlen h E key = read_entry h key (\<lambda>e. case e of
     Some (Stream_v st) \<Rightarrow>
       if \<not> stream_is_expired (now E) st then Inr (stream_len st) else Inl WRONGTYPE
   | Some _ \<Rightarrow> Inl WRONGTYPE
   | None \<Rightarrow> Inr 0)"

definition cs_xrange ::
    "hasher \<Rightarrow> env \<Rightarrow> bytes \<Rightarrow> StreamId \<Rightarrow> StreamId \<Rightarrow> nat option \<Rightarrow> storage \<Rightarrow>
       stream_entry list result option" where
  "cs_xrange h E key start end limit = read_entry h key (\<lambda>e. case e of
     Some (Stream_v st) \<Rightarrow>
       if \<not> stream_is_expired (now E) st then map_option Inr (stream_range start end limit st)
       else Some (Inl WRONGTYPE)
   | Some _ \<Rightarrow> Some (Inl WRONGTYPE)
   | None \<Rightarrow> Some (Inr []))"

definition cs_xread ::
    "hasher \<Rightarrow> env \<Rightarrow> bytes \<Rightarrow> StreamId \<Rightarrow> nat option \<Rightarrow> storage \<Rightarrow> stream_entry list result" where
  "cs_xread h E key cursor limit = read_entry h key (\<lambda>e. case e of
     Some (Stream_v st) \<Rightarrow>
       if \<not> stream_is_expired (now E) st then Inr (read_after cursor limit st) else Inl WRONGTYPE
   | Some _ \<Rightarrow> Inl WRONGTYPE
   | None \<Rightarrow> Inr [])"

subsection \<open>The invariant\<close>

lemma zset_inv_add_scores:
  "zset_inv z \<Longrightarrow> list_all (\<lambda>(x, m). not_nan x) members \<Longrightarrow> zset_inv (add_scores members z)"
  unfolding add_scores_def
  by (induction members arbitrary: z) (auto simp: split_beta value_inv_intros)

lemma zset_inv_zremove_all [value_inv_intros]: "zset_inv z \<Longrightarrow> zset_inv (snd (zremove_all ns z))"
proof (induction ns arbitrary: z)
  case (Cons m ns)
  from Cons.IH [OF zset_inv_remove [OF Cons.prems]] show ?case by (simp add: split_beta)
qed simp

lemma cs_zadd_inv:
  "storage_inv h s \<Longrightarrow> list_all (\<lambda>(x, m). not_nan x) members \<Longrightarrow>
     storage_inv h (snd (cs_zadd h k members s))"
  unfolding cs_zadd_def by (rule storage_inv_with_entry)
    (auto simp: zset_inv_add_scores zset_inv_new split: option.splits CacheValue.splits)

lemma cs_zrem_inv [storage_inv_intros]: "storage_inv h s \<Longrightarrow> storage_inv h (snd (cs_zrem h k ns s))"
  unfolding cs_zrem_def by (rule storage_inv_with_entry)
    (auto simp: split_beta value_inv_intros split: option.splits CacheValue.splits)

lemma zset_inv_pop_loop: "zset_inv z \<Longrightarrow> zset_inv (snd (pop_loop nb ord n z))"
proof (induction n arbitrary: z)
  case (Suc n)
  have "zset_inv (snd (pop_loop nb ord n (snd (zset_remove m z))))" for m
    by (rule Suc.IH [OF zset_inv_remove [OF Suc.prems]])
  with Suc.prems show ?case
    by (auto simp: split_beta split: option.split list.split)
qed simp

lemma cs_zpop_min_inv [storage_inv_intros]:
  "storage_inv h s \<Longrightarrow> storage_inv h (snd (cs_zpop_min h E k n s))"
  unfolding cs_zpop_min_def pop_min_def by (rule storage_inv_with_entry)
    (auto simp: split_beta zset_inv_pop_loop split: option.splits CacheValue.splits)

lemma cs_zpop_max_inv [storage_inv_intros]:
  "storage_inv h s \<Longrightarrow> storage_inv h (snd (cs_zpop_max h E k n s))"
  unfolding cs_zpop_max_def pop_max_def by (rule storage_inv_with_entry)
    (auto simp: split_beta zset_inv_pop_loop split: option.splits CacheValue.splits)

text \<open>
  Two operations keep the invariant only for some values already stored: adding to a score
  can give a NaN (\<open>inf + -inf\<close>), and an automatic stream id can wrap.
\<close>

definition zincr_ok :: "env \<Rightarrow> f64 \<Rightarrow> bytes \<Rightarrow> CacheValue option \<Rightarrow> bool" where
  "zincr_ok E delta member e \<longleftrightarrow> not_nan delta \<and>
     (case e of
        Some (SortedSet_v z) \<Rightarrow>
          not_nan (f64_add E (case get_score member z of None \<Rightarrow> 0 | Some x \<Rightarrow> x) delta)
      | _ \<Rightarrow> True)"

definition xadd_ok :: "env \<Rightarrow> StreamId option \<Rightarrow> CacheValue option \<Rightarrow> bool" where
  "xadd_ok E requested e =
     (case e of Some (Stream_v st) \<Rightarrow> auto_id_ok E requested st | _ \<Rightarrow> True)"

lemma cs_zincr_by_inv:
  assumes "storage_inv h s" "zincr_ok E d m (lookup h s k)"
  shows "storage_inv h (snd (cs_zincr_by h E k d m s))"
  unfolding cs_zincr_by_def using assms
  by (intro storage_inv_with_this_entry)
    (auto simp: zincr_ok_def Let_def value_inv_intros split: option.splits CacheValue.splits)

lemma stream_inv_add_new: "stream_inv (snd (stream_add E requested fvs stream_new))"
proof (rule stream_inv_add [OF stream_inv_new])
  show "auto_id_ok E requested stream_new"
    by (simp add: auto_id_ok_def stream_new_def stream_id_min_def)
qed

lemma cs_xadd_inv:
  assumes "storage_inv h s" "xadd_ok E requested (lookup h s k)"
  shows "storage_inv h (snd (cs_xadd h E k requested fvs s))"
proof -
  have "stream_inv st" if "stream_add E requested fvs stream_new = (r, st)" for r st
    using stream_inv_add_new [of E requested fvs] that by simp
  moreover have "stream_inv st'" if "stream_inv st" "auto_id_ok E requested st"
      "stream_add E requested fvs st = (r, st')" for r st st'
    using stream_inv_add [OF that(1,2), of fvs] that(3) by simp
  ultimately show ?thesis
    unfolding cs_xadd_def using assms
    by (intro storage_inv_with_this_entry)
      (auto simp: xadd_ok_def Let_def split: option.splits CacheValue.splits prod.splits sum.splits)
qed

lemma add_scores_expires [simp]: "z_expires_at (add_scores ps z) = z_expires_at z"
  unfolding add_scores_def
  by (induction ps arbitrary: z) (auto simp: zset_add_def split: option.split)

lemma get_score_add_scores:
  "get_score x (add_scores ps z) =
     (case map_of (rev (map (\<lambda>(s, m). (m, s)) ps)) x of Some s \<Rightarrow> Some s | None \<Rightarrow> get_score x z)"
  unfolding add_scores_def
proof (induction ps arbitrary: z)
  case (Cons p ps)
  obtain s m where p: "p = (s, m)" by (cases p)
  show ?case
    using Cons.IH [of "snd (zset_add s m z)"]
    by (auto simp: p get_score_add map_add_def split: option.split)
qed simp

lemma get_score_new [simp]: "get_score x zset_new = None"
  by (simp add: get_score_def zset_new_def)

end
