(* ===== verification/Sorted_Properties.thy ===== *)
theory Sorted_Properties
  imports Storage_Sorted
begin

text \<open>
  What the sorted-set and stream operations of the storage do, stated over \<open>lookup\<close>.
\<close>

subsection \<open>Sorted sets\<close>

definition one_zset :: "bytes \<Rightarrow> (f64 \<times> bytes) list \<Rightarrow> storage" where
  "one_zset k xs = snd (cs_zadd (\<lambda>_. 5) k xs storage_new)"

lemma one_zset_facts:
  assumes "list_all (\<lambda>(x, m). not_nan x) xs"
  shows "storage_inv (\<lambda>_. 5) (one_zset k xs)"
    and "lookup (\<lambda>_. 5) (one_zset k xs) k = Some (SortedSet_v (add_scores xs zset_new))"
    and "\<not> zset_is_expired t (add_scores xs zset_new)"
    and "zset_inv (add_scores xs zset_new)"
  using cs_zadd_inv [OF storage_inv_new assms, of "\<lambda>_. 5" k] zset_inv_add_scores [OF zset_inv_new assms]
  by (simp_all add: one_zset_def cs_zadd_def zset_is_expired_def zset_new_def)

text \<open>
  ZADD then ZSCORE: every member given has the last score given for it, every other
  member the score it had.
\<close>

theorem zadd_then_zscore:
  assumes "sharded h s" "lookup h s key = Some (SortedSet_v z)" "\<not> zset_is_expired (now E) z"
  shows "cs_zscore h E key x (snd (cs_zadd h key ps s)) =
    Inr (case map_of (rev (map (\<lambda>(s, m). (m, s)) ps)) x of Some sc \<Rightarrow> Some sc | None \<Rightarrow> get_score x z)"
  using assms by (simp add: cs_zscore_def cs_zadd_def read_entry_lookup zset_is_expired_def
      get_score_add_scores)

lemma not_nan_small [simp]: "not_nan 0" "not_nan 1" "not_nan 2" "not_nan 3"
  by (simp_all add: f64_is_nan_def f64_mag_def)

theorem zadd_then_zscore_witness:
  "cs_zscore (\<lambda>_. 5) sample_env ''z'' ''b'' (snd (cs_zadd (\<lambda>_. 5) ''z'' [(2, ''b''), (3, ''b'')] (one_zset ''z'' [(1, ''a'')]))) =
     Inr (Some 3)"
proof -
  have "list_all (\<lambda>(x, m). not_nan x) [(1 :: f64, ''a'')]" by simp
  note f = one_zset_facts [OF this]
  show ?thesis using zadd_then_zscore [OF storage_inv_sharded [OF f(1)] f(2) f(3)] by simp
qed

text \<open>
  The entries of a sorted set in the order it is iterated, for an arbitrary order inside one
  score: scores ascending, each member once, with its score up to the sign of zero.
\<close>

definition ranked_entries :: "SortedSetValue \<Rightarrow> (bytes \<times> f64) list \<Rightarrow> bool" where
  "ranked_entries z es \<longleftrightarrow>
     sorted (map (\<lambda>e. f64_rank (snd e)) es) \<and> distinct (map fst es) \<and> length es = zset_len z \<and>
     (\<forall>m r. (\<exists>s. (m, s) \<in> set es \<and> f64_rank s = r) \<longleftrightarrow> (\<exists>s. get_score m z = Some s \<and> f64_rank s = r))"

lemma zset_entries_ranked:
  assumes "zset_inv z" "is_order ord"
  shows "ranked_entries z (zset_entries ord z)"
proof -
  have "bl_ordered not_nan f64_rank (bt_list (members_by_score z))"
    using zset_inv_D(1) [OF assms(1)] by (simp add: buckets_ok_def)
  then have "sorted (map (\<lambda>e. f64_rank (snd e)) (zset_entries ord z))"
    unfolding zset_entries_def using sorted_entries_of [OF assms(2)] by blast
  then show ?thesis
    using zset_entries_members [OF assms] zset_entries_iff [OF assms] by (simp add: ranked_entries_def)
qed

lemma index_slice:
  assumes "fits xs" "in_i64 start" "in_i64 stop" "- int (length xs) \<le> stop"
  shows "drop (if start < 0 then as_usize (max (wrap_i64 (int (length xs) + start)) 0) else as_usize start)
      (take (Suc (if stop < 0 then as_usize (max (wrap_i64 (int (length xs) + stop)) 0) else as_usize stop)) xs) =
    redis_slice start stop xs"
proof -
  define len where "len = int (length xs)"
  have len: "0 \<le> len" "len < 2 ^ 63" using assms(1) by (simp_all add: len_def fits_int)
  have w: "wrap_i64 (len + start) = len + start" if "start < 0"
    using that assms(2) len by (intro wrap_i64_id) (auto simp: in_i64_def)
  have w1: "wrap_i64 (len + stop) = len + stop" if "stop < 0"
    using that assms(3) len by (intro wrap_i64_id) (auto simp: in_i64_def)
  define si where "si = (if start < 0 then max (len + start) 0 else start)"
  define ei where "ei = (if stop < 0 then len + stop else stop)"
  have si: "0 \<le> si" "si < 2 ^ 63" and ei: "0 \<le> ei" "ei < 2 ^ 63"
    using len assms(2-4) by (auto simp: si_def ei_def in_i64_def len_def)
  have s: "(if start < 0 then as_usize (max (wrap_i64 (len + start)) 0) else as_usize start) = nat si"
    using w si unfolding si_def by (auto simp: as_usize_bounded)
  have e: "(if stop < 0 then as_usize (max (wrap_i64 (len + stop)) 0) else as_usize stop) = nat ei"
    using w1 ei unfolding ei_def by (auto simp: as_usize_bounded)
  define hi where "hi = min (len - 1) ei"
  have rhs: "redis_slice start stop xs =
      (if si > hi then [] else take (nat (hi - si + 1)) (drop (nat si) xs))"
    by (simp add: redis_slice_def Let_def si_def ei_def hi_def len_def [symmetric] max.commute
        cong: if_cong)
  have take: "take (Suc (nat ei)) xs = take (nat (hi + 1)) xs"
    using ei len by (cases "ei \<le> len - 1") (auto simp: hi_def min_def Suc_nat_eq_nat_zadd1 len_def add.commute)
  show ?thesis
  proof (cases "si > hi")
    case True
    then have "nat (hi + 1) \<le> nat si" by (simp add: nat_mono)
    then show ?thesis unfolding len_def [symmetric] s e take rhs using True by simp
  next
    case False
    then have "nat (hi + 1) - nat si = nat (hi - si + 1)" using si by (simp add: nat_diff_distrib' algebra_simps)
    then show ?thesis unfolding len_def [symmetric] s e take rhs using False by (simp add: drop_take)
  qed
qed

text \<open>
  (C33) ZRANGE on a live sorted set is the slice Redis documents of its entries in ascending
  score order, for every stop that does not point before the first entry.
\<close>

theorem zrange_is_sorted_slice:
  assumes "storage_inv h s" "lookup h s key = Some (SortedSet_v z)" "\<not> zset_is_expired (now E) z"
    "is_order (hash_order E)" "zset_len z < 2 ^ 63" "in_i64 start" "in_i64 stop" "- int (zset_len z) \<le> stop"
  shows "\<exists>es. ranked_entries z es \<and>
    cs_zrange h E key start stop ws s = Inr (map (with_score ws) (redis_slice start stop es))"
proof -
  have z: "zset_inv z" using storage_inv_entry [OF assms(1), of key] assms(2) by simp
  let ?es = "zset_entries (hash_order E) z"
  have len: "length ?es = zset_len z" by (rule zset_entries_members(3) [OF z assms(4)])
  have "fits ?es" using assms(5) by (simp add: fits_def len)
  note sl = index_slice [OF this assms(6,7), unfolded len, OF assms(8)]
  have "cs_zrange h E key start stop ws s = Inr (map (with_score ws) (redis_slice start stop ?es))"
    unfolding sl [symmetric] using assms(2,3)
    by (simp add: cs_zrange_def read_entry_lookup zset_get_range_def Let_def range_loop_slice)
  with zset_entries_ranked [OF z assms(4)] show ?thesis by blast
qed

theorem zrange_is_sorted_slice_witness:
  "\<exists>es. ranked_entries (add_scores [(2, ''b''), (1, ''a'')] zset_new) es \<and>
     cs_zrange (\<lambda>_. 5) sample_env ''z'' 0 (- 1) False (one_zset ''z'' [(2, ''b''), (1, ''a'')]) =
       Inr (map (with_score False) (redis_slice 0 (- 1) es))"
proof -
  have "list_all (\<lambda>(x, m). not_nan x) [(2 :: f64, ''b''), (1, ''a'')]" by simp
  note f = one_zset_facts [OF this]
  have "is_order (hash_order sample_env)" by (simp add: sample_env_def)
  moreover have "zset_len (add_scores [(2, ''b''), (1, ''a'')] zset_new) = 2"
    by (simp add: add_scores_def zset_len_def zset_add_def zset_new_def)
  ultimately show ?thesis
    using zrange_is_sorted_slice [OF f(1,2,3), where start = 0 and stop = "- 1"] by (simp add: in_i64_def)
qed

text \<open>
  ZRANGE with a stop before the first entry of a non-empty sorted set returns the first
  entry when it starts there; Redis documents an empty reply.
\<close>

theorem zrange_stop_before_first:
  assumes "lookup h s key = Some (SortedSet_v z)" "\<not> zset_is_expired (now E) z"
    "zset_inv z" "is_order (hash_order E)" "zset_len z < 2 ^ 63" "in_i64 stop" "stop < - int (zset_len z)"
  shows "cs_zrange h E key 0 stop ws s =
      Inr (map (with_score ws) (take 1 (zset_entries (hash_order E) z))) \<and>
    redis_slice 0 stop (zset_entries (hash_order E) z) = []"
proof -
  have "int (zset_len z) < 2 ^ 63" using assms(5) by (simp add: int_less_i64)
  then have "wrap_i64 (int (zset_len z) + stop) = int (zset_len z) + stop"
    using assms(6,7) by (intro wrap_i64_id) (auto simp: in_i64_def)
  then have "cs_zrange h E key 0 stop ws s =
      Inr (map (with_score ws) (take 1 (zset_entries (hash_order E) z)))"
    using assms(1,2,7)
    by (simp add: cs_zrange_def read_entry_lookup zset_get_range_def range_loop_slice as_usize_def)
  moreover have "redis_slice 0 stop (zset_entries (hash_order E) z) = []"
    using assms(7) zset_entries_members(3) [OF assms(3,4)] by (simp add: redis_slice_def)
  ultimately show ?thesis by blast
qed

theorem zrange_stop_before_first_witness:
  "cs_zrange (\<lambda>_. 5) sample_env ''z'' 0 (- 10) False (one_zset ''z'' [(1, ''a'')]) = Inr [(''a'', None)]"
proof -
  have "list_all (\<lambda>(x, m). not_nan x) [(1 :: f64, ''a'')]" by simp
  note f = one_zset_facts [OF this]
  have "is_order (hash_order sample_env)" by (simp add: sample_env_def)
  moreover have "add_scores [(1, ''a'')] zset_new = \<lparr>members_by_score = \<lparr>bt_rooted = True, bt_list = [(1, [''a''])]\<rparr>,
      member_scores = [(''a'', 1)], z_expires_at = None\<rparr>"
    by (simp add: add_scores_def zset_add_def zset_new_def link_def bt_new_def bt_get_def bt_insert_def)
  ultimately show ?thesis
    using zrange_stop_before_first [OF f(2,3,4), where stop = "- 10" and ws = False]
    by (simp add: zset_len_def in_i64_def zset_entries_def entries_of_def with_score_def sample_env_def)
qed

text \<open>
  ZRANK of a member of a live sorted set is the number of members that come before it:
  a lower score, or the same score and a smaller name.
\<close>

theorem zrank_counts_before:
  assumes "storage_inv h s" "lookup h s key = Some (SortedSet_v z)" "\<not> zset_is_expired (now E) z"
    "get_score m z = Some sc"
  shows "cs_zrank h E key m s = Inr (Some (card {x. \<exists>sx. get_score x z = Some sx \<and>
    (f64_rank sx < f64_rank sc \<or> f64_rank sx = f64_rank sc \<and> x < m)}))"
proof -
  have z: "zset_inv z" using storage_inv_entry [OF assms(1), of key] assms(2) by simp
  note D = zset_inv_D [OF z]
  let ?xs = "bt_list (members_by_score z)"
  have m: "map_of (member_scores z) m = Some sc" using assms(4) by (simp add: get_score_def)
  have "rank_loop sc m 0 ?xs = Some (0 + card (before ?xs (f64_rank sc) m))"
  proof (rule rank_loop_before)
    show "not_nan sc" using D(3) m by blast
    show "buckets_ok ?xs" by (rule D(1))
    show "r = r'" if "in_bucket ?xs x r" "in_bucket ?xs x r'" for x r r'
      using that unfolding D(4) by auto
    show "in_bucket ?xs m (f64_rank sc)" unfolding D(4) using m by blast
  qed
  moreover have "before ?xs (f64_rank sc) m = {x. \<exists>sx. get_score x z = Some sx \<and>
      (f64_rank sx < f64_rank sc \<or> f64_rank sx = f64_rank sc \<and> x < m)}"
    unfolding before_def D(4) get_score_def by blast
  ultimately show ?thesis
    using assms(2,3) m by (simp add: cs_zrank_def read_entry_lookup get_rank_def)
qed

theorem zrank_counts_before_witness:
  "cs_zrank (\<lambda>_. 5) sample_env ''z'' ''b'' (one_zset ''z'' [(2, ''b''), (1, ''a'')]) = Inr (Some 1)"
proof -
  have "list_all (\<lambda>(x, m). not_nan x) [(2 :: f64, ''b''), (1, ''a'')]" by simp
  note f = one_zset_facts [OF this]
  let ?z = "add_scores [(2 :: f64, ''b''), (1, ''a'')] zset_new"
  have g: "get_score x ?z = (if x = ''a'' then Some 1 else if x = ''b'' then Some 2 else None)" for x
    by (simp add: get_score_add_scores)
  have "{x. \<exists>sx. get_score x ?z = Some sx \<and>
      (f64_rank sx < f64_rank 2 \<or> f64_rank sx = f64_rank 2 \<and> x < ''b'')} = {''a''}"
    by (auto simp: g f64_rank_def f64_mag_def)
  then show ?thesis using zrank_counts_before [OF f(1,2,3), where m = "''b''" and sc = 2] g by simp
qed

text \<open>
  ZPOPMIN and ZPOPMAX on a live sorted set reply with the lowest (highest) scoring
  members in order, as many as asked for or all there are, and remove exactly those.
\<close>

theorem zpop_takes_extremes:
  assumes "storage_inv h s" "lookup h s key = Some (SortedSet_v z)" "\<not> zset_is_expired (now E) z"
    "is_order (hash_order E)" "cnt \<le> capacity_limit E"
  shows "\<exists>lo z_lo hi z_hi.
    fst (cs_zpop_min h E key cnt s) = Some (Inr lo) \<and> pops 1 cnt z lo z_lo \<and>
    lookup h (snd (cs_zpop_min h E key cnt s)) = (lookup h s)(key \<mapsto> SortedSet_v z_lo) \<and>
    fst (cs_zpop_max h E key cnt s) = Some (Inr hi) \<and> pops (- 1) cnt z hi z_hi \<and>
    lookup h (snd (cs_zpop_max h E key cnt s)) = (lookup h s)(key \<mapsto> SortedSet_v z_hi)"
proof -
  have z: "zset_inv z" using storage_inv_entry [OF assms(1), of key] assms(2) by simp
  have s: "sharded h s" using assms(1) by (rule storage_inv_sharded)
  have "fst (cs_zpop_min h E key cnt s) = Some (Inr (fst (pop_loop first_bucket (hash_order E) cnt z)))"
    "fst (cs_zpop_max h E key cnt s) = Some (Inr (fst (pop_loop last_bucket (hash_order E) cnt z)))"
    "lookup h (snd (cs_zpop_min h E key cnt s)) =
      (lookup h s)(key \<mapsto> SortedSet_v (snd (pop_loop first_bucket (hash_order E) cnt z)))"
    "lookup h (snd (cs_zpop_max h E key cnt s)) =
      (lookup h s)(key \<mapsto> SortedSet_v (snd (pop_loop last_bucket (hash_order E) cnt z)))"
    using assms(2,3,5) by (simp_all add: cs_zpop_min_def cs_zpop_max_def pop_min_def pop_max_def
        split_beta sharded_store.find_entry [OF s])
  with pop_loop_pops [OF extremal_first assms(4) z] pop_loop_pops [OF extremal_last assms(4) z]
  show ?thesis by blast
qed

theorem zpop_takes_extremes_witness:
  "\<exists>lo z_lo. fst (cs_zpop_min (\<lambda>_. 5) sample_env ''z'' 1 (one_zset ''z'' [(2, ''b''), (1, ''a'')])) = Some (Inr lo) \<and>
     pops 1 1 (add_scores [(2, ''b''), (1, ''a'')] zset_new) lo z_lo"
proof -
  have "list_all (\<lambda>(x, m). not_nan x) [(2 :: f64, ''b''), (1, ''a'')]" by simp
  note f = one_zset_facts [OF this]
  have "is_order (hash_order sample_env)" "1 \<le> capacity_limit sample_env"
    by (simp_all add: sample_env_def)
  with zpop_takes_extremes [OF f(1,2,3)] show ?thesis by blast
qed

definition in_scores :: "f64 \<Rightarrow> f64 \<Rightarrow> f64 \<Rightarrow> bool" where
  "in_scores lo hi s \<longleftrightarrow> f64_rank lo \<le> f64_rank s \<and> f64_rank s \<le> f64_rank hi"

lemma entries_of_filter:
  "entries_of ord (filter (\<lambda>e. P (fst e)) xs) = filter (\<lambda>e. P (snd e)) (entries_of ord xs)"
  by (induction xs) (auto simp: entries_of_def filter_map comp_def)

lemma range_by_score_entries:
  assumes "zset_inv z" "not_nan lo" "not_nan hi"
  shows "zset_get_range_by_score ord lo hi ws z =
    (if bt_rooted (members_by_score z) \<and> f64_rank hi < f64_rank lo then None
     else Some (map (with_score ws) (filter (\<lambda>e. in_scores lo hi (snd e)) (zset_entries ord z))))"
proof -
  have "bl_ordered not_nan f64_rank (bt_list (members_by_score z))"
    using zset_inv_D(1) [OF assms(1)] by (simp add: buckets_ok_def)
  from score_order.range_filter [OF this assms(2,3)] show ?thesis
    using entries_of_filter [of ord "in_scores lo hi" "bt_list (members_by_score z)"]
    by (simp add: zset_get_range_by_score_def zset_entries_def in_scores_def)
qed

text \<open>
  ZRANGEBYSCORE and ZCOUNT on a live sorted set that ever had a member, with bounds that
  are numbers: exactly the members with a score in the inclusive range, and a panic when the
  bounds are inverted.
\<close>

theorem range_by_score_exact:
  assumes "storage_inv h s" "lookup h s key = Some (SortedSet_v z)" "\<not> zset_is_expired (now E) z"
    "is_order (hash_order E)" "not_nan lo" "not_nan hi" "bt_rooted (members_by_score z)"
  shows "if f64_rank hi < f64_rank lo
    then cs_zrange_by_score h E key lo hi ws s = None \<and> cs_zcount h E key lo hi s = None
    else \<exists>es. ranked_entries z es \<and>
      cs_zrange_by_score h E key lo hi ws s =
        Some (Inr (map (with_score ws) (filter (\<lambda>e. in_scores lo hi (snd e)) es))) \<and>
      cs_zcount h E key lo hi s =
        Some (Inr (card {m. \<exists>sc. get_score m z = Some sc \<and> in_scores lo hi sc}))"
proof -
  have z: "zset_inv z" using storage_inv_entry [OF assms(1), of key] assms(2) by simp
  let ?es = "zset_entries (hash_order E) z"
  note r = zset_entries_ranked [OF z assms(4)]
  have fst: "fst ` {e \<in> set ?es. in_scores lo hi (snd e)} =
      {m. \<exists>sc. get_score m z = Some sc \<and> in_scores lo hi sc}"
  proof -
    have "m \<in> fst ` {e \<in> set ?es. in_scores lo hi (snd e)} \<longleftrightarrow>
        (\<exists>q. f64_rank lo \<le> q \<and> q \<le> f64_rank hi \<and> (\<exists>sc. (m, sc) \<in> set ?es \<and> f64_rank sc = q))" for m
      by (force simp: in_scores_def)
    then show ?thesis
      using r unfolding ranked_entries_def in_scores_def set_eq_iff mem_Collect_eq by simp blast
  qed
  have "length (filter (\<lambda>e. in_scores lo hi (snd e)) ?es) =
      card (fst ` {e \<in> set ?es. in_scores lo hi (snd e)})"
    using r distinct_card [of "map fst (filter (\<lambda>e. in_scores lo hi (snd e)) ?es)"]
    by (simp add: ranked_entries_def distinct_map_filter)
  then show ?thesis
    using assms(2,3,7) r fst range_by_score_entries [OF z assms(5,6)]
    by (auto simp: cs_zrange_by_score_def cs_zcount_def read_entry_lookup)
qed

theorem range_by_score_exact_witness:
  "cs_zcount (\<lambda>_. 5) sample_env ''z'' 2 1 (one_zset ''z'' [(1, ''a'')]) = None"
proof -
  have "list_all (\<lambda>(x, m). not_nan x) [(1 :: f64, ''a'')]" by simp
  note f = one_zset_facts [OF this]
  have "is_order (hash_order sample_env)" by (simp add: sample_env_def)
  moreover have "bt_rooted (members_by_score (add_scores [(1, ''a'')] zset_new))"
    by (simp add: add_scores_def zset_add_def zset_new_def link_def bt_new_def bt_get_def bt_insert_def)
  moreover have "f64_rank 1 < f64_rank 2" by (simp add: f64_rank_def f64_mag_def)
  ultimately show ?thesis
    using range_by_score_exact [OF f(1,2,3), where lo = 2 and hi = 1] by simp
qed

subsection \<open>Streams\<close>

definition one_stream :: "bytes \<Rightarrow> StreamId \<Rightarrow> (bytes \<times> bytes) list \<Rightarrow> storage" where
  "one_stream k i fvs = snd (cs_xadd (\<lambda>_. 5) sample_env k (Some i) fvs storage_new)"

definition one_entry :: "StreamId \<Rightarrow> (bytes \<times> bytes) list \<Rightarrow> StreamValue" where
  "one_entry i fvs = \<lparr>st_entries = \<lparr>bt_rooted = True, bt_list = [(i, fvs)]\<rparr>, last_id = i, st_expires_at = None\<rparr>"

lemma one_stream_facts:
  assumes "stream_id_min < i"
  shows "storage_inv (\<lambda>_. 5) (one_stream k i fvs)"
    and "lookup (\<lambda>_. 5) (one_stream k i fvs) k = Some (Stream_v (one_entry i fvs))"
    and "\<not> stream_is_expired t (one_entry i fvs)"
  using assms cs_xadd_inv [OF storage_inv_new, of sample_env "Some i" "\<lambda>_. 5" k fvs]
  by (simp_all add: one_stream_def one_entry_def xadd_ok_def cs_xadd_def stream_add_def stream_new_def Let_def
      stream_is_expired_def bt_new_def bt_insert_def linorder_not_le [symmetric])

text \<open>
  XADD on a live stream either rejects an explicit id that is not above the last one,
  and changes nothing, or appends the entry at the end under an id above every earlier one
  (the requested one if there was a request).
\<close>

theorem xadd_appends:
  assumes "storage_inv h s" "lookup h s key = Some (Stream_v st)" "\<not> stream_is_expired (now E) st"
    "auto_id_ok E requested st"
  shows "if \<exists>i. requested = Some i \<and> i \<le> last_id st
    then cs_xadd h E key requested fvs s = (Inl xadd_error, s)
    else \<exists>i st'. fst (cs_xadd h E key requested fvs s) = Inr i \<and> last_id st < i \<and>
      (requested = None \<or> requested = Some i) \<and>
      lookup h (snd (cs_xadd h E key requested fvs s)) = (lookup h s)(key \<mapsto> Stream_v st') \<and>
      bt_list (st_entries st') = bt_list (st_entries st) @ [(i, fvs)] \<and>
      (\<forall>e \<in> set (bt_list (st_entries st)). fst e < i) \<and> last_id st' = i"
proof -
  have inv: "stream_inv st" using storage_inv_entry [OF assms(1), of key] assms(2) by simp
  have s: "sharded h s" using assms(1) by (rule storage_inv_sharded)
  from assms(4) show ?thesis
  proof (cases rule: stream_add_cases [where fvs = fvs])
    case (rejected i)
    have "fst (cs_xadd h E key requested fvs s) = Inl xadd_error"
      using assms(2,3) rejected by (simp add: cs_xadd_def Let_def)
    moreover have "snd (cs_xadd h E key requested fvs s) = s"
      unfolding cs_xadd_def using assms(2,3) rejected
      by (intro sharded_store.entry_unchanged [OF s]) (simp add: Let_def)
    ultimately show ?thesis using rejected by (simp add: prod_eq_iff)
  next
    case (stored i)
    have "\<forall>e \<in> set (bt_list (st_entries st)). fst e < i"
      using inv stored(1) by (auto simp: stream_inv_def)
    moreover have "\<not> (\<exists>i. requested = Some i \<and> i \<le> last_id st)" using stored(1,2) by auto
    moreover have "fst (cs_xadd h E key requested fvs s) = Inr i"
      "lookup h (snd (cs_xadd h E key requested fvs s)) = (lookup h s)(key \<mapsto> Stream_v
        (st\<lparr>st_entries := bt_insert stream_id_cmp i fvs (st_entries st), last_id := i\<rparr>))"
      using assms(2,3) stored(3) by (simp_all add: cs_xadd_def Let_def sharded_store.find_entry [OF s])
    moreover have "bt_list (st_entries (st\<lparr>st_entries := bt_insert stream_id_cmp i fvs (st_entries st), last_id := i\<rparr>)) =
        bt_list (st_entries st) @ [(i, fvs)]"
      "last_id (st\<lparr>st_entries := bt_insert stream_id_cmp i fvs (st_entries st), last_id := i\<rparr>) = i"
      using stream_add_appends [OF inv stored(1), of fvs] by simp_all
    ultimately show ?thesis using stored(1,2) unfolding if_not_P [OF \<open>\<not> (\<exists>i. _ i)\<close>] by blast
  qed
qed

theorem xadd_appends_witness:
  "cs_xadd (\<lambda>_. 5) sample_env ''x'' (Some (StreamId 3 0)) [] (one_stream ''x'' (StreamId 7 1) []) =
     (Inl xadd_error, one_stream ''x'' (StreamId 7 1) [])"
proof -
  have "stream_id_min < StreamId 7 1" by (simp add: stream_id_min_def less_StreamId_def)
  note f = one_stream_facts [OF this]
  have "auto_id_ok sample_env (Some (StreamId 3 0)) (one_entry (StreamId 7 1) [])"
    by (simp add: auto_id_ok_def)
  moreover have "StreamId 3 0 \<le> last_id (one_entry (StreamId 7 1) [])"
    by (simp add: one_entry_def less_eq_StreamId_def)
  ultimately show ?thesis using xadd_appends [OF f, where requested = "Some (StreamId 3 0)"] by auto
qed

text \<open>
  XADD with an automatic id after an entry whose sequence number is the largest one:
  while the clock has not passed that entry's millisecond, the sequence number wraps to 0 and
  the new id is below the last one, against the order a stream promises.
\<close>

theorem xadd_auto_id_wraps:
  assumes "sharded h s" "lookup h s key = Some (Stream_v st)" "\<not> stream_is_expired (now E) st"
    "id_seq (last_id st) = - 1" "word_of_nat (unix_ms E) \<le> id_ms (last_id st)"
  shows "fst (cs_xadd h E key None fvs s) = Inr (StreamId (id_ms (last_id st)) 0) \<and>
    StreamId (id_ms (last_id st)) 0 < last_id st"
proof
  have "\<not> id_ms (last_id st) < word_of_nat (unix_ms E)" using assms(5) by (simp add: linorder_not_less)
  then show "fst (cs_xadd h E key None fvs s) = Inr (StreamId (id_ms (last_id st)) 0)"
    using assms(2-4) by (simp add: cs_xadd_def Let_def stream_add_def split_beta)
  have "(0 :: 64 word) < - 1" by (simp only: word_gt_0) simp
  then show "StreamId (id_ms (last_id st)) 0 < last_id st"
    using assms(4) by (cases "last_id st") (simp add: less_StreamId_def)
qed

theorem xadd_auto_id_wraps_witness:
  "fst (cs_xadd (\<lambda>_. 5) sample_env ''x'' None [] (one_stream ''x'' (StreamId 9000 (- 1)) [])) =
     Inr (StreamId 9000 0)"
proof -
  have "stream_id_min < StreamId 9000 (- 1)" by (simp add: stream_id_min_def less_StreamId_def)
  note f = one_stream_facts [OF this]
  show ?thesis
    using xadd_auto_id_wraps [OF storage_inv_sharded [OF f(1)] f(2,3), where E = sample_env and fvs = "[]"]
    by (simp add: one_entry_def sample_env_def word_le_nat_alt)
qed

text \<open>
  XRANGE on a live stream replies with the entries whose id is in the inclusive range,
  in order, up to the limit, and panics for an inverted range once the stream has had an
  entry; XREAD replies with the entries after the cursor. A limit of zero counts as one.
\<close>

theorem xrange_xread_filter:
  assumes "storage_inv h s" "lookup h s key = Some (Stream_v st)" "\<not> stream_is_expired (now E) st"
  shows "cs_xrange h E key start stop limit s =
      (if bt_rooted (st_entries st) \<and> stop < start then None
       else Some (Inr (limited limit
         (filter (\<lambda>e. start \<le> fst e \<and> fst e \<le> stop) (bt_list (st_entries st)))))) \<and>
    cs_xread h E key cursor limit s =
      Inr (limited limit (filter (\<lambda>e. cursor < fst e) (bt_list (st_entries st))))"
proof -
  have "stream_inv st" using storage_inv_entry [OF assms(1), of key] assms(2) by simp
  then show ?thesis
    using assms(2,3) by (simp add: cs_xrange_def cs_xread_def read_entry_lookup
        stream_range_filter read_after_filter)
qed

theorem xrange_xread_filter_witness:
  "cs_xread (\<lambda>_. 5) sample_env ''x'' (StreamId 7 0) None (one_stream ''x'' (StreamId 7 1) []) =
     Inr [(StreamId 7 1, [])]"
proof -
  have "stream_id_min < StreamId 7 1" by (simp add: stream_id_min_def less_StreamId_def)
  note f = one_stream_facts [OF this]
  show ?thesis
    using xrange_xread_filter [OF f, where cursor = "StreamId 7 0" and limit = None]
    by (simp add: one_entry_def limited_def less_StreamId_def)
qed

end
