(* ===== verification/Resp.thy ===== *)
theory Resp
  imports Rust_Prelude
begin

text \<open>
  The RESP codec (protocol.rs): values, the incremental parser and the serializer, and the
  replies built on them. The parser reads the bytes after the cursor and returns the value
  with the bytes left; \<open>Failed\<close> is an \<open>Err\<close> and \<open>Panicked\<close> the panic of
  \<open>Vec::with_capacity\<close> when an array announces more elements than can be reserved (\<open>cap\<close>).
\<close>

datatype RespValue =
    SimpleString bytes
  | RespError bytes
  | RespInteger int
  | BulkString "bytes option"
  | RespArray "RespValue list"

text \<open>
  An error is its text, except that three messages quote a value in Rust's debug format,
  which is third-party for \<open>Bytes\<close>: those keep the value.
\<close>

datatype proto_error =
    Msg bytes
  | Expected_bulk RespValue
  | Expected_integer RespValue
  | Expected_float RespValue

datatype 'a parsed = Parsed 'a bytes | Failed proto_error | Panicked

definition CRLF :: bytes where "CRLF = [CHR 0x0D, CHR 0x0A]"

text \<open>\<open>marker as char\<close>, as it is printed: a byte above 127 is a two-byte character.\<close>

definition latin1_utf8 :: "char \<Rightarrow> bytes" where
  "latin1_utf8 c =
     (let n = of_char c :: nat
      in if n < 128 then [c] else [char_of (192 + n div 64), char_of (128 + n mod 64)])"

fun scan_line :: "bytes \<Rightarrow> (bytes \<times> bytes) option" where
  "scan_line (c # d # cs) =
     (if c = CHR 0x0D \<and> d = CHR 0x0A then Some ([], cs)
      else map_option (\<lambda>(l, r). (c # l, r)) (scan_line (d # cs)))"
| "scan_line _ = None"

definition read_line :: "bytes \<Rightarrow> bytes parsed" where
  "read_line buf =
     (case scan_line buf of
        None \<Rightarrow> Failed (Msg ''Incomplete line'')
      | Some (line, rest) \<Rightarrow> Parsed (utf8_lossy line) rest)"

definition parse_simple_string :: "bytes \<Rightarrow> RespValue parsed" where
  "parse_simple_string buf =
     (case read_line buf of
        Parsed line rest \<Rightarrow> Parsed (SimpleString line) rest
      | Failed e \<Rightarrow> Failed e | Panicked \<Rightarrow> Panicked)"

definition parse_error :: "bytes \<Rightarrow> RespValue parsed" where
  "parse_error buf =
     (case read_line buf of
        Parsed line rest \<Rightarrow> Parsed (RespError line) rest
      | Failed e \<Rightarrow> Failed e | Panicked \<Rightarrow> Panicked)"

definition parse_integer :: "bytes \<Rightarrow> RespValue parsed" where
  "parse_integer buf =
     (case read_line buf of
        Parsed line rest \<Rightarrow>
          (case parse_i64 line of
             None \<Rightarrow> Failed (Msg (''Invalid integer: '' @ line))
           | Some num \<Rightarrow> Parsed (RespInteger num) rest)
      | Failed e \<Rightarrow> Failed e | Panicked \<Rightarrow> Panicked)"

definition parse_bulk_string :: "bytes \<Rightarrow> RespValue parsed" where
  "parse_bulk_string buf =
     (case read_line buf of
        Parsed line rest \<Rightarrow>
          (case parse_i64 line of
             None \<Rightarrow> Failed (Msg (''Invalid bulk string length: '' @ line))
           | Some n \<Rightarrow>
               if n = - 1 then Parsed (BulkString None) rest
               else if n < 0 then Failed (Msg (''Invalid bulk string length: '' @ int_to_string n))
               else
                 (let len = as_usize n
                  in if length rest < len + 2 then Failed (Msg ''Incomplete bulk string'')
                     else if take 2 (drop len rest) \<noteq> CRLF
                     then Failed (Msg ''Invalid CRLF after bulk string'')
                     else Parsed (BulkString (Some (take len rest))) (drop (len + 2) rest)))
      | Failed e \<Rightarrow> Failed e | Panicked \<Rightarrow> Panicked)"

text \<open>The part of \<open>parse_array\<close> before its loop: the number of elements and the bytes left.\<close>

definition array_header :: "bytes \<Rightarrow> int parsed" where
  "array_header buf =
     (case read_line buf of
        Parsed line rest \<Rightarrow>
          (case parse_i64 line of
             None \<Rightarrow> Failed (Msg (''Invalid array length: '' @ line))
           | Some n \<Rightarrow> Parsed n rest)
      | Failed e \<Rightarrow> Failed e | Panicked \<Rightarrow> Panicked)"

text \<open>Every parser returns a proper suffix of what it was given.\<close>

lemma scan_line_split: "scan_line buf = Some (line, rest) \<Longrightarrow> buf = line @ CRLF @ rest"
  by (induction buf arbitrary: line rule: scan_line.induct)
    (auto simp: CRLF_def split: if_splits)

lemma read_line_split: "read_line buf = Parsed line rest \<Longrightarrow> \<exists>used. buf = used @ CRLF @ rest"
  by (auto simp: read_line_def dest: scan_line_split split: option.splits)

lemma suffix_of_line:
  assumes "read_line buf = Parsed line rest"
  shows "\<exists>used. used \<noteq> [] \<and> buf = used @ rest"
  using read_line_split [OF assms] by (auto simp: CRLF_def)

lemma parse_simple_string_suffix:
  "parse_simple_string buf = Parsed v rest \<Longrightarrow> \<exists>used. used \<noteq> [] \<and> buf = used @ rest"
  by (auto simp: parse_simple_string_def dest: suffix_of_line split: parsed.splits)

lemma parse_error_suffix:
  "parse_error buf = Parsed v rest \<Longrightarrow> \<exists>used. used \<noteq> [] \<and> buf = used @ rest"
  by (auto simp: parse_error_def dest: suffix_of_line split: parsed.splits)

lemma parse_integer_suffix:
  "parse_integer buf = Parsed v rest \<Longrightarrow> \<exists>used. used \<noteq> [] \<and> buf = used @ rest"
  by (auto simp: parse_integer_def dest: suffix_of_line split: parsed.splits option.splits)

lemma array_header_suffix:
  "array_header buf = Parsed n rest \<Longrightarrow> \<exists>used. used \<noteq> [] \<and> buf = used @ rest"
  by (auto simp: array_header_def dest: suffix_of_line split: parsed.splits option.splits)

lemma parse_bulk_string_suffix:
  assumes "parse_bulk_string buf = Parsed v rest"
  shows "\<exists>used. used \<noteq> [] \<and> buf = used @ rest"
proof -
  from assms obtain line r n where r: "read_line buf = Parsed line r"
      "rest = r \<or> rest = drop (as_usize n + 2) r"
    by (auto simp: parse_bulk_string_def Let_def split: parsed.splits option.splits if_splits)
  from suffix_of_line [OF r(1)] obtain used where "used \<noteq> []" "buf = used @ r" by blast
  with r(2) show ?thesis by (metis append_assoc append_is_Nil_conv append_take_drop_id)
qed

lemmas parser_suffixes = parse_simple_string_suffix parse_error_suffix parse_integer_suffix
  parse_bulk_string_suffix array_header_suffix

function (sequential) parse_resp :: "nat \<Rightarrow> bytes \<Rightarrow> RespValue parsed"
  and parse_items :: "nat \<Rightarrow> nat \<Rightarrow> bytes \<Rightarrow> RespValue list parsed" where
  "parse_resp cap [] = Failed (Msg ''Empty buffer'')"
| "parse_resp cap (marker # buf) =
     (if marker = CHR ''+'' then parse_simple_string buf
      else if marker = CHR ''-'' then parse_error buf
      else if marker = CHR '':'' then parse_integer buf
      else if marker = CHR ''$'' then parse_bulk_string buf
      else if marker = CHR ''*'' then
        (case array_header buf of
           Parsed n rest \<Rightarrow>
             if n < 0 then Parsed (RespArray []) rest
             else if as_usize n > cap then Panicked
             else
               (case parse_items cap (as_usize n) rest of
                  Parsed items rest' \<Rightarrow> Parsed (RespArray items) rest'
                | Failed e \<Rightarrow> Failed e | Panicked \<Rightarrow> Panicked)
         | Failed e \<Rightarrow> Failed e | Panicked \<Rightarrow> Panicked)
      else Failed (Msg (''Unknown RESP type marker: '' @ latin1_utf8 marker)))"
| "parse_items cap 0 buf = Parsed [] buf"
| "parse_items cap (Suc n) buf =
     (case parse_resp cap buf of
        Parsed v rest \<Rightarrow>
          (case parse_items cap n rest of
             Parsed vs rest' \<Rightarrow> Parsed (v # vs) rest'
           | Failed e \<Rightarrow> Failed e | Panicked \<Rightarrow> Panicked)
      | Failed e \<Rightarrow> Failed e | Panicked \<Rightarrow> Panicked)"
  by pat_completeness auto

lemma parse_partial_suffix:
  "parse_resp_parse_items_dom (Inl (cap, buf)) \<Longrightarrow>
     parse_resp cap buf = Parsed v rest \<Longrightarrow> \<exists>used. used \<noteq> [] \<and> buf = used @ rest"
  "parse_resp_parse_items_dom (Inr (cap, n, buf)) \<Longrightarrow>
     parse_items cap n buf = Parsed vs rest \<Longrightarrow> \<exists>used. length used \<ge> n \<and> buf = used @ rest"
proof (induction arbitrary: v rest and vs rest rule: parse_resp_parse_items.pinduct)
  case (1 cap)
  then show ?case by (simp add: parse_resp.psimps)
next
  case (2 cap marker buf)
  show ?case
  proof (cases "marker = CHR ''*'' \<and> (\<exists>n r. array_header buf = Parsed n r \<and> 0 \<le> n \<and> as_usize n \<le> cap)")
    case True
    then obtain n r where n: "marker = CHR ''*''" "array_header buf = Parsed n r" "\<not> n < 0"
        "\<not> as_usize n > cap"
      by force
    obtain items rest' where "parse_items cap (as_usize n) r = Parsed items rest'" "rest' = rest"
      using n "2.prems" "2.hyps" by (auto simp: parse_resp.psimps split: parsed.splits)
    then obtain used where "r = used @ rest" using "2.IH" n by fastforce
    moreover obtain used' where "buf = used' @ r" using array_header_suffix [OF n(2)] by blast
    ultimately show ?thesis by (intro exI [of _ "marker # used' @ used"]) simp
  next
    case False
    then have "\<exists>used. buf = used @ rest"
      using "2.prems" "2.hyps"
      by (auto simp: parse_resp.psimps not_less dest: parser_suffixes split: if_splits parsed.splits)
    then show ?thesis by (metis append_Cons list.distinct(1))
  qed
next
  case (3 cap buf)
  then show ?case by (simp add: parse_items.psimps)
next
  case (4 cap n buf)
  then obtain w r ws where w: "parse_resp cap buf = Parsed w r" "parse_items cap n r = Parsed ws rest"
    by (auto simp: parse_items.psimps split: parsed.splits)
  from "4.IH"(1) [OF w(1)] obtain u1 where u1: "u1 \<noteq> []" "buf = u1 @ r" by blast
  from "4.IH"(2) [OF w(1) w(2)] obtain u2 where u2: "length u2 \<ge> n" "r = u2 @ rest" by blast
  from u1 u2 show ?case
    by (intro exI [of _ "u1 @ u2"]) (cases u1, auto)
qed

lemma parse_dom: "All parse_resp_parse_items_dom"
proof (relation "inv_image (less_than <*lex*> less_than)
    (case_sum (\<lambda>(cap, buf). (length buf, 0)) (\<lambda>(cap, n, buf). (length buf, Suc n)))", goal_cases)
  case (2 cap marker buf n rest)
  then show ?case using array_header_suffix by fastforce
next
  case (4 cap n buf v rest)
  then show ?case using parse_partial_suffix(1) by fastforce
qed (auto intro!: wf_inv_image)

termination parse_resp
  by (rule parse_dom)

lemma parse_resp_suffix:
  "parse_resp cap buf = Parsed v rest \<Longrightarrow> \<exists>used. used \<noteq> [] \<and> buf = used @ rest"
  using parse_dom by (intro parse_partial_suffix(1)) auto

subsection \<open>Serialization\<close>

fun write_resp :: "RespValue \<Rightarrow> bytes" where
  "write_resp (SimpleString s) = CHR ''+'' # s @ CRLF"
| "write_resp (RespError s) = CHR ''-'' # s @ CRLF"
| "write_resp (RespInteger n) = CHR '':'' # int_to_string n @ CRLF"
| "write_resp (BulkString (Some bs)) =
     CHR ''$'' # nat_to_string (length bs) @ CRLF @ bs @ CRLF"
| "write_resp (BulkString None) = ''$-1'' @ CRLF"
| "write_resp (RespArray items) =
     CHR ''*'' # nat_to_string (length items) @ CRLF @ concat (map write_resp items)"

definition serialize_resp :: "RespValue \<Rightarrow> bytes" where
  "serialize_resp v = write_resp v"

datatype Response =
    R_Value bytes
  | R_Ok
  | R_NotFound
  | R_Error bytes
  | R_Integer int
  | R_Array "bytes list"
  | R_Null
  | R_Raw bytes

fun to_resp :: "Response \<Rightarrow> RespValue" where
  "to_resp (R_Value bs) = BulkString (Some bs)"
| "to_resp R_Ok = SimpleString ''OK''"
| "to_resp R_NotFound = BulkString None"
| "to_resp (R_Error msg) = RespError msg"
| "to_resp (R_Integer n) = RespInteger n"
| "to_resp (R_Array items) = RespArray (map (\<lambda>b. BulkString (Some b)) items)"
| "to_resp R_Null = BulkString None"
| "to_resp (R_Raw b) = BulkString (Some b)"

definition serialize_response :: "Response \<Rightarrow> bytes" where
  "serialize_response r =
     (case r of R_Raw frames \<Rightarrow> frames | _ \<Rightarrow> serialize_resp (to_resp r))"

definition parse_response :: "nat \<Rightarrow> bytes \<Rightarrow> Response parsed" where
  "parse_response cap buf =
     (case parse_resp cap buf of
        Parsed resp rest \<Rightarrow>
          Parsed
            (case resp of
               SimpleString s \<Rightarrow>
                 if s = ''OK'' then R_Ok else R_Error ''Unexpected response type''
             | BulkString (Some bs) \<Rightarrow> R_Value bs
             | BulkString None \<Rightarrow> R_NotFound
             | RespError e \<Rightarrow> R_Error e
             | RespInteger n \<Rightarrow> R_Integer n
             | RespArray items \<Rightarrow>
                 R_Array (List.map_filter
                   (\<lambda>v. case v of BulkString (Some b) \<Rightarrow> Some b | _ \<Rightarrow> None) items)) rest
      | Failed e \<Rightarrow> Failed e | Panicked \<Rightarrow> Panicked)"

subsection \<open>Round trip\<close>

text \<open>
  What the serializer may be given for the parser to read it back: the text of a simple
  string or error is valid UTF-8 without a line end, integers fit \<open>i64\<close>, lengths fit
  \<open>i64\<close> and an array's length can be reserved.
\<close>

definition line_ok :: "bytes \<Rightarrow> bool" where
  "line_ok s \<longleftrightarrow> utf8_lossy s = s \<and> scan_line (s @ CRLF) = Some (s, [])"

fun resp_ok :: "nat \<Rightarrow> RespValue \<Rightarrow> bool" where
  "resp_ok cap (SimpleString s) = line_ok s"
| "resp_ok cap (RespError s) = line_ok s"
| "resp_ok cap (RespInteger n) = in_i64 n"
| "resp_ok cap (BulkString None) = True"
| "resp_ok cap (BulkString (Some bs)) = (length bs < 2 ^ 63)"
| "resp_ok cap (RespArray items) =
     (length items \<le> cap \<and> length items < 2 ^ 63 \<and> list_all (resp_ok cap) items)"

lemma scan_line_extend: "scan_line buf = Some (l, r) \<Longrightarrow> scan_line (buf @ x) = Some (l, r @ x)"
  by (induction buf arbitrary: l rule: scan_line.induct) (auto split: if_splits)

lemma scan_line_no_CR: "CHR 0x0D \<notin> set s \<Longrightarrow> scan_line (s @ CRLF @ x) = Some (s, x)"
proof (induction s)
  case (Cons c s)
  then show ?case by (cases s) (auto simp: CRLF_def)
qed (simp add: CRLF_def)

lemma read_line_ok: "line_ok s \<Longrightarrow> read_line (s @ CRLF @ x) = Parsed s x"
  using scan_line_extend [of "s @ CRLF" s "[]" x] by (simp add: line_ok_def read_line_def)

lemma line_ok_nat [simp]: "line_ok (nat_to_string n)"
  using scan_line_no_CR [of "nat_to_string n" "[]"] digit_char_neq_sign(3) [of _ n]
  by (auto simp: line_ok_def)

lemma line_ok_int [simp]: "line_ok (int_to_string i)"
proof -
  have "CHR 0x0D \<notin> set (int_to_string i)"
    using digit_char_neq_sign(3) by (auto simp: int_to_string_def split: if_splits)
  then show ?thesis using scan_line_no_CR [of _ "[]"] by (simp add: line_ok_def)
qed

lemma as_usize_int: "n < 2 ^ 63 \<Longrightarrow> as_usize (int n) = n"
  unfolding int_less_i64 by (simp add: as_usize_def)

lemma write_bulk_parses:
  assumes "length bs < 2 ^ 63"
  shows "parse_bulk_string (nat_to_string (length bs) @ CRLF @ bs @ CRLF @ x) =
    Parsed (BulkString (Some bs)) x"
proof -
  have "read_line (nat_to_string (length bs) @ CRLF @ bs @ CRLF @ x) =
      Parsed (nat_to_string (length bs)) (bs @ CRLF @ x)"
    by (rule read_line_ok) simp
  moreover have "take 2 (CRLF @ x) = CRLF" "length CRLF = 2" by (simp_all add: CRLF_def)
  ultimately show ?thesis
    using parse_i64_nat_to_string [OF assms] as_usize_int [OF assms]
    by (simp add: parse_bulk_string_def Let_def)
qed

lemma write_null_parses: "parse_bulk_string (''-1'' @ CRLF @ x) = Parsed (BulkString None) x"
proof -
  have "read_line (''-1'' @ CRLF @ x) = Parsed ''-1'' x"
    using scan_line_no_CR [of "''-1''" x] by (simp add: read_line_def utf8_head_def)
  moreover have "parse_i64 ''-1'' = Some (- 1)" by code_simp
  ultimately show ?thesis by (simp add: parse_bulk_string_def)
qed

lemma array_header_parses:
  "n < 2 ^ 63 \<Longrightarrow> array_header (nat_to_string n @ CRLF @ x) = Parsed (int n) x"
  using read_line_ok [OF line_ok_nat, of n x] parse_i64_nat_to_string [of n]
  by (simp add: array_header_def)

lemma write_items_parse:
  assumes "list_all (resp_ok cap) items"
    "\<And>v x. v \<in> set items \<Longrightarrow> resp_ok cap v \<Longrightarrow> parse_resp cap (write_resp v @ x) = Parsed v x"
  shows "parse_items cap (length items) (concat (map write_resp items) @ x) = Parsed items x"
  using assms by (induction items) simp_all

lemma write_resp_parses: "resp_ok cap v \<Longrightarrow> parse_resp cap (write_resp v @ x) = Parsed v x"
proof (induction v arbitrary: x rule: write_resp.induct)
  case (4 bs)
  then show ?case using write_bulk_parses [of bs x] by simp
next
  case 5
  then show ?case using write_null_parses [of x] by simp
next
  case (6 items)
  then have "parse_items cap (length items) (concat (map write_resp items) @ x) = Parsed items x"
    by (intro write_items_parse) auto
  with "6.prems" show ?case by (simp add: array_header_parses as_usize_int)
qed (simp_all add: parse_simple_string_def parse_error_def parse_integer_def read_line_ok)

subsection \<open>Incremental parsing\<close>

text \<open>Bytes that arrive later change neither a parsed value nor a panic.\<close>

lemma read_line_extend: "read_line buf = Parsed l r \<Longrightarrow> read_line (buf @ x) = Parsed l (r @ x)"
  by (auto simp: read_line_def scan_line_extend split: option.splits)

lemma read_line_no_panic [simp]: "read_line buf \<noteq> Panicked"
  by (auto simp: read_line_def split: option.splits)

lemma parse_bulk_string_extend:
  "parse_bulk_string buf = Parsed v r \<Longrightarrow> parse_bulk_string (buf @ x) = Parsed v (r @ x)"
  by (auto simp: parse_bulk_string_def read_line_extend Let_def
      split: parsed.splits option.splits if_splits)

lemma array_header_extend:
  "array_header buf = Parsed n r \<Longrightarrow> array_header (buf @ x) = Parsed n (r @ x)"
  by (auto simp: array_header_def read_line_extend split: parsed.splits option.splits)

lemma parse_line_extend:
  "parse_simple_string buf = Parsed v r \<Longrightarrow> parse_simple_string (buf @ x) = Parsed v (r @ x)"
  "parse_error buf = Parsed v r \<Longrightarrow> parse_error (buf @ x) = Parsed v (r @ x)"
  "parse_integer buf = Parsed v r \<Longrightarrow> parse_integer (buf @ x) = Parsed v (r @ x)"
  by (auto simp: parse_simple_string_def parse_error_def parse_integer_def read_line_extend
      split: parsed.splits option.splits)

lemma parse_line_no_panic [simp]:
  "parse_simple_string buf \<noteq> Panicked" "parse_error buf \<noteq> Panicked"
  "parse_integer buf \<noteq> Panicked" "parse_bulk_string buf \<noteq> Panicked" "array_header buf \<noteq> Panicked"
  by (auto simp: parse_simple_string_def parse_error_def parse_integer_def parse_bulk_string_def
      array_header_def Let_def split: parsed.splits option.splits)

lemmas parser_extends = parse_line_extend parse_bulk_string_extend array_header_extend

lemma parse_extend:
  "parse_resp cap buf = Parsed v r \<Longrightarrow> parse_resp cap (buf @ x) = Parsed v (r @ x)"
  "parse_items cap n buf = Parsed vs r \<Longrightarrow> parse_items cap n (buf @ x) = Parsed vs (r @ x)"
proof (induction cap buf and cap n buf arbitrary: v r and vs r rule: parse_resp_parse_items.induct)
  case (2 cap marker buf)
  then show ?case
    by (auto simp: parser_extends split: if_splits parsed.splits)
next
  case (4 cap n buf)
  then obtain w s ws where w: "parse_resp cap buf = Parsed w s" "parse_items cap n s = Parsed ws r"
      "vs = w # ws"
    by (auto split: parsed.splits)
  with "4.IH"(1) [OF w(1)] "4.IH"(2) [OF w(1,2)] show ?case by simp
qed simp_all

lemma parse_panic_extend:
  "parse_resp cap buf = Panicked \<Longrightarrow> parse_resp cap (buf @ x) = Panicked"
  "parse_items cap n buf = Panicked \<Longrightarrow> parse_items cap n (buf @ x) = Panicked"
proof (induction cap buf and cap n buf rule: parse_resp_parse_items.induct)
  case (2 cap marker buf)
  then show ?case
    by (auto simp: parser_extends split: if_splits parsed.splits)
qed (auto simp: parse_extend split: parsed.splits)

end
