(* ===== verification/Command_Parser.thy ===== *)
theory Command_Parser
  imports Resp Value_Types
begin

text \<open>
  \<open>Command\<close> and \<open>parse_command\<close> (protocol.rs): the command set of the server and its parser
  from a RESP array. The source's single \<open>match\<close> on the command name is split into groups;
  a group returns \<open>None\<close> for a name that is not one of its own, and \<open>parse_command\<close> tries
  them in the order of the source. \<open>rbind\<close> is the \<open>?\<close> operator. The enum has 92 variants;
  they are grouped into one datatype per kind of value, and \<open>Command\<close> is the sum of these.
\<close>

datatype StringCommand =
    Get bytes
  | Set bytes bytes "nat option"
  | Delete bytes
  | Incr bytes
  | Decr bytes
  | Append bytes bytes
  | Strlen bytes
  | SetNx bytes bytes
  | SetEx bytes nat bytes
  | GetSet bytes bytes
  | MGet "bytes list"
  | MSet "(bytes \<times> bytes) list"
  | GetRange bytes int int
  | IncrBy bytes int
  | DecrBy bytes int
  | IncrByFloat bytes f64

datatype HashCommand =
    HGet bytes bytes
  | HSet bytes bytes bytes
  | HDel bytes "bytes list"
  | HGetAll bytes
  | HKeys bytes
  | HVals bytes
  | HLen bytes
  | HExists bytes bytes
  | HMGet bytes "bytes list"
  | HMSet bytes "(bytes \<times> bytes) list"
  | HSetNx bytes bytes bytes
  | HIncrBy bytes bytes int

datatype ListCommand =
    LPush bytes "bytes list"
  | RPush bytes "bytes list"
  | LPop bytes
  | RPop bytes
  | LRange bytes int int
  | LLen bytes
  | LIndex bytes int
  | LSet bytes int bytes
  | LRem bytes int bytes
  | LTrim bytes int int
  | RPopLPush bytes bytes

datatype SetCommand =
    SAdd bytes "bytes list"
  | SRem bytes "bytes list"
  | SMembers bytes
  | SIsMember bytes bytes
  | SCard bytes
  | SInter "bytes list"
  | SUnion "bytes list"
  | SDiff "bytes list"
  | SPop bytes "nat option"
  | SRandMember bytes "int option"
  | SMove bytes bytes bytes

datatype ZSetCommand =
    ZAdd bytes "(f64 \<times> bytes) list"
  | ZRem bytes "bytes list"
  | ZRange bytes int int bool
  | ZRank bytes bytes
  | ZScore bytes bytes
  | ZCard bytes
  | ZCount bytes f64 f64
  | ZIncrBy bytes f64 bytes
  | ZRangeByScore bytes f64 f64 bool
  | ZRevRange bytes int int bool
  | ZPopMin bytes nat
  | ZPopMax bytes nat

datatype KeyCommand =
    Ping
  | Echo bytes
  | Exists "bytes list"
  | Keys bytes
  | FlushAll
  | DbSize
  | Expire bytes int
  | PExpire bytes int
  | ExpireAt bytes int
  | Ttl bytes
  | PTtl bytes
  | Persist bytes
  | Type bytes
  | Rename bytes bytes
  | RandomKey

datatype ConnCommand =
    Auth "bytes option" bytes
  | Publish bytes bytes
  | Subscribe "bytes list"
  | Unsubscribe "bytes list"
  | Multi
  | Exec
  | Discard
  | Watch "bytes list"
  | Unwatch

datatype StreamCommand =
    XAdd bytes "bytes option" "(bytes \<times> bytes) list"
  | XLen bytes
  | XRange bytes bytes bytes "nat option"
  | XRead "nat option" "bytes list" "bytes list"

datatype ScriptCommand =
    LuaEval bytes "bytes list" "bytes list"
  | LuaEvalSha bytes "bytes list" "bytes list"

datatype Command =
    C_String StringCommand
  | C_Hash HashCommand
  | C_List ListCommand
  | C_Set SetCommand
  | C_ZSet ZSetCommand
  | C_Key KeyCommand
  | C_Conn ConnCommand
  | C_Stream StreamCommand
  | C_Script ScriptCommand

subsection \<open>Arguments\<close>

type_synonym 'a parse_result = "proto_error + 'a"

definition rbind :: "'e + 'a \<Rightarrow> ('a \<Rightarrow> 'e + 'b) \<Rightarrow> 'e + 'b" where
  "rbind r f = (case r of Inl e \<Rightarrow> Inl e | Inr x \<Rightarrow> f x)"

lemma rbind_simps [simp]: "rbind (Inl e) f = Inl e" "rbind (Inr x) f = f x"
  by (simp_all add: rbind_def)

lemma rbind_cong [fundef_cong]:
  "r = r' \<Longrightarrow> (\<And>x. r' = Inr x \<Longrightarrow> f x = g x) \<Longrightarrow> rbind r f = rbind r' g"
  by (cases r') simp_all

fun extract_bulk_string :: "RespValue \<Rightarrow> bytes parse_result" where
  "extract_bulk_string (BulkString (Some bs)) = Inr bs"
| "extract_bulk_string (BulkString None) = Inl (Msg ''Null bulk string'')"
| "extract_bulk_string (SimpleString s) = Inr s"
| "extract_bulk_string v = Inl (Expected_bulk v)"

fun extract_integer :: "RespValue \<Rightarrow> int parse_result" where
  "extract_integer (RespInteger n) = Inr n"
| "extract_integer (BulkString (Some bs)) =
     (let s = utf8_lossy bs in case parse_i64 s of
        Some n \<Rightarrow> Inr n | None \<Rightarrow> Inl (Msg (''Invalid integer: '' @ s)))"
| "extract_integer v = Inl (Expected_integer v)"

fun extract_float :: "env \<Rightarrow> RespValue \<Rightarrow> f64 parse_result" where
  "extract_float E (BulkString (Some bs)) =
     (let s = utf8_lossy bs in case f64_parse E s of
        Some x \<Rightarrow> Inr x | None \<Rightarrow> Inl (Msg (''Invalid float: '' @ s)))"
| "extract_float E (RespInteger n) = Inr (f64_of_i64 E n)"
| "extract_float E v = Inl (Expected_float v)"

definition ensure_arg_count :: "RespValue list \<Rightarrow> nat \<Rightarrow> unit parse_result" where
  "ensure_arg_count array expected =
     (if length array \<noteq> expected
      then Inl (Msg (''Expected '' @ nat_to_string expected @ '' arguments, got '' @
                     nat_to_string (length array)))
      else Inr ())"

text \<open>\<open>iter().map(extract_bulk_string).collect::<Result<Vec<_>, _>>()\<close> and the pair loops.\<close>

fun extract_all :: "RespValue list \<Rightarrow> bytes list parse_result" where
  "extract_all [] = Inr []"
| "extract_all (v # vs) =
     rbind (extract_bulk_string v) (\<lambda>x. rbind (extract_all vs) (\<lambda>xs. Inr (x # xs)))"

fun extract_pairs :: "RespValue list \<Rightarrow> (bytes \<times> bytes) list parse_result" where
  "extract_pairs (v # w # vs) =
     rbind (extract_bulk_string v) (\<lambda>x. rbind (extract_bulk_string w) (\<lambda>y.
       rbind (extract_pairs vs) (\<lambda>xs. Inr ((x, y) # xs))))"
| "extract_pairs _ = Inr []"

fun extract_scored :: "env \<Rightarrow> RespValue list \<Rightarrow> (f64 \<times> bytes) list parse_result" where
  "extract_scored E (v # w # vs) =
     rbind (extract_float E v) (\<lambda>x. rbind (extract_bulk_string w) (\<lambda>y.
       rbind (extract_scored E vs) (\<lambda>xs. Inr ((x, y) # xs))))"
| "extract_scored E _ = Inr []"

text \<open>The three argument shapes most commands have.\<close>

definition one_key :: "RespValue list \<Rightarrow> (bytes \<Rightarrow> 'c) \<Rightarrow> 'c parse_result" where
  "one_key a f = rbind (ensure_arg_count a 2) (\<lambda>_.
     rbind (extract_bulk_string (a ! 1)) (\<lambda>key. Inr (f key)))"

definition two_args :: "RespValue list \<Rightarrow> (bytes \<Rightarrow> bytes \<Rightarrow> 'c) \<Rightarrow> 'c parse_result" where
  "two_args a f = rbind (ensure_arg_count a 3) (\<lambda>_.
     rbind (extract_bulk_string (a ! 1)) (\<lambda>x.
     rbind (extract_bulk_string (a ! 2)) (\<lambda>y. Inr (f x y))))"

definition three_args ::
    "RespValue list \<Rightarrow> (bytes \<Rightarrow> bytes \<Rightarrow> bytes \<Rightarrow> 'c) \<Rightarrow> 'c parse_result" where
  "three_args a f = rbind (ensure_arg_count a 4) (\<lambda>_.
     rbind (extract_bulk_string (a ! 1)) (\<lambda>x.
     rbind (extract_bulk_string (a ! 2)) (\<lambda>y.
     rbind (extract_bulk_string (a ! 3)) (\<lambda>z. Inr (f x y z)))))"

definition key_int :: "RespValue list \<Rightarrow> (bytes \<Rightarrow> int \<Rightarrow> 'c) \<Rightarrow> 'c parse_result" where
  "key_int a f = rbind (ensure_arg_count a 3) (\<lambda>_.
     rbind (extract_bulk_string (a ! 1)) (\<lambda>key.
     rbind (extract_integer (a ! 2)) (\<lambda>n. Inr (f key n))))"

definition key_int_int ::
    "RespValue list \<Rightarrow> (bytes \<Rightarrow> int \<Rightarrow> int \<Rightarrow> 'c) \<Rightarrow> 'c parse_result" where
  "key_int_int a f = rbind (ensure_arg_count a 4) (\<lambda>_.
     rbind (extract_bulk_string (a ! 1)) (\<lambda>key.
     rbind (extract_integer (a ! 2)) (\<lambda>m.
     rbind (extract_integer (a ! 3)) (\<lambda>n. Inr (f key m n)))))"

definition key_int_value ::
    "RespValue list \<Rightarrow> (bytes \<Rightarrow> int \<Rightarrow> bytes \<Rightarrow> 'c) \<Rightarrow> 'c parse_result" where
  "key_int_value a f = rbind (ensure_arg_count a 4) (\<lambda>_.
     rbind (extract_bulk_string (a ! 1)) (\<lambda>key.
     rbind (extract_integer (a ! 2)) (\<lambda>n.
     rbind (extract_bulk_string (a ! 3)) (\<lambda>v. Inr (f key n v)))))"

definition key_and_rest ::
    "bytes \<Rightarrow> RespValue list \<Rightarrow> (bytes \<Rightarrow> bytes list \<Rightarrow> 'c) \<Rightarrow> 'c parse_result" where
  "key_and_rest msg a f =
     (if length a < 3 then Inl (Msg msg)
      else rbind (extract_bulk_string (a ! 1)) (\<lambda>key.
           rbind (extract_all (drop 2 a)) (\<lambda>xs. Inr (f key xs))))"

definition all_keys ::
    "bytes \<Rightarrow> RespValue list \<Rightarrow> (bytes list \<Rightarrow> 'c) \<Rightarrow> 'c parse_result" where
  "all_keys msg a f =
     (if length a < 2 then Inl (Msg msg)
      else rbind (extract_all (drop 1 a)) (\<lambda>xs. Inr (f xs)))"

definition keyword :: "bytes \<Rightarrow> bytes" where
  "keyword bs = to_ascii_uppercase (utf8_lossy bs)"

subsection \<open>The commands\<close>

fun set_options :: "nat option \<Rightarrow> RespValue list \<Rightarrow> nat option parse_result" where
  "set_options ttl_secs [] = Inr ttl_secs"
| "set_options ttl_secs (v # rest) =
     rbind (extract_bulk_string v) (\<lambda>opt_bytes.
       if keyword opt_bytes = ''EX'' then
         (case rest of
            [] \<Rightarrow> Inl (Msg ''EX requires a value'')
          | w # rest' \<Rightarrow> rbind (extract_integer w) (\<lambda>n. set_options (Some (as_u32 n)) rest'))
       else if keyword opt_bytes = ''PX'' then
         (case rest of
            [] \<Rightarrow> Inl (Msg ''PX requires a value'')
          | w # rest' \<Rightarrow> rbind (extract_integer w) (\<lambda>n. set_options (Some (as_u32 n div 1000)) rest'))
       else set_options ttl_secs rest)"

definition parse_string_cmd :: "bytes \<Rightarrow> RespValue list \<Rightarrow> StringCommand parse_result option" where
  "parse_string_cmd name a =
     (if name = ''GET'' then Some (one_key a Get)
      else if name = ''SET'' then Some
        (if length a < 3 then Inl (Msg ''SET requires at least 2 arguments'')
         else rbind (extract_bulk_string (a ! 1)) (\<lambda>key.
              rbind (extract_bulk_string (a ! 2)) (\<lambda>value.
              rbind (set_options None (drop 3 a)) (\<lambda>ttl_secs. Inr (Set key value ttl_secs)))))
      else if name = ''DEL'' then Some (one_key a Delete)
      else if name = ''INCR'' then Some (one_key a Incr)
      else if name = ''DECR'' then Some (one_key a Decr)
      else if name = ''APPEND'' then Some (two_args a Append)
      else if name = ''STRLEN'' then Some (one_key a Strlen)
      else None)"

definition parse_hash_cmd :: "bytes \<Rightarrow> RespValue list \<Rightarrow> HashCommand parse_result option" where
  "parse_hash_cmd name a =
     (if name = ''HGET'' then Some (two_args a HGet)
      else if name = ''HSET'' then Some (three_args a HSet)
      else if name = ''HDEL'' then Some (key_and_rest ''HDEL requires at least 2 arguments'' a HDel)
      else if name = ''HGETALL'' then Some (one_key a HGetAll)
      else if name = ''HKEYS'' then Some (one_key a HKeys)
      else if name = ''HVALS'' then Some (one_key a HVals)
      else if name = ''HLEN'' then Some (one_key a HLen)
      else if name = ''HEXISTS'' then Some (two_args a HExists)
      else None)"

definition parse_list_cmd :: "bytes \<Rightarrow> RespValue list \<Rightarrow> ListCommand parse_result option" where
  "parse_list_cmd name a =
     (if name = ''LPUSH'' then Some (key_and_rest ''LPUSH requires at least 2 arguments'' a LPush)
      else if name = ''RPUSH'' then Some (key_and_rest ''RPUSH requires at least 2 arguments'' a RPush)
      else if name = ''LPOP'' then Some (one_key a LPop)
      else if name = ''RPOP'' then Some (one_key a RPop)
      else if name = ''LRANGE'' then Some (key_int_int a LRange)
      else if name = ''LLEN'' then Some (one_key a LLen)
      else if name = ''LINDEX'' then Some (key_int a LIndex)
      else None)"

definition parse_set_cmd :: "bytes \<Rightarrow> RespValue list \<Rightarrow> SetCommand parse_result option" where
  "parse_set_cmd name a =
     (if name = ''SADD'' then Some (key_and_rest ''SADD requires at least 2 arguments'' a SAdd)
      else if name = ''SREM'' then Some (key_and_rest ''SREM requires at least 2 arguments'' a SRem)
      else if name = ''SMEMBERS'' then Some (one_key a SMembers)
      else if name = ''SISMEMBER'' then Some (two_args a SIsMember)
      else if name = ''SCARD'' then Some (one_key a SCard)
      else if name = ''SINTER'' then Some (all_keys ''SINTER requires at least 1 key'' a SInter)
      else if name = ''SUNION'' then Some (all_keys ''SUNION requires at least 1 key'' a SUnion)
      else if name = ''SDIFF'' then Some (all_keys ''SDIFF requires at least 1 key'' a SDiff)
      else None)"

definition parse_zset_cmd :: "env \<Rightarrow> bytes \<Rightarrow> RespValue list \<Rightarrow> ZSetCommand parse_result option" where
  "parse_zset_cmd E name a =
     (if name = ''ZADD'' then Some
        (if length a < 4 \<or> (length a - 2) mod 2 \<noteq> 0
         then Inl (Msg ''ZADD requires key and score-member pairs'')
         else rbind (extract_bulk_string (a ! 1)) (\<lambda>key.
              rbind (extract_scored E (drop 2 a)) (\<lambda>members. Inr (ZAdd key members))))
      else if name = ''ZREM'' then Some (key_and_rest ''ZREM requires at least 2 arguments'' a ZRem)
      else if name = ''ZRANGE'' then Some
        (if length a < 4 then Inl (Msg ''ZRANGE requires at least 3 arguments'')
         else rbind (extract_bulk_string (a ! 1)) (\<lambda>key.
              rbind (extract_integer (a ! 2)) (\<lambda>start.
              rbind (extract_integer (a ! 3)) (\<lambda>stop.
              rbind (if length a > 4
                     then rbind (extract_bulk_string (a ! 4)) (\<lambda>b. Inr (keyword b = ''WITHSCORES''))
                     else Inr False) (\<lambda>with_scores.
              Inr (ZRange key start stop with_scores))))))
      else if name = ''ZRANK'' then Some (two_args a ZRank)
      else if name = ''ZSCORE'' then Some (two_args a ZScore)
      else if name = ''ZCARD'' then Some (one_key a ZCard)
      else if name = ''ZCOUNT'' then Some
        (rbind (ensure_arg_count a 4) (\<lambda>_.
         rbind (extract_bulk_string (a ! 1)) (\<lambda>key.
         rbind (extract_float E (a ! 2)) (\<lambda>lo.
         rbind (extract_float E (a ! 3)) (\<lambda>hi. Inr (ZCount key lo hi))))))
      else None)"

definition parse_server_cmd :: "bytes \<Rightarrow> RespValue list \<Rightarrow> KeyCommand parse_result option" where
  "parse_server_cmd name a =
     (if name = ''PING'' then Some (Inr Ping)
      else if name = ''ECHO'' then Some (one_key a Echo)
      else if name = ''EXISTS'' then Some (all_keys ''EXISTS requires at least 1 key'' a Exists)
      else if name = ''KEYS'' then Some (one_key a (\<lambda>p. Keys (utf8_lossy p)))
      else if name = ''FLUSHALL'' then Some (Inr FlushAll)
      else if name = ''DBSIZE'' then Some (Inr DbSize)
      else if name = ''EXPIRE'' then Some (key_int a Expire)
      else if name = ''PEXPIRE'' then Some (key_int a PExpire)
      else if name = ''EXPIREAT'' then Some (key_int a ExpireAt)
      else if name = ''TTL'' then Some (one_key a Ttl)
      else if name = ''PTTL'' then Some (one_key a PTtl)
      else if name = ''PERSIST'' then Some (one_key a Persist)
      else None)"

definition parse_auth_cmd :: "bytes \<Rightarrow> RespValue list \<Rightarrow> ConnCommand parse_result option" where
  "parse_auth_cmd name a =
     (if name = ''AUTH'' then Some
        (if length a = 2
         then rbind (extract_bulk_string (a ! 1)) (\<lambda>pw. Inr (Auth None pw))
         else if length a = 3
         then rbind (extract_bulk_string (a ! 1)) (\<lambda>user.
              rbind (extract_bulk_string (a ! 2)) (\<lambda>pw. Inr (Auth (Some user) pw)))
         else Inl (Msg ''AUTH requires 1 or 2 arguments''))
      else None)"

definition parse_more_string_cmd :: "env \<Rightarrow> bytes \<Rightarrow> RespValue list \<Rightarrow> StringCommand parse_result option" where
  "parse_more_string_cmd E name a =
     (if name = ''SETNX'' then Some (two_args a SetNx)
      else if name = ''SETEX'' then Some (key_int_value a (\<lambda>key n v. SetEx key (as_u32 n) v))
      else if name = ''GETSET'' then Some (two_args a GetSet)
      else if name = ''MGET'' then Some (all_keys ''MGET requires at least 1 key'' a MGet)
      else if name = ''MSET'' then Some
        (if length a < 3 \<or> (length a - 1) mod 2 \<noteq> 0
         then Inl (Msg ''MSET requires non-empty key/value pairs'')
         else rbind (extract_pairs (drop 1 a)) (\<lambda>pairs. Inr (MSet pairs)))
      else if name = ''GETRANGE'' \<or> name = ''SUBSTR'' then Some (key_int_int a GetRange)
      else if name = ''INCRBY'' then Some (key_int a IncrBy)
      else if name = ''DECRBY'' then Some (key_int a DecrBy)
      else if name = ''INCRBYFLOAT'' then Some
        (rbind (ensure_arg_count a 3) (\<lambda>_.
         rbind (extract_bulk_string (a ! 1)) (\<lambda>key.
         rbind (extract_float E (a ! 2)) (\<lambda>delta. Inr (IncrByFloat key delta)))))
      else None)"

definition parse_more_hash_cmd :: "bytes \<Rightarrow> RespValue list \<Rightarrow> HashCommand parse_result option" where
  "parse_more_hash_cmd name a =
     (if name = ''HMGET'' then Some (key_and_rest ''HMGET requires key + at least 1 field'' a HMGet)
      else if name = ''HMSET'' then Some
        (if length a < 4 \<or> (length a - 2) mod 2 \<noteq> 0
         then Inl (Msg ''HMSET requires key + non-empty field/value pairs'')
         else rbind (extract_bulk_string (a ! 1)) (\<lambda>key.
              rbind (extract_pairs (drop 2 a)) (\<lambda>pairs. Inr (HMSet key pairs))))
      else if name = ''HSETNX'' then Some (three_args a HSetNx)
      else if name = ''HINCRBY'' then Some
        (rbind (ensure_arg_count a 4) (\<lambda>_.
         rbind (extract_bulk_string (a ! 1)) (\<lambda>key.
         rbind (extract_bulk_string (a ! 2)) (\<lambda>field.
         rbind (extract_integer (a ! 3)) (\<lambda>delta. Inr (HIncrBy key field delta))))))
      else None)"

text \<open>The optional count of \<open>SPOP\<close>, \<open>SRANDMEMBER\<close>, \<open>ZPOPMIN\<close> and \<open>ZPOPMAX\<close>, read before the key.\<close>

definition key_opt_count ::
    "bytes \<Rightarrow> RespValue list \<Rightarrow> (bytes \<Rightarrow> int option \<Rightarrow> 'c) \<Rightarrow> 'c parse_result" where
  "key_opt_count msg a f =
     (if length a < 2 \<or> length a > 3 then Inl (Msg msg)
      else rbind (if length a = 3 then rbind (extract_integer (a ! 2)) (\<lambda>n. Inr (Some n))
                  else Inr None) (\<lambda>cnt.
           rbind (extract_bulk_string (a ! 1)) (\<lambda>key. Inr (f key cnt))))"

definition parse_more_list_cmd :: "bytes \<Rightarrow> RespValue list \<Rightarrow> ListCommand parse_result option" where
  "parse_more_list_cmd name a =
     (if name = ''LSET'' then Some (key_int_value a LSet)
      else if name = ''LREM'' then Some (key_int_value a LRem)
      else if name = ''LTRIM'' then Some (key_int_int a LTrim)
      else if name = ''RPOPLPUSH'' then Some (two_args a RPopLPush)
      else None)"

definition parse_more_set_cmd :: "bytes \<Rightarrow> RespValue list \<Rightarrow> SetCommand parse_result option" where
  "parse_more_set_cmd name a =
     (if name = ''SPOP'' then Some (key_opt_count ''SPOP requires 1 or 2 arguments'' a
        (\<lambda>key cnt. SPop key (map_option (\<lambda>n. as_usize (max n 0)) cnt)))
      else if name = ''SRANDMEMBER''
      then Some (key_opt_count ''SRANDMEMBER requires 1 or 2 arguments'' a SRandMember)
      else if name = ''SMOVE'' then Some (three_args a SMove)
      else None)"

definition with_scores_flag :: "RespValue list \<Rightarrow> bool parse_result" where
  "with_scores_flag a =
     (if length a \<ge> 5
      then rbind (extract_bulk_string (a ! 4)) (\<lambda>b. Inr (keyword b = ''WITHSCORES''))
      else Inr False)"

definition parse_more_zset_cmd :: "env \<Rightarrow> bytes \<Rightarrow> RespValue list \<Rightarrow> ZSetCommand parse_result option" where
  "parse_more_zset_cmd E name a =
     (if name = ''ZINCRBY'' then Some
        (rbind (ensure_arg_count a 4) (\<lambda>_.
         rbind (extract_bulk_string (a ! 1)) (\<lambda>key.
         rbind (extract_float E (a ! 2)) (\<lambda>delta.
         rbind (extract_bulk_string (a ! 3)) (\<lambda>member. Inr (ZIncrBy key delta member))))))
      else if name = ''ZRANGEBYSCORE'' then Some
        (if length a < 4 then Inl (Msg ''ZRANGEBYSCORE requires key min max'')
         else rbind (with_scores_flag a) (\<lambda>ws.
              rbind (extract_bulk_string (a ! 1)) (\<lambda>key.
              rbind (extract_float E (a ! 2)) (\<lambda>lo.
              rbind (extract_float E (a ! 3)) (\<lambda>hi. Inr (ZRangeByScore key lo hi ws))))))
      else if name = ''ZREVRANGE'' then Some
        (if length a < 4 then Inl (Msg ''ZREVRANGE requires key start stop'')
         else rbind (with_scores_flag a) (\<lambda>ws.
              rbind (extract_bulk_string (a ! 1)) (\<lambda>key.
              rbind (extract_integer (a ! 2)) (\<lambda>start.
              rbind (extract_integer (a ! 3)) (\<lambda>stop. Inr (ZRevRange key start stop ws))))))
      else if name = ''ZPOPMIN'' then Some (key_opt_count ''ZPOPMIN requires 1 or 2 arguments'' a
        (\<lambda>key cnt. ZPopMin key (case cnt of Some n \<Rightarrow> as_usize (max n 0) | None \<Rightarrow> 1)))
      else if name = ''ZPOPMAX'' then Some (key_opt_count ''ZPOPMAX requires 1 or 2 arguments'' a
        (\<lambda>key cnt. ZPopMax key (case cnt of Some n \<Rightarrow> as_usize (max n 0) | None \<Rightarrow> 1)))
      else None)"

definition parse_key_cmd :: "bytes \<Rightarrow> RespValue list \<Rightarrow> KeyCommand parse_result option" where
  "parse_key_cmd name a =
     (if name = ''TYPE'' then Some (one_key a Type)
      else if name = ''RENAME'' then Some (two_args a Rename)
      else if name = ''RANDOMKEY'' then Some (rbind (ensure_arg_count a 1) (\<lambda>_. Inr RandomKey))
      else None)"

definition parse_conn_cmd :: "bytes \<Rightarrow> RespValue list \<Rightarrow> ConnCommand parse_result option" where
  "parse_conn_cmd name a =
     (if name = ''PUBLISH'' then Some (two_args a Publish)
      else if name = ''SUBSCRIBE''
      then Some (all_keys ''SUBSCRIBE requires at least 1 channel'' a Subscribe)
      else if name = ''UNSUBSCRIBE'' then Some
        (rbind (if length a = 1 then Inr [] else extract_all (drop 1 a))
           (\<lambda>channels. Inr (Unsubscribe channels)))
      else if name = ''MULTI'' then Some (rbind (ensure_arg_count a 1) (\<lambda>_. Inr Multi))
      else if name = ''EXEC'' then Some (rbind (ensure_arg_count a 1) (\<lambda>_. Inr Exec))
      else if name = ''DISCARD'' then Some (rbind (ensure_arg_count a 1) (\<lambda>_. Inr Discard))
      else if name = ''WATCH'' then Some (all_keys ''WATCH requires at least 1 key'' a Watch)
      else if name = ''UNWATCH'' then Some (rbind (ensure_arg_count a 1) (\<lambda>_. Inr Unwatch))
      else None)"

definition parse_xread :: "RespValue list \<Rightarrow> StreamCommand parse_result" where
  "parse_xread a =
     rbind (if length a > 2
            then rbind (extract_bulk_string (a ! 1)) (\<lambda>kw.
                   if keyword kw = ''COUNT''
                   then rbind (extract_integer (a ! 2)) (\<lambda>n. Inr (Some (as_usize (max n 0)), 3))
                   else Inr (None, 1))
            else Inr (None, 1)) (\<lambda>(cnt, idx1).
     rbind (if length a > idx1 + 1
            then rbind (extract_bulk_string (a ! idx1)) (\<lambda>kw.
                   Inr (if keyword kw = ''BLOCK'' then idx1 + 2 else idx1))
            else Inr idx1) (\<lambda>idx2.
     if length a \<le> idx2 then Inl (Msg ''XREAD requires STREAMS keyword'')
     else rbind (extract_bulk_string (a ! idx2)) (\<lambda>kw.
       if keyword kw \<noteq> ''STREAMS'' then Inl (Msg ''XREAD: expected STREAMS'')
       else
         (let idx = idx2 + 1; remaining = length a - idx
          in if remaining = 0 \<or> remaining mod 2 \<noteq> 0
             then Inl (Msg ''XREAD: STREAMS must be followed by an even number of args'')
             else
               (let n = remaining div 2
                in rbind (extract_all (take n (drop idx a))) (\<lambda>keys.
                   rbind (extract_all (take n (drop (idx + n) a))) (\<lambda>ids.
                   Inr (XRead cnt keys (map utf8_lossy ids)))))))))"

definition parse_stream_cmd :: "bytes \<Rightarrow> RespValue list \<Rightarrow> StreamCommand parse_result option" where
  "parse_stream_cmd name a =
     (if name = ''XADD'' then Some
        (if length a < 5 \<or> (length a - 3) mod 2 \<noteq> 0
         then Inl (Msg ''XADD requires key, id, and at least one field/value pair'')
         else rbind (extract_bulk_string (a ! 1)) (\<lambda>key.
              rbind (extract_bulk_string (a ! 2)) (\<lambda>id_bytes.
              let id_str = utf8_lossy id_bytes
              in rbind (extract_pairs (drop 3 a)) (\<lambda>fvs.
                 Inr (XAdd key (if id_str = ''*'' then None else Some id_str) fvs)))))
      else if name = ''XLEN'' then Some (one_key a XLen)
      else if name = ''XRANGE'' then Some
        (if length a < 4 \<or> length a = 5 \<or> length a > 6
         then Inl (Msg ''XRANGE requires key, start, end, [COUNT n]'')
         else rbind (if length a = 6
                     then rbind (extract_bulk_string (a ! 4)) (\<lambda>kw.
                            if keyword kw \<noteq> ''COUNT''
                            then Inl (Msg ''XRANGE: expected COUNT keyword'')
                            else rbind (extract_integer (a ! 5)) (\<lambda>n. Inr (Some (as_usize (max n 0)))))
                     else Inr None) (\<lambda>cnt.
              rbind (extract_bulk_string (a ! 1)) (\<lambda>key.
              rbind (extract_bulk_string (a ! 2)) (\<lambda>start.
              rbind (extract_bulk_string (a ! 3)) (\<lambda>stop.
              Inr (XRange key (utf8_lossy start) (utf8_lossy stop) cnt))))))
      else if name = ''XREAD'' then Some (parse_xread a)
      else None)"

definition parse_lua_cmd :: "bytes \<Rightarrow> RespValue list \<Rightarrow> ScriptCommand parse_result option" where
  "parse_lua_cmd name a =
     (if name = ''EVAL'' \<or> name = ''EVALSHA'' then Some
        (if length a < 3 then Inl (Msg (name @ '' requires script + numkeys''))
         else rbind (extract_bulk_string (a ! 1)) (\<lambda>script_or_sha.
              rbind (extract_integer (a ! 2)) (\<lambda>n.
              let numkeys = as_usize (max n 0)
              in if length a < 3 + numkeys
                 then Inl (Msg (name @ '': not enough keys for numkeys='' @ nat_to_string numkeys))
                 else rbind (extract_all (take numkeys (drop 3 a))) (\<lambda>keys.
                      rbind (extract_all (drop (3 + numkeys) a)) (\<lambda>argv.
                      Inr (if name = ''EVAL'' then LuaEval (utf8_lossy script_or_sha) keys argv
                           else LuaEvalSha (utf8_lossy script_or_sha) keys argv))))))
      else None)"

fun first_some :: "'a option list \<Rightarrow> 'a \<Rightarrow> 'a" where
  "first_some [] d = d"
| "first_some (None # xs) d = first_some xs d"
| "first_some (Some x # xs) d = x"

definition lift_cmd :: "('c \<Rightarrow> Command) \<Rightarrow> 'c parse_result option \<Rightarrow> Command parse_result option" where
  "lift_cmd f = map_option (map_sum id f)"

definition parse_command :: "env \<Rightarrow> RespValue \<Rightarrow> Command parse_result" where
  "parse_command E resp =
     (case resp of
        RespArray a \<Rightarrow>
          if a = [] then Inl (Msg ''Empty command'')
          else rbind (extract_bulk_string (a ! 0)) (\<lambda>cmd_bytes.
            let name = keyword cmd_bytes
            in first_some
                 [lift_cmd C_String (parse_string_cmd name a),
                  lift_cmd C_Hash (parse_hash_cmd name a),
                  lift_cmd C_List (parse_list_cmd name a),
                  lift_cmd C_Set (parse_set_cmd name a),
                  lift_cmd C_ZSet (parse_zset_cmd E name a),
                  lift_cmd C_Key (parse_server_cmd name a),
                  lift_cmd C_Conn (parse_auth_cmd name a),
                  lift_cmd C_String (parse_more_string_cmd E name a),
                  lift_cmd C_Hash (parse_more_hash_cmd name a),
                  lift_cmd C_List (parse_more_list_cmd name a),
                  lift_cmd C_Set (parse_more_set_cmd name a),
                  lift_cmd C_ZSet (parse_more_zset_cmd E name a),
                  lift_cmd C_Key (parse_key_cmd name a),
                  lift_cmd C_Conn (parse_conn_cmd name a),
                  lift_cmd C_Stream (parse_stream_cmd name a),
                  lift_cmd C_Script (parse_lua_cmd name a)]
                 (Inl (Msg (''Unknown command: '' @ name))))
      | _ \<Rightarrow> Inl (Msg ''Command must be an array''))"

subsection \<open>The client side\<close>

fun command_to_resp :: "Command \<Rightarrow> RespValue" where
  "command_to_resp (C_String (Get key)) =
     RespArray [BulkString (Some ''GET''), BulkString (Some key)]"
| "command_to_resp (C_String (Set key value ttl_secs)) =
     RespArray ([BulkString (Some ''SET''), BulkString (Some key), BulkString (Some value)] @
       (case ttl_secs of
          None \<Rightarrow> []
        | Some ttl \<Rightarrow> [BulkString (Some ''EX''), BulkString (Some (nat_to_string ttl))]))"
| "command_to_resp (C_String (Delete key)) =
     RespArray [BulkString (Some ''DEL''), BulkString (Some key)]"
| "command_to_resp _ = RespError ''Command serialization not implemented''"

definition serialize_command :: "Command \<Rightarrow> bytes" where
  "serialize_command cmd = serialize_resp (command_to_resp cmd)"

end
