(* ===== verification/Protocol_Properties.thy ===== *)
theory Protocol_Properties
  imports Command_Parser
begin

text \<open>What the RESP codec and the command parser guarantee.\<close>

text \<open>
  (C16) RESP round trip: what the serializer writes for a well-formed value of any depth, the
  parser reads back as that value, leaving exactly the bytes that follow.
\<close>

theorem resp_roundtrip:
  assumes "resp_ok cap v"
  shows "parse_resp cap (serialize_resp v @ rest) = Parsed v rest"
  using write_resp_parses [OF assms] by (simp add: serialize_resp_def)

theorem resp_roundtrip_witness:
  "parse_resp 10 (serialize_resp (RespArray [BulkString (Some ''GET''), RespArray [RespInteger (- 7), BulkString None]]) @ ''+O'') =
     Parsed (RespArray [BulkString (Some ''GET''), RespArray [RespInteger (- 7), BulkString None]]) ''+O''"
  by (rule resp_roundtrip) (simp add: in_i64_def)

text \<open>
  (C18) A frame the parser accepts is a non-empty prefix of the buffer, and bytes that arrive
  later change neither the value nor where it ends; a panic too is final.
\<close>

theorem parse_incremental:
  shows "(parse_resp cap buf = Parsed v rest \<longrightarrow>
      (\<exists>used. used \<noteq> [] \<and> buf = used @ rest) \<and> parse_resp cap (buf @ later) = Parsed v (rest @ later)) \<and>
    (parse_resp cap buf = Panicked \<longrightarrow> parse_resp cap (buf @ later) = Panicked)"
  using parse_resp_suffix parse_extend(1) parse_panic_extend(1) by blast

theorem parse_incremental_witness:
  "parse_resp 10 (''+OK'' @ CRLF @ '':1'' @ CRLF) = Parsed (SimpleString ''OK'') ('':1'' @ CRLF)"
proof -
  have "parse_resp 10 (''+OK'' @ CRLF) = Parsed (SimpleString ''OK'') []"
    by (simp add: parse_simple_string_def read_line_def CRLF_def utf8_head_def)
  with parse_incremental [of 10 "''+OK'' @ CRLF" "SimpleString ''OK''" "[]" "'':1'' @ CRLF"]
  show ?thesis by simp
qed

text \<open>
  An array header that announces more elements than a vector can reserve makes the
  parser panic, whatever follows it and before any element is read.
\<close>

theorem huge_array_panics:
  assumes "cap < n" "n < 2 ^ 63"
  shows "parse_resp cap (CHR ''*'' # nat_to_string n @ CRLF @ rest) = Panicked"
  using assms array_header_parses [OF assms(2), of rest] as_usize_int [OF assms(2)] by simp

theorem huge_array_panics_witness:
  "parse_resp 1000 (CHR ''*'' # nat_to_string 2000 @ CRLF @ []) = Panicked"
  by (rule huge_array_panics) simp_all

subsection \<open>The client's commands\<close>

fun client_command :: "nat \<Rightarrow> Command \<Rightarrow> bool" where
  "client_command cap (C_String (Get key)) = (length key < 2 ^ 63)"
| "client_command cap (C_String (Set key value ttl)) =
     (length key < 2 ^ 63 \<and> length value < 2 ^ 63 \<and> (case ttl of None \<Rightarrow> True | Some t \<Rightarrow> t < 2 ^ 32))"
| "client_command cap (C_String (Delete key)) = (length key < 2 ^ 63)"
| "client_command cap _ = False"

lemma nat_to_string_short: "n < 10 ^ k \<Longrightarrow> 0 < k \<Longrightarrow> length (nat_to_string n) \<le> k"
proof (induction k arbitrary: n)
  case (Suc k)
  show ?case
  proof (cases "n < 10")
    case True
    then show ?thesis by (simp add: nat_to_string.simps [of n])
  next
    case False
    then have "0 < k" using Suc.prems by (cases k) auto
    moreover have "n div 10 < 10 ^ k" using Suc.prems by (simp add: less_mult_imp_div_less mult.commute)
    ultimately have "length (nat_to_string (n div 10)) \<le> k" using Suc.IH by blast
    then show ?thesis using False by (simp add: nat_to_string.simps [of n])
  qed
qed simp

lemma command_to_resp_ok:
  assumes "client_command cap cmd" "5 \<le> cap"
  shows "resp_ok cap (command_to_resp cmd)"
  using assms
proof (induction cap cmd rule: client_command.induct)
  case (2 cap key val ttl)
  have "length (nat_to_string t) < 2 ^ 63" if "t < 2 ^ 32" for t
    using nat_to_string_short [of t 10] that by simp
  with 2 show ?case by (auto split: option.splits)
qed auto

lemma keyword_ascii: "is_ascii bs \<Longrightarrow> keyword bs = to_ascii_uppercase bs"
  by (simp add: keyword_def)

lemma keyword_literals [simp]:
  "keyword ''GET'' = ''GET''" "keyword ''SET'' = ''SET''" "keyword ''DEL'' = ''DEL''"
  "keyword ''EX'' = ''EX''"
  by (simp_all add: keyword_ascii to_ascii_uppercase_def ascii_upper_char_def)

lemma extract_ttl: "t < 2 ^ 32 \<Longrightarrow> extract_integer (BulkString (Some (nat_to_string t))) = Inr (int t)"
  using parse_i64_nat_to_string [of t] by (simp add: Let_def)

lemma set_options_ttl:
  assumes "t < 2 ^ 32"
  shows "set_options None [BulkString (Some ''EX''), BulkString (Some (nat_to_string t))] = Inr (Some t)"
proof -
  have "int t < 2 ^ 32" using assms by (metis of_nat_less_iff of_nat_numeral of_nat_power)
  then have "as_u32 (int t) = t" by (simp add: as_u32_def)
  then show ?thesis using extract_ttl [OF assms] by (simp del: extract_integer.simps)
qed

lemma client_command_parses:
  assumes "client_command cap cmd" "5 \<le> cap"
  shows "parse_command E (command_to_resp cmd) = Inr cmd"
  using assms
proof (induction cap cmd rule: client_command.induct)
  case (2 cap key val ttl)
  then show ?case
    by (cases ttl) (simp_all add: parse_command_def parse_string_cmd_def lift_cmd_def set_options_ttl
        del: set_options.simps(2))
qed (simp_all add: parse_command_def parse_string_cmd_def lift_cmd_def one_key_def ensure_arg_count_def)

text \<open>
  The client library and the server agree: the bytes the client sends for a GET, SET
  (with or without a TTL) or DEL are one frame, and the server parses it to that command.
\<close>

theorem command_roundtrip:
  assumes "client_command cap cmd" "5 \<le> cap"
  shows "parse_resp cap (serialize_command cmd @ rest) = Parsed (command_to_resp cmd) rest \<and>
    parse_command E (command_to_resp cmd) = Inr cmd"
  using write_resp_parses [OF command_to_resp_ok [OF assms]] client_command_parses [OF assms]
  by (simp add: serialize_command_def serialize_resp_def)

theorem command_roundtrip_witness:
  "parse_command sample_env (command_to_resp (C_String (Set ''k'' ''v'' (Some 60)))) =
     Inr (C_String (Set ''k'' ''v'' (Some 60)))"
proof -
  have "client_command 10 (C_String (Set ''k'' ''v'' (Some 60)))" by simp
  from command_roundtrip [OF this, of "[]" sample_env] show ?thesis by simp
qed

text \<open>
  The TTL of SET is rounded and truncated: PX keeps whole seconds only, so that a PX
  below 1000 gives a TTL of zero, and both options keep the low 32 bits of the number.
\<close>

theorem set_px_truncates:
  assumes "in_i64 n"
  shows "parse_command E (RespArray [BulkString (Some ''SET''), BulkString (Some key), BulkString (Some value),
      BulkString (Some ''PX''), BulkString (Some (int_to_string n))]) =
    Inr (C_String (Set key value (Some (nat (n mod 2 ^ 32) div 1000))))"
proof -
  have "keyword ''PX'' = ''PX''"
    by (simp add: keyword_ascii to_ascii_uppercase_def ascii_upper_char_def)
  then show ?thesis
    using parse_i64_int_to_string [OF assms]
    by (simp add: parse_command_def parse_string_cmd_def lift_cmd_def as_u32_def)
qed

theorem set_px_truncates_witness:
  "parse_command sample_env (RespArray [BulkString (Some ''SET''), BulkString (Some ''k''), BulkString (Some ''v''),
      BulkString (Some ''PX''), BulkString (Some (int_to_string 500))]) =
    Inr (C_String (Set ''k'' ''v'' (Some 0)))"
proof -
  have "in_i64 500" by (simp add: in_i64_def)
  from set_px_truncates [OF this] show ?thesis by simp
qed

end
