(* ===== verification/Apply_Command.thy ===== *)
theory Apply_Command
  imports Command_Parser Storage_Sorted
begin

text \<open>
  \<open>apply_write_command\<close> and \<open>is_write_command\<close> (commands.rs): the path by which the WAL
  replay and a replica apply a logged command to a storage. The result is \<open>None\<close> when the
  applying thread panics, with the storage it leaves.
\<close>

type_synonym applied = "unit option \<times> storage"

definition done_with :: "'r \<times> storage \<Rightarrow> applied" where
  "done_with rs = (Some (), snd rs)"

definition unless_panic :: "'r option \<times> storage \<Rightarrow> applied" where
  "unless_panic rs = (map_option (\<lambda>_. ()) (fst rs), snd rs)"

text \<open>
  \<open>Instant + Duration\<close>: an \<open>Instant\<close> counts its seconds in an \<open>i64\<close> and the addition panics
  when they overflow.
\<close>

definition instant_add :: "instant \<Rightarrow> nat \<Rightarrow> instant option" where
  "instant_add t d = (if (t + d) div 1000000000 < 2 ^ 63 then Some (t + d) else None)"

definition set_expiry_after :: "hasher \<Rightarrow> env \<Rightarrow> bytes \<Rightarrow> nat \<Rightarrow> storage \<Rightarrow> applied" where
  "set_expiry_after h E key d s =
     (case instant_add (now E) d of
        None \<Rightarrow> (None, s)
      | Some at \<Rightarrow> done_with (cs_set_expiry h E key at s))"

definition mset_loop :: "hasher \<Rightarrow> env \<Rightarrow> (bytes \<times> bytes) list \<Rightarrow> storage \<Rightarrow> storage" where
  "mset_loop h E pairs s = fold (\<lambda>(k, v) s. snd (cs_set h E k v None s)) pairs s"

definition hmset_loop :: "hasher \<Rightarrow> bytes \<Rightarrow> (bytes \<times> bytes) list \<Rightarrow> storage \<Rightarrow> storage" where
  "hmset_loop h key pairs s = fold (\<lambda>(f, v) s. snd (cs_hset h key f v s)) pairs s"

fun apply_string :: "hasher \<Rightarrow> env \<Rightarrow> StringCommand \<Rightarrow> storage \<Rightarrow> applied" where
  "apply_string h E (Set key value ttl_secs) s =
     done_with (cs_set h E key value (map_option secs ttl_secs) s)"
| "apply_string h E (Delete key) s = done_with (cs_delete h key s)"
| "apply_string h E (Incr key) s = done_with (cs_incr h key s)"
| "apply_string h E (Decr key) s = done_with (cs_decr h key s)"
| "apply_string h E (Append key value) s = done_with (cs_append h key value s)"
| "apply_string h E (SetNx key value) s = done_with (cs_set_nx h E key value s)"
| "apply_string h E (SetEx key seconds value) s = done_with (cs_set_ex h E key value (secs seconds) s)"
| "apply_string h E (GetSet key value) s = done_with (cs_get_set h E key value s)"
| "apply_string h E (MSet pairs) s = (Some (), mset_loop h E pairs s)"
| "apply_string h E (IncrBy key delta) s = done_with (cs_incr_by h key delta s)"
| "apply_string h E (DecrBy key delta) s = done_with (cs_incr_by h key (wrap_i64 (- delta)) s)"
| "apply_string h E (IncrByFloat key delta) s = done_with (cs_incr_by_float h E key delta s)"
| "apply_string h E _ s = (Some (), s)"

fun apply_hash :: "hasher \<Rightarrow> env \<Rightarrow> HashCommand \<Rightarrow> storage \<Rightarrow> applied" where
  "apply_hash h E (HSet key field value) s = done_with (cs_hset h key field value s)"
| "apply_hash h E (HDel key fs) s = done_with (cs_hdel h key fs s)"
| "apply_hash h E (HMSet key pairs) s = (Some (), hmset_loop h key pairs s)"
| "apply_hash h E (HSetNx key field value) s = done_with (cs_hset_nx h E key field value s)"
| "apply_hash h E (HIncrBy key field delta) s = done_with (cs_hincr_by h E key field delta s)"
| "apply_hash h E _ s = (Some (), s)"

fun apply_list :: "hasher \<Rightarrow> env \<Rightarrow> ListCommand \<Rightarrow> storage \<Rightarrow> applied" where
  "apply_list h E (LPush key values) s = done_with (cs_lpush h key values s)"
| "apply_list h E (RPush key values) s = done_with (cs_rpush h key values s)"
| "apply_list h E (LPop key) s = done_with (cs_lpop h key s)"
| "apply_list h E (RPop key) s = done_with (cs_rpop h key s)"
| "apply_list h E (LSet key index value) s = done_with (cs_lset h E key index value s)"
| "apply_list h E (LRem key cnt value) s = done_with (cs_lrem h E key cnt value s)"
| "apply_list h E (LTrim key start stop) s = unless_panic (cs_ltrim h E key start stop s)"
| "apply_list h E (RPopLPush source destination) s =
     done_with (cs_rpoplpush h E source destination s)"
| "apply_list h E _ s = (Some (), s)"

fun apply_set :: "hasher \<Rightarrow> env \<Rightarrow> SetCommand \<Rightarrow> storage \<Rightarrow> applied" where
  "apply_set h E (SAdd key members) s = done_with (cs_sadd h key members s)"
| "apply_set h E (SRem key members) s = done_with (cs_srem h key members s)"
| "apply_set h E (SPop key cnt) s =
     unless_panic (cs_spop h E key (case cnt of None \<Rightarrow> 1 | Some n \<Rightarrow> n) s)"
| "apply_set h E (SMove source destination member) s =
     done_with (cs_smove h E source destination member s)"
| "apply_set h E _ s = (Some (), s)"

fun apply_zset :: "hasher \<Rightarrow> env \<Rightarrow> ZSetCommand \<Rightarrow> storage \<Rightarrow> applied" where
  "apply_zset h E (ZAdd key members) s = done_with (cs_zadd h key members s)"
| "apply_zset h E (ZRem key members) s = done_with (cs_zrem h key members s)"
| "apply_zset h E (ZIncrBy key delta member) s = done_with (cs_zincr_by h E key delta member s)"
| "apply_zset h E (ZPopMin key cnt) s = unless_panic (cs_zpop_min h E key cnt s)"
| "apply_zset h E (ZPopMax key cnt) s = unless_panic (cs_zpop_max h E key cnt s)"
| "apply_zset h E _ s = (Some (), s)"

fun apply_key :: "hasher \<Rightarrow> env \<Rightarrow> KeyCommand \<Rightarrow> storage \<Rightarrow> applied" where
  "apply_key h E FlushAll s = (Some (), cs_flushall s)"
| "apply_key h E (Expire key seconds) s =
     (if seconds \<ge> 0 then set_expiry_after h E key (secs (nat seconds)) s else (Some (), s))"
| "apply_key h E (PExpire key n) s =
     (if n \<ge> 0 then set_expiry_after h E key (millis (nat n)) s else (Some (), s))"
| "apply_key h E (ExpireAt key unix_secs) s =
     (if unix_secs \<ge> 0 then
        (let now_unix = unix_ms E div 1000; target = nat unix_secs
         in if target > now_unix then set_expiry_after h E key (secs (target - now_unix)) s
            else done_with (cs_delete h key s))
      else (Some (), s))"
| "apply_key h E (Persist key) s = done_with (cs_persist h E key s)"
| "apply_key h E (Rename key new_key) s = done_with (cs_rename h E key new_key s)"
| "apply_key h E _ s = (Some (), s)"

fun apply_stream :: "hasher \<Rightarrow> env \<Rightarrow> StreamCommand \<Rightarrow> storage \<Rightarrow> applied" where
  "apply_stream h E (XAdd key req fvs) s =
     done_with (cs_xadd h E key
       (case req of
          None \<Rightarrow> None
        | Some t \<Rightarrow> (case stream_id_parse t False of Inl _ \<Rightarrow> None | Inr i \<Rightarrow> Some i)) fvs s)"
| "apply_stream h E _ s = (Some (), s)"

fun apply_write_command :: "hasher \<Rightarrow> env \<Rightarrow> Command \<Rightarrow> storage \<Rightarrow> applied" where
  "apply_write_command h E (C_String c) s = apply_string h E c s"
| "apply_write_command h E (C_Hash c) s = apply_hash h E c s"
| "apply_write_command h E (C_List c) s = apply_list h E c s"
| "apply_write_command h E (C_Set c) s = apply_set h E c s"
| "apply_write_command h E (C_ZSet c) s = apply_zset h E c s"
| "apply_write_command h E (C_Key c) s = apply_key h E c s"
| "apply_write_command h E (C_Stream c) s = apply_stream h E c s"
| "apply_write_command h E _ s = (Some (), s)"

fun is_write_command :: "Command \<Rightarrow> bool" where
  "is_write_command (C_String c) =
     (case c of Set _ _ _ \<Rightarrow> True | Delete _ \<Rightarrow> True | Incr _ \<Rightarrow> True | Decr _ \<Rightarrow> True
        | Append _ _ \<Rightarrow> True | SetNx _ _ \<Rightarrow> True | SetEx _ _ _ \<Rightarrow> True | GetSet _ _ \<Rightarrow> True
        | MSet _ \<Rightarrow> True | IncrBy _ _ \<Rightarrow> True | DecrBy _ _ \<Rightarrow> True | IncrByFloat _ _ \<Rightarrow> True
        | _ \<Rightarrow> False)"
| "is_write_command (C_Hash c) =
     (case c of HSet _ _ _ \<Rightarrow> True | HDel _ _ \<Rightarrow> True | HMSet _ _ \<Rightarrow> True | HSetNx _ _ _ \<Rightarrow> True
        | HIncrBy _ _ _ \<Rightarrow> True | _ \<Rightarrow> False)"
| "is_write_command (C_List c) =
     (case c of LPush _ _ \<Rightarrow> True | RPush _ _ \<Rightarrow> True | LPop _ \<Rightarrow> True | RPop _ \<Rightarrow> True
        | LSet _ _ _ \<Rightarrow> True | LRem _ _ _ \<Rightarrow> True | LTrim _ _ _ \<Rightarrow> True | RPopLPush _ _ \<Rightarrow> True
        | _ \<Rightarrow> False)"
| "is_write_command (C_Set c) =
     (case c of SAdd _ _ \<Rightarrow> True | SRem _ _ \<Rightarrow> True | SPop _ _ \<Rightarrow> True | SMove _ _ _ \<Rightarrow> True
        | _ \<Rightarrow> False)"
| "is_write_command (C_ZSet c) =
     (case c of ZAdd _ _ \<Rightarrow> True | ZRem _ _ \<Rightarrow> True | ZIncrBy _ _ _ \<Rightarrow> True | ZPopMin _ _ \<Rightarrow> True
        | ZPopMax _ _ \<Rightarrow> True | _ \<Rightarrow> False)"
| "is_write_command (C_Key c) =
     (case c of FlushAll \<Rightarrow> True | Expire _ _ \<Rightarrow> True | PExpire _ _ \<Rightarrow> True | ExpireAt _ _ \<Rightarrow> True
        | Persist _ \<Rightarrow> True | Rename _ _ \<Rightarrow> True | _ \<Rightarrow> False)"
| "is_write_command (C_Stream c) = (case c of XAdd _ _ _ \<Rightarrow> True | _ \<Rightarrow> False)"
| "is_write_command _ = False"

lemma non_writes_change_nothing:
  assumes "\<not> is_write_command cmd"
  shows "apply_write_command h E cmd s = (Some (), s)"
  using assms
proof (cases cmd)
  case (C_String c)
  with assms show ?thesis by (cases c) simp_all
next
  case (C_Hash c)
  with assms show ?thesis by (cases c) simp_all
next
  case (C_List c)
  with assms show ?thesis by (cases c) simp_all
next
  case (C_Set c)
  with assms show ?thesis by (cases c) simp_all
next
  case (C_ZSet c)
  with assms show ?thesis by (cases c) simp_all
next
  case (C_Key c)
  with assms show ?thesis by (cases c) simp_all
next
  case (C_Stream c)
  with assms show ?thesis by (cases c) simp_all
qed simp_all

subsection \<open>The invariant\<close>

text \<open>
  What a command must not bring in: a score that is not a number, or an automatic stream id
  after the largest one.
\<close>

definition requested_id :: "bytes option \<Rightarrow> StreamId option" where
  "requested_id req =
     (case req of
        None \<Rightarrow> None
      | Some t \<Rightarrow> (case stream_id_parse t False of Inl _ \<Rightarrow> None | Inr i \<Rightarrow> Some i))"

fun command_ok :: "hasher \<Rightarrow> env \<Rightarrow> storage \<Rightarrow> Command \<Rightarrow> bool" where
  "command_ok h E s (C_ZSet (ZAdd key members)) = list_all (\<lambda>(x, m). not_nan x) members"
| "command_ok h E s (C_ZSet (ZIncrBy key delta member)) = zincr_ok E delta member (lookup h s key)"
| "command_ok h E s (C_Stream (XAdd key req fvs)) = xadd_ok E (requested_id req) (lookup h s key)"
| "command_ok h E s _ = True"

lemma snd_done_with [simp]: "snd (done_with rs) = snd rs"
  by (simp add: done_with_def)

lemma snd_unless_panic [simp]: "snd (unless_panic rs) = snd rs"
  by (simp add: unless_panic_def)

lemma set_expiry_after_inv [storage_inv_intros]:
  "storage_inv h s \<Longrightarrow> storage_inv h (snd (set_expiry_after h E k d s))"
  by (simp add: set_expiry_after_def storage_inv_intros split: option.split)

lemma mset_loop_inv [storage_inv_intros]: "storage_inv h s \<Longrightarrow> storage_inv h (mset_loop h E ps s)"
  unfolding mset_loop_def by (induction ps arbitrary: s) (auto simp: split_beta storage_inv_intros)

lemma hmset_loop_inv [storage_inv_intros]: "storage_inv h s \<Longrightarrow> storage_inv h (hmset_loop h k ps s)"
  unfolding hmset_loop_def by (induction ps arbitrary: s) (auto simp: split_beta storage_inv_intros)

lemma apply_string_inv: "storage_inv h s \<Longrightarrow> storage_inv h (snd (apply_string h E c s))"
  by (cases c) (simp_all add: storage_inv_intros)

lemma apply_hash_inv: "storage_inv h s \<Longrightarrow> storage_inv h (snd (apply_hash h E c s))"
  by (cases c) (simp_all add: storage_inv_intros)

lemma apply_list_inv: "storage_inv h s \<Longrightarrow> storage_inv h (snd (apply_list h E c s))"
  by (cases c) (simp_all add: storage_inv_intros)

lemma apply_set_inv: "storage_inv h s \<Longrightarrow> storage_inv h (snd (apply_set h E c s))"
  by (cases c) (simp_all add: storage_inv_intros)

lemma apply_key_inv: "storage_inv h s \<Longrightarrow> storage_inv h (snd (apply_key h E c s))"
  by (cases c) (simp_all add: storage_inv_intros Let_def)

lemma apply_zset_inv:
  "storage_inv h s \<Longrightarrow> command_ok h E s (C_ZSet c) \<Longrightarrow> storage_inv h (snd (apply_zset h E c s))"
  by (cases c) (simp_all add: storage_inv_intros cs_zadd_inv cs_zincr_by_inv)

lemma apply_stream_inv:
  "storage_inv h s \<Longrightarrow> command_ok h E s (C_Stream c) \<Longrightarrow> storage_inv h (snd (apply_stream h E c s))"
  by (cases c) (simp_all add: cs_xadd_inv requested_id_def)

lemma apply_write_command_inv:
  assumes "storage_inv h s" "command_ok h E s cmd"
  shows "storage_inv h (snd (apply_write_command h E cmd s))"
  using assms
  by (cases cmd) (simp_all add: apply_string_inv apply_hash_inv apply_list_inv apply_set_inv
      apply_key_inv apply_zset_inv apply_stream_inv)

subsection \<open>The keys a command touches\<close>

fun touched_keys :: "Command \<Rightarrow> bytes set" where
  "touched_keys (C_String c) =
     (case c of Get k \<Rightarrow> {k} | Set k _ _ \<Rightarrow> {k} | Delete k \<Rightarrow> {k} | Incr k \<Rightarrow> {k} | Decr k \<Rightarrow> {k}
        | Append k _ \<Rightarrow> {k} | Strlen k \<Rightarrow> {k} | SetNx k _ \<Rightarrow> {k} | SetEx k _ _ \<Rightarrow> {k}
        | GetSet k _ \<Rightarrow> {k} | MGet ks \<Rightarrow> set ks | MSet ps \<Rightarrow> fst ` set ps | GetRange k _ _ \<Rightarrow> {k}
        | IncrBy k _ \<Rightarrow> {k} | DecrBy k _ \<Rightarrow> {k} | IncrByFloat k _ \<Rightarrow> {k})"
| "touched_keys (C_Hash c) =
     (case c of HGet k _ \<Rightarrow> {k} | HSet k _ _ \<Rightarrow> {k} | HDel k _ \<Rightarrow> {k} | HGetAll k \<Rightarrow> {k}
        | HKeys k \<Rightarrow> {k} | HVals k \<Rightarrow> {k} | HLen k \<Rightarrow> {k} | HExists k _ \<Rightarrow> {k} | HMGet k _ \<Rightarrow> {k}
        | HMSet k _ \<Rightarrow> {k} | HSetNx k _ _ \<Rightarrow> {k} | HIncrBy k _ _ \<Rightarrow> {k})"
| "touched_keys (C_List c) =
     (case c of LPush k _ \<Rightarrow> {k} | RPush k _ \<Rightarrow> {k} | LPop k \<Rightarrow> {k} | RPop k \<Rightarrow> {k}
        | LRange k _ _ \<Rightarrow> {k} | LLen k \<Rightarrow> {k} | LIndex k _ \<Rightarrow> {k} | LSet k _ _ \<Rightarrow> {k}
        | LRem k _ _ \<Rightarrow> {k} | LTrim k _ _ \<Rightarrow> {k} | RPopLPush k k' \<Rightarrow> {k, k'})"
| "touched_keys (C_Set c) =
     (case c of SAdd k _ \<Rightarrow> {k} | SRem k _ \<Rightarrow> {k} | SMembers k \<Rightarrow> {k} | SIsMember k _ \<Rightarrow> {k}
        | SCard k \<Rightarrow> {k} | SInter ks \<Rightarrow> set ks | SUnion ks \<Rightarrow> set ks | SDiff ks \<Rightarrow> set ks
        | SPop k _ \<Rightarrow> {k} | SRandMember k _ \<Rightarrow> {k} | SMove k k' _ \<Rightarrow> {k, k'})"
| "touched_keys (C_ZSet c) =
     (case c of ZAdd k _ \<Rightarrow> {k} | ZRem k _ \<Rightarrow> {k} | ZRange k _ _ _ \<Rightarrow> {k} | ZRank k _ \<Rightarrow> {k}
        | ZScore k _ \<Rightarrow> {k} | ZCard k \<Rightarrow> {k} | ZCount k _ _ \<Rightarrow> {k} | ZIncrBy k _ _ \<Rightarrow> {k}
        | ZRangeByScore k _ _ _ \<Rightarrow> {k} | ZRevRange k _ _ _ \<Rightarrow> {k} | ZPopMin k _ \<Rightarrow> {k}
        | ZPopMax k _ \<Rightarrow> {k})"
| "touched_keys (C_Key c) =
     (case c of Exists ks \<Rightarrow> set ks | FlushAll \<Rightarrow> UNIV | Expire k _ \<Rightarrow> {k} | PExpire k _ \<Rightarrow> {k}
        | ExpireAt k _ \<Rightarrow> {k} | Ttl k \<Rightarrow> {k} | PTtl k \<Rightarrow> {k} | Persist k \<Rightarrow> {k} | Type k \<Rightarrow> {k}
        | Rename k k' \<Rightarrow> {k, k'} | _ \<Rightarrow> {})"
| "touched_keys (C_Stream c) =
     (case c of XAdd k _ _ \<Rightarrow> {k} | XLen k \<Rightarrow> {k} | XRange k _ _ _ \<Rightarrow> {k} | XRead _ ks _ \<Rightarrow> set ks)"
| "touched_keys _ = {}"

text \<open>The operations that are one \<open>with_entry\<close> on the key they are given.\<close>

lemmas entry_ops = cs_set_def cs_delete_def cs_incr_def cs_decr_def cs_append_def cs_set_nx_def
  cs_set_ex_def cs_get_set_def cs_incr_by_def cs_incr_by_float_def cs_set_expiry_def cs_persist_def
  cs_hset_def cs_hdel_def cs_hset_nx_def cs_hincr_by_def cs_lpush_def cs_rpush_def cs_lpop_def
  cs_rpop_def cs_lset_def cs_lrem_def cs_ltrim_def rpoplpush_pop_def rpoplpush_push_def
  cs_sadd_def cs_srem_def cs_spop_def smove_take_def smove_put_def cs_zadd_def cs_zrem_def
  cs_zincr_by_def cs_zpop_min_def cs_zpop_max_def cs_xadd_def

definition framed :: "hasher \<Rightarrow> bytes \<Rightarrow> storage \<Rightarrow> storage \<Rightarrow> bool" where
  "framed h k s s' \<longleftrightarrow> (sharded h s \<longrightarrow> sharded h s' \<and> lookup h s' k = lookup h s k)"

lemma framed_refl [simp]: "framed h k s s"
  by (simp add: framed_def)

lemma framed_trans: "framed h k s s' \<Longrightarrow> framed h k s' s'' \<Longrightarrow> framed h k s s''"
  by (simp add: framed_def)

lemma framed_entry [simp]: "j \<noteq> k \<Longrightarrow> framed h k s (snd (with_entry h j f s))"
  by (simp add: framed_def sharded_store.wf_entry sharded_store.entry_frame)

lemma framed_two:
  assumes "j \<noteq> k" "j' \<noteq> k"
  shows "framed h k s (snd (with_entry h j' g (snd (with_entry h j f s))))"
  using framed_trans [OF framed_entry framed_entry] assms by blast

lemma framed_rename: "j \<noteq> k \<Longrightarrow> j' \<noteq> k \<Longrightarrow> framed h k s (snd (cs_rename h E j j' s))"
  by (auto simp: cs_rename_def split_beta framed_two split: option.split)

lemma framed_rpoplpush:
  assumes "j \<noteq> k" "j' \<noteq> k"
  shows "framed h k s (snd (cs_rpoplpush h E j j' s))"
proof -
  have "framed h k s (snd (rpoplpush_pop h E j s))" using assms by (simp add: rpoplpush_pop_def)
  moreover have "framed h k s (snd (rpoplpush_push h E j' v (snd (rpoplpush_pop h E j s))))" for v
    unfolding rpoplpush_pop_def rpoplpush_push_def using assms by (rule framed_two)
  ultimately show ?thesis
    by (auto simp: cs_rpoplpush_def split: prod.splits sum.splits option.splits) (metis snd_conv)+
qed

lemma framed_smove:
  assumes "j \<noteq> k" "j' \<noteq> k"
  shows "framed h k s (snd (cs_smove h E j j' m s))"
proof -
  have "framed h k s (snd (smove_take h E j m s))" using assms by (simp add: smove_take_def)
  moreover have "framed h k s (snd (smove_put h E j' m (snd (smove_take h E j m s))))"
    unfolding smove_take_def smove_put_def using assms by (rule framed_two)
  ultimately show ?thesis
    by (auto simp: cs_smove_def split: prod.splits sum.splits bool.splits)
qed

lemma framed_set_expiry_after: "j \<noteq> k \<Longrightarrow> framed h k s (snd (set_expiry_after h E j d s))"
  by (simp add: set_expiry_after_def cs_set_expiry_def split: option.split)

lemma framed_mset_loop: "k \<notin> fst ` set ps \<Longrightarrow> framed h k s (mset_loop h E ps s)"
  unfolding mset_loop_def
proof (induction ps arbitrary: s)
  case (Cons p ps)
  have "framed h k s (snd (cs_set h E (fst p) (snd p) None s))"
    using Cons.prems by (auto simp: cs_set_def intro!: framed_entry)
  then show ?case using Cons.IH Cons.prems by (auto simp: split_beta intro: framed_trans)
qed simp

lemma framed_hmset_loop: "j \<noteq> k \<Longrightarrow> framed h k s (hmset_loop h j ps s)"
  unfolding hmset_loop_def
proof (induction ps arbitrary: s)
  case (Cons p ps)
  have "framed h k s (snd (cs_hset h j (fst p) (snd p) s))"
    using Cons.prems by (simp add: cs_hset_def)
  then show ?case using Cons.IH Cons.prems by (auto simp: split_beta intro: framed_trans)
qed simp

lemmas framed_ops = framed_rename framed_rpoplpush framed_smove framed_set_expiry_after
  framed_mset_loop framed_hmset_loop

lemma apply_write_command_framed:
  assumes "k \<notin> touched_keys cmd"
  shows "framed h k s (snd (apply_write_command h E cmd s))"
proof (cases cmd)
  case (C_String c)
  with assms show ?thesis by (cases c) (auto simp: framed_ops entry_ops)
next
  case (C_Hash c)
  with assms show ?thesis by (cases c) (auto simp: framed_ops entry_ops)
next
  case (C_List c)
  with assms show ?thesis by (cases c) (auto simp: framed_ops entry_ops)
next
  case (C_Set c)
  with assms show ?thesis by (cases c) (auto simp: framed_ops entry_ops)
next
  case (C_ZSet c)
  with assms show ?thesis by (cases c) (auto simp: framed_ops entry_ops)
next
  case (C_Key c)
  with assms show ?thesis by (cases c) (auto simp: framed_ops entry_ops Let_def)
next
  case (C_Stream c)
  with assms show ?thesis by (cases c) (auto simp: entry_ops)
qed simp_all

end
