(* ===== verification/Scripting.thy ===== *)
theory Scripting
  imports Apply_Command
begin

unbundle bit_operations_syntax

text \<open>
  Lua scripting (scripting.rs). The interpreter is the third-party \<open>mlua\<close> and is a parameter:
  a script that runs to an end is a tree of the calls it makes to \<open>redis.call\<close>, each with the
  continuation for what the bridge returns (a script may catch the error), down to the value
  or the error it ends with. The bridge, the conversions and the script cache are the
  program's own and are modelled in full. A script reads one clock.
\<close>

datatype lua_value =
    LuaNil
  | LuaBoolean bool
  | LuaInteger int
  | LuaNumber f64
  | LuaString bytes
  | LuaTable "lua_value list"
  | LuaOther

datatype lua_run =
    Lua_Done lua_value
  | Lua_Fail bytes
  | Lua_Call "lua_value list" "bytes + lua_value \<Rightarrow> lua_run"

text \<open>\<open>Inl\<close> is the error of an interpreter that cannot be created.\<close>

type_synonym mlua = "bytes + (bytes \<Rightarrow> bytes list \<Rightarrow> bytes list \<Rightarrow> lua_run)"

type_synonym acl_check = "bytes \<Rightarrow> bytes option \<Rightarrow> bool"

definition allow_all_acl :: acl_check where
  "allow_all_acl cmd key = True"

subsection \<open>Conversions\<close>

text \<open>The cast \<open>f as i64\<close>: truncation toward zero, saturating, and 0 for NaN.\<close>

definition f64_as_i64 :: "f64 \<Rightarrow> int" where
  "f64_as_i64 f =
     (let e = unat (drop_bit 52 f AND 2047); m = unat (f AND (2 ^ 52 - 1));
          mag = (if e = 0 then 0
                 else if e \<ge> 1075 then (2 ^ 52 + m) * 2 ^ (e - 1075)
                 else (2 ^ 52 + m) div 2 ^ (1075 - e));
          x = (if bit f 63 then - int mag else int mag)
      in if e = 2047 \<and> m \<noteq> 0 then 0 else max (- (2 ^ 63)) (min (2 ^ 63 - 1) x))"

fun table_item :: "env \<Rightarrow> lua_value \<Rightarrow> bytes" where
  "table_item E (LuaString s) = s"
| "table_item E (LuaInteger n) = int_to_string n"
| "table_item E (LuaNumber f) = f64_to_string E f"
| "table_item E _ = []"

text \<open>A table is the list of its values from index 1 on; the loop stops at the first nil.\<close>

fun lua_to_response :: "env \<Rightarrow> lua_value \<Rightarrow> Response" where
  "lua_to_response E LuaNil = R_Null"
| "lua_to_response E (LuaBoolean b) = (if b then R_Ok else R_Null)"
| "lua_to_response E (LuaInteger n) = R_Integer n"
| "lua_to_response E (LuaNumber f) = R_Integer (f64_as_i64 f)"
| "lua_to_response E (LuaString s) = R_Value s"
| "lua_to_response E (LuaTable vs) = R_Array (map (table_item E) (takeWhile (\<lambda>v. v \<noteq> LuaNil) vs))"
| "lua_to_response E LuaOther = R_Null"

fun response_to_lua :: "Response \<Rightarrow> bytes + lua_value" where
  "response_to_lua R_Ok = Inr (LuaBoolean True)"
| "response_to_lua R_NotFound = Inr (LuaBoolean False)"
| "response_to_lua R_Null = Inr (LuaBoolean False)"
| "response_to_lua (R_Integer n) = Inr (LuaInteger n)"
| "response_to_lua (R_Value b) = Inr (LuaString b)"
| "response_to_lua (R_Array items) = Inr (LuaTable (map LuaString items))"
| "response_to_lua (R_Error msg) = Inl msg"
| "response_to_lua (R_Raw _) = Inr (LuaBoolean True)"

text \<open>\<open>to_str\<close> succeeds on valid UTF-8, which is what the lossy decoder leaves as it is.\<close>

fun lua_string_arg :: "lua_value list \<Rightarrow> nat \<Rightarrow> bytes option" where
  "lua_string_arg v idx =
     (if idx < length v then
        (case v ! idx of LuaString s \<Rightarrow> if utf8_lossy s = s then Some s else None | _ \<Rightarrow> None)
      else None)"

fun lua_bytes_arg :: "env \<Rightarrow> lua_value \<Rightarrow> bytes option" where
  "lua_bytes_arg E (LuaString s) = Some s"
| "lua_bytes_arg E (LuaInteger n) = Some (int_to_string n)"
| "lua_bytes_arg E (LuaNumber f) = Some (f64_to_string E f)"
| "lua_bytes_arg E _ = None"

subsection \<open>The bridge\<close>

text \<open>
  A call returns its response, the storage, and the write it records, if any.
\<close>

type_synonym bridged = "Response \<times> storage \<times> Command list"

definition recorded :: "('a \<Rightarrow> Response) \<Rightarrow> Command \<Rightarrow> 'a result \<times> storage \<Rightarrow> bridged" where
  "recorded f c rs = (case rs of
     (Inl e, s) \<Rightarrow> (R_Error e, s, []) | (Inr x, s) \<Rightarrow> (f x, s, [c]))"

definition bridge_strings :: "hasher \<Rightarrow> env \<Rightarrow> bytes \<Rightarrow> bytes list \<Rightarrow> storage \<Rightarrow> bridged option" where
  "bridge_strings h E upper args s =
     (if upper = ''GET'' then
        Some (case args of
           [] \<Rightarrow> (R_Error ''ERR GET key'', s, [])
         | k # _ \<Rightarrow> (case cs_get h E k s of Some v \<Rightarrow> (R_Value v, s, []) | None \<Rightarrow> (R_Null, s, [])))
      else if upper = ''SET'' then
        Some (case args of
           key # value # _ \<Rightarrow>
             (R_Ok, snd (cs_set h E key value None s), [C_String (Set key value None)])
         | _ \<Rightarrow> (R_Error ''ERR SET key value'', s, []))
      else if upper = ''DEL'' \<or> upper = ''DELETE'' then
        Some (case args of
           [] \<Rightarrow> (R_Error ''ERR DEL key'', s, [])
         | k # _ \<Rightarrow> (case cs_delete h k s of (deleted, s') \<Rightarrow>
             (R_Integer (if deleted then 1 else 0), s',
              if deleted then [C_String (Delete k)] else [])))
      else if upper = ''EXISTS'' then
        Some (R_Integer (int (cs_exists h E args s)), s, [])
      else if upper = ''INCR'' then
        Some (case args of
           k # _ \<Rightarrow> recorded R_Integer (C_String (Incr k)) (cs_incr h k s)
         | [] \<Rightarrow> (R_Error ''ERR INCR key'', s, []))
      else if upper = ''DECR'' then
        Some (case args of
           k # _ \<Rightarrow> recorded R_Integer (C_String (Decr k)) (cs_decr h k s)
         | [] \<Rightarrow> (R_Error ''ERR DECR key'', s, []))
      else None)"

definition bridge_collections :: "hasher \<Rightarrow> env \<Rightarrow> bytes \<Rightarrow> bytes list \<Rightarrow> storage \<Rightarrow> bridged option" where
  "bridge_collections h E upper args s =
     (if upper = ''HGET'' then
        Some (case args of
           key # field # _ \<Rightarrow>
             (case cs_hget h E key field s of Some v \<Rightarrow> (R_Value v, s, []) | None \<Rightarrow> (R_Null, s, []))
         | _ \<Rightarrow> (R_Error ''ERR HGET key field'', s, []))
      else if upper = ''HSET'' then
        Some (case args of
           key # field # v # _ \<Rightarrow>
             recorded (\<lambda>_. R_Integer 1) (C_Hash (HSet key field v)) (cs_hset h key field v s)
         | _ \<Rightarrow> (R_Error ''ERR HSET key field value'', s, []))
      else if upper = ''LPUSH'' \<or> upper = ''RPUSH'' then
        Some (case args of
           key # v # vals \<Rightarrow>
             if upper = ''LPUSH''
             then recorded (\<lambda>n. R_Integer (int n)) (C_List (LPush key (v # vals))) (cs_lpush h key (v # vals) s)
             else recorded (\<lambda>n. R_Integer (int n)) (C_List (RPush key (v # vals))) (cs_rpush h key (v # vals) s)
         | _ \<Rightarrow> (R_Error (''ERR '' @ upper @ '' key value''), s, []))
      else if upper = ''SADD'' then
        Some (case args of
           key # m # ms \<Rightarrow>
             recorded (\<lambda>n. R_Integer (int n)) (C_Set (SAdd key (m # ms))) (cs_sadd h key (m # ms) s)
         | _ \<Rightarrow> (R_Error ''ERR SADD key member'', s, []))
      else None)"

definition redis_call_bridge ::
    "hasher \<Rightarrow> env \<Rightarrow> acl_check \<Rightarrow> bytes \<Rightarrow> bytes list \<Rightarrow> storage \<Rightarrow> bridged" where
  "redis_call_bridge h E acl cmd args s =
     (let upper = to_ascii_uppercase cmd;
          first_key = (case args of [] \<Rightarrow> None | a # _ \<Rightarrow> Some a)
      in if \<not> acl upper first_key then
           (R_Error (''NOPERM this user has no permissions to run the '' @ quoted (str_lower E upper) @ '' command''), s, [])
         else (case bridge_strings h E upper args s of
             Some r \<Rightarrow> r
           | None \<Rightarrow> (case bridge_collections h E upper args s of
               Some r \<Rightarrow> r
             | None \<Rightarrow> (R_Error (''ERR redis.call: '' @ quoted cmd @ '' not implemented in scripting bridge''), s, []))))"

subsection \<open>Running a script\<close>

primrec run_lua ::
    "hasher \<Rightarrow> env \<Rightarrow> acl_check \<Rightarrow> lua_run \<Rightarrow> storage \<Rightarrow> (bytes + Response) \<times> storage \<times> Command list" where
  "run_lua h E acl (Lua_Done v) s = (Inr (lua_to_response E v), s, [])"
| "run_lua h E acl (Lua_Fail e) s = (Inl e, s, [])"
| "run_lua h E acl (Lua_Call args k) s =
     (case lua_string_arg args 0 of
        None \<Rightarrow> run_lua h E acl (k (Inl ''redis.call needs a command name'')) s
      | Some cmd \<Rightarrow>
          (case redis_call_bridge h E acl cmd (List.map_filter (lua_bytes_arg E) (drop 1 args)) s of
             (resp, s1, w) \<Rightarrow>
               (case run_lua h E acl (k (response_to_lua resp)) s1 of
                  (r, s2, ws) \<Rightarrow> (r, s2, w @ ws))))"

definition run_script ::
    "mlua \<Rightarrow> hasher \<Rightarrow> env \<Rightarrow> bytes \<Rightarrow> bytes list \<Rightarrow> bytes list \<Rightarrow> acl_check \<Rightarrow> storage \<Rightarrow> bridged" where
  "run_script lua h E source keys argv acl s =
     (case lua of
        Inl e \<Rightarrow> (R_Error (''ERR Lua init failed: '' @ e), s, [])
      | Inr eval \<Rightarrow>
          (case run_lua h E acl (eval source keys argv) s of
             (res, s', collected) \<Rightarrow>
               (case res of Inr r \<Rightarrow> r | Inl e \<Rightarrow> R_Error (''ERR script execution failed: '' @ e),
                s', collected)))"

record LuaEngine =
  scripts :: "bytes table"

definition lua_new :: LuaEngine where
  "lua_new = \<lparr>scripts = []\<rparr>"

text \<open>\<open>sha1\<close> is the digest of the \<open>sha1\<close> crate, twenty bytes; \<open>sha1_hex\<close> writes each as two digits.\<close>

definition sha1_hex :: "(bytes \<Rightarrow> bytes) \<Rightarrow> bytes \<Rightarrow> bytes" where
  "sha1_hex sha1 data = concat (map (\<lambda>b. [hex_digit (of_char b div 16), hex_digit (of_char b mod 16)]) (sha1 data))"

definition lua_engine_run ::
    "mlua \<Rightarrow> (bytes \<Rightarrow> bytes) \<Rightarrow> hasher \<Rightarrow> env \<Rightarrow> bytes \<Rightarrow> bytes list \<Rightarrow> bytes list \<Rightarrow> acl_check \<Rightarrow>
       LuaEngine \<Rightarrow> storage \<Rightarrow> bridged \<times> LuaEngine" where
  "lua_engine_run lua sha1 h E script keys argv acl le s =
     (run_script lua h E script keys argv acl s,
      le\<lparr>scripts := AList.update (sha1_hex sha1 script) script (scripts le)\<rparr>)"

definition run_sha ::
    "mlua \<Rightarrow> hasher \<Rightarrow> env \<Rightarrow> bytes \<Rightarrow> bytes list \<Rightarrow> bytes list \<Rightarrow> acl_check \<Rightarrow>
       LuaEngine \<Rightarrow> storage \<Rightarrow> bridged" where
  "run_sha lua h E sha keys argv acl le s =
     (case map_of (scripts le) (to_ascii_lowercase sha) of
        Some source \<Rightarrow> run_script lua h E source keys argv acl s
      | None \<Rightarrow> (R_Error ''NOSCRIPT No matching script. Please use EVAL.'', s, []))"

subsection \<open>What is recorded\<close>

text \<open>Replaying a log of commands, in whatever environment the replay runs.\<close>

definition replay :: "hasher \<Rightarrow> env \<Rightarrow> Command list \<Rightarrow> storage \<Rightarrow> storage" where
  "replay h E log s = fold (\<lambda>c s. snd (apply_write_command h E c s)) log s"

lemma replay_simps [simp]:
  "replay h E [] s = s"
  "replay h E (c # cs) s = replay h E cs (snd (apply_write_command h E c s))"
  "replay h E (xs @ ys) s = replay h E ys (replay h E xs s)"
  by (simp_all add: replay_def)

text \<open>An operation that fails leaves the storage as it is.\<close>

lemma failed_ops_change_nothing:
  "fst (cs_incr h k s) = Inl e \<Longrightarrow> snd (cs_incr h k s) = s"
  "fst (cs_decr h k s) = Inl e \<Longrightarrow> snd (cs_decr h k s) = s"
  "fst (cs_hset h k f v s) = Inl e \<Longrightarrow> snd (cs_hset h k f v s) = s"
  "fst (cs_lpush h k vs s) = Inl e \<Longrightarrow> snd (cs_lpush h k vs s) = s"
  "fst (cs_rpush h k vs s) = Inl e \<Longrightarrow> snd (cs_rpush h k vs s) = s"
  "fst (cs_sadd h k vs s) = Inl e \<Longrightarrow> snd (cs_sadd h k vs s) = s"
  unfolding cs_incr_def cs_decr_def cs_hset_def cs_lpush_def cs_rpush_def cs_sadd_def
  by (rule with_entry_unchanged,
      auto simp: with_entry_result Let_def split: option.splits CacheValue.splits prod.splits)+

lemma undeleted_changes_nothing: "\<not> fst (cs_delete h k s) \<Longrightarrow> snd (cs_delete h k s) = s"
  unfolding cs_delete_def by (rule with_entry_unchanged) (simp add: with_entry_result)

text \<open>A call's recorded writes, replayed, give the storage the call left.\<close>

definition replays :: "hasher \<Rightarrow> env \<Rightarrow> storage \<Rightarrow> bridged \<Rightarrow> bool" where
  "replays h E s b \<longleftrightarrow> replay h E (snd (snd b)) s = fst (snd b)"

lemma replays_nothing [simp]: "replays h E s (r, s, [])"
  by (simp add: replays_def)

lemma replays_set [simp]:
  "replays h E' s (r, snd (cs_set h E k v None s), [C_String (Set k v None)])"
  by (simp add: replays_def cs_set_def)

lemma replays_delete [simp]:
  "replays h E' s (r, snd (cs_delete h k s), if fst (cs_delete h k s) then [C_String (Delete k)] else [])"
  by (simp add: replays_def undeleted_changes_nothing)

lemma replays_recorded:
  "snd (apply_write_command h E c s) = snd rs \<Longrightarrow> (\<And>e. fst rs = Inl e \<Longrightarrow> snd rs = s) \<Longrightarrow>
     replays h E s (recorded f c rs)"
  by (cases rs; cases "fst rs") (auto simp: recorded_def replays_def)

lemma replays_writes [simp]:
  "replays h E s (recorded f (C_String (Incr k)) (cs_incr h k s))"
  "replays h E s (recorded f (C_String (Decr k)) (cs_decr h k s))"
  "replays h E s (recorded f' (C_Hash (HSet k fd v)) (cs_hset h k fd v s))"
  "replays h E s (recorded g (C_List (LPush k vs)) (cs_lpush h k vs s))"
  "replays h E s (recorded g (C_List (RPush k vs)) (cs_rpush h k vs s))"
  "replays h E s (recorded g (C_Set (SAdd k vs)) (cs_sadd h k vs s))"
  by (rule replays_recorded; simp add: failed_ops_change_nothing)+

lemma bridge_strings_replays:
  assumes "bridge_strings h E upper args s = Some b"
  shows "replays h E' s b"
  using assms unfolding bridge_strings_def split_beta
  by (simp split: if_splits list.splits option.splits) (metis replays_nothing replays_set replays_delete replays_writes)+

lemma bridge_collections_replays:
  assumes "bridge_collections h E upper args s = Some b"
  shows "replays h E' s b"
  using assms unfolding bridge_collections_def
  by (simp split: if_splits list.splits option.splits) (metis replays_nothing replays_writes)+

lemma bridge_replays: "replays h E' s (redis_call_bridge h E acl cmd args s)"
  by (auto simp: redis_call_bridge_def Let_def bridge_strings_replays bridge_collections_replays
      split: option.splits)

lemma run_lua_replays:
  "replay h E' (snd (snd (run_lua h E acl t s))) s = fst (snd (run_lua h E acl t s))"
proof (induction t arbitrary: s)
  case (Lua_Call args k)
  have "replay h E' (snd (snd (redis_call_bridge h E acl cmd as s))) s =
      fst (snd (redis_call_bridge h E acl cmd as s))" for cmd as
    using bridge_replays [of h E' s E acl cmd as] by (simp add: replays_def)
  then show ?case using Lua_Call.IH by (auto simp: split_beta split: option.split)
qed simp_all

lemma run_script_replays: "replays h E' s (run_script lua h E source keys argv acl s)"
  using run_lua_replays [of h E' E acl _ s]
  by (auto simp: run_script_def replays_def split_beta split: sum.split)

end
