(* ===== verification/Dispatch.thy ===== *)
theory Dispatch
  imports Scripting
begin

text \<open>
  The arms of \<open>execute_command\<close> (server.rs) that read and write the storage, grouped as the
  command datatype is. The arms of a group are in two places in the source: those of the first
  commands, by type, and those of the commands that came later, under the comment \<open>P3 Bucket 2\<close>. An arm returns the response, \<open>None\<close> when it panics, and the storage.
  Lengths and counts are below \<open>2 ^ 63\<close>, so their cast to \<open>i64\<close> is the inclusion.
\<close>

type_synonym executed = "Response option \<times> storage"

text \<open>\<open>Ok(x) => f(x), Err(e) => Response::Error(e)\<close>, for a write, a write that may panic, a
  read and a read that may panic.\<close>

definition reply :: "('a \<Rightarrow> Response) \<Rightarrow> 'a result \<Rightarrow> Response" where
  "reply f r = (case r of Inr x \<Rightarrow> f x | Inl e \<Rightarrow> R_Error e)"

definition wrote :: "('a \<Rightarrow> Response) \<Rightarrow> 'a result \<times> storage \<Rightarrow> executed" where
  "wrote f rs = (Some (reply f (fst rs)), snd rs)"

definition wrote_or_panicked :: "('a \<Rightarrow> Response) \<Rightarrow> 'a result option \<times> storage \<Rightarrow> executed" where
  "wrote_or_panicked f rs = (map_option (reply f) (fst rs), snd rs)"

definition value_or_nil :: "bytes option \<Rightarrow> Response" where
  "value_or_nil r = (case r of Some v \<Rightarrow> R_Value v | None \<Rightarrow> R_NotFound)"

definition int_of_bool :: "bool \<Rightarrow> Response" where
  "int_of_bool b = R_Integer (if b then 1 else 0)"

definition R_Count :: "nat \<Rightarrow> Response" where
  "R_Count n = R_Integer (int n)"

definition pairs_reply :: "(bytes \<times> bytes) list \<Rightarrow> Response" where
  "pairs_reply ps = R_Array (concat (map (\<lambda>(k, v). [k, v]) ps))"

definition scored_reply :: "env \<Rightarrow> (bytes \<times> f64 option) list \<Rightarrow> Response" where
  "scored_reply E ms = R_Array (concat (map (\<lambda>(m, sc). m #
     (case sc of Some x \<Rightarrow> [f64_to_string E x] | None \<Rightarrow> [])) ms))"

definition popped_reply :: "env \<Rightarrow> (bytes \<times> f64) list \<Rightarrow> Response" where
  "popped_reply E ms = R_Array (concat (map (\<lambda>(m, x). [m, f64_to_string E x]) ms))"

subsection \<open>Strings\<close>

fun exec_string :: "hasher \<Rightarrow> env \<Rightarrow> StringCommand \<Rightarrow> storage \<Rightarrow> executed" where
  "exec_string h E (Get key) s = (Some (value_or_nil (cs_get h E key s)), s)"
| "exec_string h E (Set key v ttl_secs) s =
     (Some R_Ok, snd (cs_set h E key v (map_option secs ttl_secs) s))"
| "exec_string h E (Delete key) s =
     (case cs_delete h key s of (b, s') \<Rightarrow> (Some (if b then R_Ok else R_Integer 0), s'))"
| "exec_string h E (Incr key) s = wrote R_Integer (cs_incr h key s)"
| "exec_string h E (Decr key) s = wrote R_Integer (cs_decr h key s)"
| "exec_string h E (Append key v) s = wrote R_Count (cs_append h key v s)"
| "exec_string h E (Strlen key) s = (Some (reply R_Count (cs_strlen h key s)), s)"
| "exec_string h E (SetNx key v) s =
     (case cs_set_nx h E key v s of (b, s') \<Rightarrow> (Some (int_of_bool b), s'))"
| "exec_string h E (SetEx key seconds v) s =
     (Some R_Ok, snd (cs_set_ex h E key v (secs seconds) s))"
| "exec_string h E (GetSet key v) s = wrote value_or_nil (cs_get_set h E key v s)"
| "exec_string h E (MGet keys) s =
     (Some (R_Array (map (\<lambda>k. case cs_get h E k s of Some v \<Rightarrow> v | None \<Rightarrow> []) keys)), s)"
| "exec_string h E (MSet pairs) s = (Some R_Ok, mset_loop h E pairs s)"
| "exec_string h E (GetRange key start stop) s =
     (Some (R_Value (case cs_get_range h key start stop s of Some b \<Rightarrow> b | None \<Rightarrow> [])), s)"
| "exec_string h E (IncrBy key delta) s = wrote R_Integer (cs_incr_by h key delta s)"
| "exec_string h E (DecrBy key delta) s = wrote R_Integer (cs_incr_by h key (wrap_i64 (- delta)) s)"
| "exec_string h E (IncrByFloat key delta) s =
     wrote (\<lambda>f. R_Value (f64_to_string E f)) (cs_incr_by_float h E key delta s)"

subsection \<open>Hashes\<close>

fun hmset_exec :: "hasher \<Rightarrow> bytes \<Rightarrow> (bytes \<times> bytes) list \<Rightarrow> storage \<Rightarrow> executed" where
  "hmset_exec h key [] s = (Some R_Ok, s)"
| "hmset_exec h key ((f, v) # pairs) s =
     (case cs_hset h key f v s of
        (Inl e, s') \<Rightarrow> (Some (R_Error e), s')
      | (Inr _, s') \<Rightarrow> hmset_exec h key pairs s')"

fun exec_hash :: "hasher \<Rightarrow> env \<Rightarrow> HashCommand \<Rightarrow> storage \<Rightarrow> executed" where
  "exec_hash h E (HGet key f) s = (Some (value_or_nil (cs_hget h E key f s)), s)"
| "exec_hash h E (HSet key f v) s = wrote (\<lambda>_. R_Integer 1) (cs_hset h key f v s)"
| "exec_hash h E (HDel key fs) s = wrote R_Count (cs_hdel h key fs s)"
| "exec_hash h E (HGetAll key) s = (Some (reply pairs_reply (cs_hgetall h E key s)), s)"
| "exec_hash h E (HKeys key) s = (Some (reply R_Array (cs_hkeys h E key s)), s)"
| "exec_hash h E (HVals key) s = (Some (reply R_Array (cs_hvals h E key s)), s)"
| "exec_hash h E (HLen key) s = (Some (reply R_Count (cs_hlen h E key s)), s)"
| "exec_hash h E (HExists key f) s = (Some (reply int_of_bool (cs_hexists h E key f s)), s)"
| "exec_hash h E (HMGet key fs) s =
     (Some (R_Array (map (\<lambda>f. case cs_hget h E key f s of Some v \<Rightarrow> v | None \<Rightarrow> []) fs)), s)"
| "exec_hash h E (HMSet key pairs) s = hmset_exec h key pairs s"
| "exec_hash h E (HSetNx key f v) s = wrote int_of_bool (cs_hset_nx h E key f v s)"
| "exec_hash h E (HIncrBy key f delta) s = wrote R_Integer (cs_hincr_by h E key f delta s)"

subsection \<open>Lists\<close>

fun exec_list :: "hasher \<Rightarrow> env \<Rightarrow> ListCommand \<Rightarrow> storage \<Rightarrow> executed" where
  "exec_list h E (LPush key vs) s = wrote R_Count (cs_lpush h key vs s)"
| "exec_list h E (RPush key vs) s = wrote R_Count (cs_rpush h key vs s)"
| "exec_list h E (LPop key) s = wrote value_or_nil (cs_lpop h key s)"
| "exec_list h E (RPop key) s = wrote value_or_nil (cs_rpop h key s)"
| "exec_list h E (LRange key start stop) s = (Some (reply R_Array (cs_lrange h E key start stop s)), s)"
| "exec_list h E (LLen key) s = (Some (reply R_Count (cs_llen h E key s)), s)"
| "exec_list h E (LIndex key index) s = (Some (reply value_or_nil (cs_lindex h E key index s)), s)"
| "exec_list h E (LSet key index v) s = wrote (\<lambda>_. R_Ok) (cs_lset h E key index v s)"
| "exec_list h E (LRem key cnt v) s = wrote R_Count (cs_lrem h E key cnt v s)"
| "exec_list h E (LTrim key start stop) s =
     wrote_or_panicked (\<lambda>_. R_Ok) (cs_ltrim h E key start stop s)"
| "exec_list h E (RPopLPush source destination) s =
     wrote value_or_nil (cs_rpoplpush h E source destination s)"

subsection \<open>Sets\<close>

fun exec_set :: "hasher \<Rightarrow> env \<Rightarrow> SetCommand \<Rightarrow> storage \<Rightarrow> executed" where
  "exec_set h E (SAdd key members) s = wrote R_Count (cs_sadd h key members s)"
| "exec_set h E (SRem key members) s = wrote R_Count (cs_srem h key members s)"
| "exec_set h E (SMembers key) s = (Some (reply R_Array (cs_smembers h E key s)), s)"
| "exec_set h E (SIsMember key member) s = (Some (reply int_of_bool (cs_sismember h E key member s)), s)"
| "exec_set h E (SCard key) s = (Some (reply R_Count (cs_scard h E key s)), s)"
| "exec_set h E (SInter keys) s = (Some (reply R_Array (cs_sinter h E keys s)), s)"
| "exec_set h E (SUnion keys) s = (Some (reply R_Array (cs_sunion h E keys s)), s)"
| "exec_set h E (SDiff keys) s = (Some (reply R_Array (cs_sdiff h E keys s)), s)"
| "exec_set h E (SPop key cnt) s =
     wrote_or_panicked
       (\<lambda>members. if cnt = None then value_or_nil (head_opt members) else R_Array members)
       (cs_spop h E key (case cnt of None \<Rightarrow> 1 | Some n \<Rightarrow> n) s)"
| "exec_set h E (SRandMember key cnt) s =
     (case cnt of
        Some n \<Rightarrow> (map_option (reply R_Array) (cs_srand_member h E key n s), s)
      | None \<Rightarrow> (map_option (reply (\<lambda>ms. if ms = [] then R_NotFound else R_Value (last ms)))
                   (cs_srand_member h E key 1 s), s))"
| "exec_set h E (SMove source destination member) s =
     wrote int_of_bool (cs_smove h E source destination member s)"

subsection \<open>Sorted sets\<close>

fun exec_zset :: "hasher \<Rightarrow> env \<Rightarrow> ZSetCommand \<Rightarrow> storage \<Rightarrow> executed" where
  "exec_zset h E (ZAdd key members) s = wrote R_Count (cs_zadd h key members s)"
| "exec_zset h E (ZRem key members) s = wrote R_Count (cs_zrem h key members s)"
| "exec_zset h E (ZRange key start stop with_scores) s =
     (Some (reply (scored_reply E) (cs_zrange h E key start stop with_scores s)), s)"
| "exec_zset h E (ZRank key member) s =
     (Some (reply (\<lambda>r. case r of Some rank \<Rightarrow> R_Count rank | None \<Rightarrow> R_NotFound)
        (cs_zrank h E key member s)), s)"
| "exec_zset h E (ZScore key member) s =
     (Some (reply (\<lambda>r. value_or_nil (map_option (f64_to_string E) r)) (cs_zscore h E key member s)), s)"
| "exec_zset h E (ZCard key) s = (Some (reply R_Count (cs_zcard h E key s)), s)"
| "exec_zset h E (ZCount key lo hi) s = (map_option (reply R_Count) (cs_zcount h E key lo hi s), s)"
| "exec_zset h E (ZIncrBy key delta member) s =
     wrote (\<lambda>x. R_Value (f64_to_string E x)) (cs_zincr_by h E key delta member s)"
| "exec_zset h E (ZRangeByScore key lo hi with_scores) s =
     (map_option (reply (scored_reply E)) (cs_zrange_by_score h E key lo hi with_scores s), s)"
| "exec_zset h E (ZRevRange key start stop with_scores) s =
     (map_option (reply (scored_reply E)) (cs_zrevrange h E key start stop with_scores s), s)"
| "exec_zset h E (ZPopMin key cnt) s = wrote_or_panicked (popped_reply E) (cs_zpop_min h E key cnt s)"
| "exec_zset h E (ZPopMax key cnt) s = wrote_or_panicked (popped_reply E) (cs_zpop_max h E key cnt s)"

subsection \<open>Keys and the server\<close>

definition expire_reply :: "hasher \<Rightarrow> env \<Rightarrow> bytes \<Rightarrow> nat \<Rightarrow> storage \<Rightarrow> executed" where
  "expire_reply h E key d s =
     (case instant_add (now E) d of
        None \<Rightarrow> (None, s)
      | Some at \<Rightarrow> (case cs_set_expiry h E key at s of (b, s') \<Rightarrow> (Some (int_of_bool b), s')))"

text \<open>\<open>ms / 1000\<close> truncates toward zero.\<close>

definition millis_to_secs :: "int \<Rightarrow> int" where
  "millis_to_secs ms = (if ms \<ge> 0 then ms div 1000 else - ((- ms) div 1000))"

fun exec_key :: "hasher \<Rightarrow> env \<Rightarrow> KeyCommand \<Rightarrow> storage \<Rightarrow> executed" where
  "exec_key h E Ping s = (Some (R_Value ''PONG''), s)"
| "exec_key h E (Echo message) s = (Some (R_Value message), s)"
| "exec_key h E (Exists keys) s = (Some (R_Count (cs_exists h E keys s)), s)"
| "exec_key h E (Keys pattern) s = (Some (R_Array (cs_keys E pattern s)), s)"
| "exec_key h E FlushAll s = (Some R_Ok, cs_flushall s)"
| "exec_key h E DbSize s = (Some (R_Count (cs_dbsize E s)), s)"
| "exec_key h E (Expire key seconds) s =
     (if seconds \<ge> 0 then expire_reply h E key (secs (nat seconds)) s else (Some (R_Integer 0), s))"
| "exec_key h E (PExpire key n) s =
     (if n \<ge> 0 then expire_reply h E key (millis (nat n)) s else (Some (R_Integer 0), s))"
| "exec_key h E (ExpireAt key unix_secs) s =
     (let now_unix = int (unix_ms E div 1000)
      in if unix_secs \<le> now_unix
         then (case cs_delete h key s of (b, s') \<Rightarrow> (Some (int_of_bool b), s'))
         else expire_reply h E key (secs (nat (unix_secs - now_unix))) s)"
| "exec_key h E (Ttl key) s =
     (Some (R_Integer (case cs_pttl_millis h E key s of
        None \<Rightarrow> - 2 | Some ms \<Rightarrow> if ms = - 1 then - 1 else millis_to_secs ms)), s)"
| "exec_key h E (PTtl key) s =
     (Some (R_Integer (case cs_pttl_millis h E key s of None \<Rightarrow> - 2 | Some n \<Rightarrow> n)), s)"
| "exec_key h E (Persist key) s =
     (case cs_persist h E key s of (b, s') \<Rightarrow> (Some (int_of_bool b), s'))"
| "exec_key h E (Type key) s = (Some (R_Value (cs_type_of h E key s)), s)"
| "exec_key h E (Rename key new_key) s = wrote (\<lambda>_. R_Ok) (cs_rename h E key new_key s)"
| "exec_key h E RandomKey s = (Some (value_or_nil (cs_random_key E s)), s)"

subsection \<open>Streams\<close>

definition bulk_frame :: "bytes \<Rightarrow> bytes" where
  "bulk_frame b = ''$'' @ nat_to_string (length b) @ CRLF @ b @ CRLF"

definition format_xentries :: "stream_entry list \<Rightarrow> bytes" where
  "format_xentries entries =
     ''*'' @ nat_to_string (length entries) @ CRLF @
     concat (map (\<lambda>(i, fvs).
       ''*2'' @ CRLF @ bulk_frame (stream_id_to_string i) @
       ''*'' @ nat_to_string (length fvs * 2) @ CRLF @
       concat (map (\<lambda>(f, v). bulk_frame f @ bulk_frame v) fvs)) entries)"

definition format_xread :: "(bytes \<times> stream_entry list) list \<Rightarrow> bytes" where
  "format_xread per_stream =
     ''*'' @ nat_to_string (length per_stream) @ CRLF @
     concat (map (\<lambda>(name, entries). ''*2'' @ CRLF @ bulk_frame name @ format_xentries entries) per_stream)"

fun xread_loop ::
    "hasher \<Rightarrow> env \<Rightarrow> nat option \<Rightarrow> storage \<Rightarrow> (bytes \<times> bytes) list \<Rightarrow> (bytes \<times> stream_entry list) list result" where
  "xread_loop h E limit s [] = Inr []"
| "xread_loop h E limit s ((k, id_str) # rest) =
     rbind (stream_id_parse id_str False) (\<lambda>cursor.
       rbind (cs_xread h E k cursor limit s) (\<lambda>entries.
         rbind (xread_loop h E limit s rest) (\<lambda>per_stream.
           Inr (if entries \<noteq> [] then (k, entries) # per_stream else per_stream))))"

fun exec_stream :: "hasher \<Rightarrow> env \<Rightarrow> StreamCommand \<Rightarrow> storage \<Rightarrow> executed" where
  "exec_stream h E (XAdd key req fvs) s =
     (let added = (\<lambda>requested.
        wrote (\<lambda>i. R_Value (stream_id_to_string i)) (cs_xadd h E key requested fvs s))
      in case req of
           None \<Rightarrow> added None
         | Some t \<Rightarrow> (case stream_id_parse t False of
             Inl e \<Rightarrow> (Some (R_Error e), s) | Inr i \<Rightarrow> added (Some i)))"
| "exec_stream h E (XLen key) s = (Some (reply R_Count (cs_xlen h E key s)), s)"
| "exec_stream h E (XRange key start stop limit) s =
     (case stream_id_parse start False of
        Inl e \<Rightarrow> (Some (R_Error e), s)
      | Inr lo \<Rightarrow> (case stream_id_parse stop True of
          Inl e \<Rightarrow> (Some (R_Error e), s)
        | Inr hi \<Rightarrow> (map_option (reply (\<lambda>entries. R_Raw (format_xentries entries)))
                      (cs_xrange h E key lo hi limit s), s)))"
| "exec_stream h E (XRead limit keys ids) s =
     (Some (if length keys \<noteq> length ids then R_Error ''ERR XREAD streams/ids length mismatch''
            else reply (\<lambda>per_stream. R_Raw (if per_stream = [] then ''*-1'' @ CRLF else format_xread per_stream))
                   (xread_loop h E limit s (zip keys ids))), s)"

fun exec_storage :: "hasher \<Rightarrow> env \<Rightarrow> Command \<Rightarrow> storage \<Rightarrow> executed option" where
  "exec_storage h E (C_String c) s = Some (exec_string h E c s)"
| "exec_storage h E (C_Hash c) s = Some (exec_hash h E c s)"
| "exec_storage h E (C_List c) s = Some (exec_list h E c s)"
| "exec_storage h E (C_Set c) s = Some (exec_set h E c s)"
| "exec_storage h E (C_ZSet c) s = Some (exec_zset h E c s)"
| "exec_storage h E (C_Key c) s = Some (exec_key h E c s)"
| "exec_storage h E (C_Stream c) s = Some (exec_stream h E c s)"
| "exec_storage h E _ s = None"

subsection \<open>Serving a command and replaying it\<close>

text \<open>
  The two commands whose replay is not what the server did: \<open>EXPIREAT\<close> at a negative time
  deletes the key when served and does nothing when replayed, and \<open>XADD\<close> with an id that does
  not parse is refused when served and appended under an automatic id when replayed.
\<close>

fun replay_differs :: "Command \<Rightarrow> bool" where
  "replay_differs (C_Key (ExpireAt key n)) \<longleftrightarrow> n < 0"
| "replay_differs (C_Stream (XAdd key (Some t) fvs)) \<longleftrightarrow> (\<exists>e. stream_id_parse t False = Inl e)"
| "replay_differs _ \<longleftrightarrow> False"

definition served_as :: "executed \<Rightarrow> applied \<Rightarrow> bool" where
  "served_as x a \<longleftrightarrow> snd x = snd a \<and> (fst x = None \<longleftrightarrow> fst a = None)"

lemma served_as_simps [simp]:
  "served_as (wrote f rs) (done_with rs)"
  "served_as (wrote_or_panicked f rs') (unless_panic rs')"
  "served_as (Some r, s) (Some (), s)"
  "served_as (Some r, snd rs'') (done_with rs'')"
  by (simp_all add: served_as_def wrote_def done_with_def wrote_or_panicked_def unless_panic_def)

lemma served_as_case [simp]:
  "served_as (case p of (b, s') \<Rightarrow> (Some (f b), s')) (done_with p)"
  by (cases p) (simp add: served_as_def done_with_def)

lemma served_as_expire [simp]: "served_as (expire_reply h E k d s) (set_expiry_after h E k d s)"
  by (simp add: expire_reply_def set_expiry_after_def served_as_def split_beta done_with_def split: option.split)

lemma hset_fails_iff:
  "(\<exists>e. fst (cs_hset h k f v s) = Inl e) \<longleftrightarrow>
     (case lookup h s k of Some (Hash_v _) \<Rightarrow> False | None \<Rightarrow> False | _ \<Rightarrow> True)"
  by (auto simp: cs_hset_def with_entry_result split: option.split CacheValue.split prod.split)

lemma hmset_loop_fails:
  assumes "fst (cs_hset h k f v s) = Inl e"
  shows "hmset_loop h k ps s = s"
proof -
  have "snd (cs_hset h k f' v' s) = s" for f' v'
    using assms hset_fails_iff [of h k f v s] hset_fails_iff [of h k f' v' s]
      failed_ops_change_nothing(3) by metis
  then show ?thesis unfolding hmset_loop_def by (induction ps) (simp_all add: split_beta)
qed

lemma hmset_loop_Cons: "hmset_loop h k ((f, v) # ps) s = hmset_loop h k ps (snd (cs_hset h k f v s))"
  by (simp add: hmset_loop_def)

lemma served_as_hmset [simp]: "served_as (hmset_exec h k ps s) (Some (), hmset_loop h k ps s)"
proof (induction h k ps s rule: hmset_exec.induct)
  case (2 h key f v pairs s)
  obtain r s' where hs: "cs_hset h key f v s = (r, s')" by (cases "cs_hset h key f v s")
  show ?case
  proof (cases r)
    case (Inl e)
    then have "s' = s" "hmset_loop h key pairs s = s"
      using hs hmset_loop_fails failed_ops_change_nothing(3) by (metis fst_conv snd_conv)+
    then show ?thesis by (simp add: hs Inl hmset_loop_Cons)
  next
    case (Inr b)
    then show ?thesis using 2 hs by (simp add: hmset_loop_Cons)
  qed
qed (simp add: hmset_loop_def)

lemma exec_storage_applies:
  assumes "exec_storage h E cmd s = Some x" "is_write_command cmd" "\<not> replay_differs cmd"
  shows "served_as x (apply_write_command h E cmd s)"
proof (cases cmd)
  case (C_String c)
  with assms show ?thesis by (cases c) auto
next
  case (C_Hash c)
  with assms show ?thesis by (cases c) auto
next
  case (C_List c)
  with assms show ?thesis by (cases c) auto
next
  case (C_Set c)
  with assms show ?thesis by (cases c) auto
next
  case (C_ZSet c)
  with assms show ?thesis by (cases c) auto
next
  case (C_Key c)
  with assms show ?thesis
    by (cases c) (auto simp: Let_def nat_diff_distrib nat_div_distrib split: if_splits)
next
  case (C_Stream c)
  with assms show ?thesis
    by (cases c) (auto simp: Let_def split: option.splits sum.splits)
qed (use assms in auto)

lemma exec_storage_reads:
  assumes "exec_storage h E cmd s = Some x" "\<not> is_write_command cmd"
  shows "snd x = s"
proof (cases cmd)
  case (C_String c)
  with assms show ?thesis by (cases c) auto
next
  case (C_Hash c)
  with assms show ?thesis by (cases c) auto
next
  case (C_List c)
  with assms show ?thesis by (cases c) auto
next
  case (C_Set c)
  with assms show ?thesis by (cases c) (auto split: option.splits)
next
  case (C_ZSet c)
  with assms show ?thesis by (cases c) auto
next
  case (C_Key c)
  with assms show ?thesis by (cases c) auto
next
  case (C_Stream c)
  with assms show ?thesis by (cases c) (auto split: sum.splits)
qed (use assms in auto)

text \<open>What serving a storage command leaves: the replay of the command itself.\<close>

lemma exec_storage_effect:
  assumes "exec_storage h E cmd s = Some x" "\<not> replay_differs cmd"
  shows "snd x = snd (apply_write_command h E cmd s)"
  using exec_storage_applies [OF assms(1)] exec_storage_reads [OF assms(1)] assms(2)
    non_writes_change_nothing [of cmd h E s]
  by (cases "is_write_command cmd") (auto simp: served_as_def)

end
