(* ===== verification/Transactions.thy ===== *)
theory Transactions
  imports Command_Parser Sharded_Map
begin

unbundle bit_operations_syntax

text \<open>
  Optimistic transactions (transactions.rs): a version counter per shard, and the state a
  connection keeps between MULTI and EXEC. \<open>watched\<close> maps a shard to the version seen by the
  first WATCH. Reading or bumping a counter out of range panics in the source; every index
  used is \<open>shard_index_for key 64\<close>, which is in range (\<open>shard_index_for_less\<close>).
\<close>

type_synonym versions = "64 word list"

definition versions_new :: "nat \<Rightarrow> versions" where
  "versions_new shard_count = replicate shard_count 0"

definition versions_read :: "nat \<Rightarrow> versions \<Rightarrow> 64 word" where
  "versions_read i vs = vs ! i"

definition bump :: "nat \<Rightarrow> versions \<Rightarrow> versions" where
  "bump i vs = vs[i := vs ! i + 1]"

record TxState =
  tx_queue :: "Command list option"
  queue_dirty :: bool
  watched :: "(nat \<times> 64 word) list"

definition tx_new :: TxState where
  "tx_new = \<lparr>tx_queue = None, queue_dirty = False, watched = []\<rparr>"

definition in_multi :: "TxState \<Rightarrow> bool" where
  "in_multi t \<longleftrightarrow> tx_queue t \<noteq> None"

definition tx_start :: "TxState \<Rightarrow> TxState" where
  "tx_start t = t\<lparr>tx_queue := Some [], queue_dirty := False\<rparr>"

definition enqueue :: "Command \<Rightarrow> TxState \<Rightarrow> TxState" where
  "enqueue cmd t = (case tx_queue t of None \<Rightarrow> t | Some q \<Rightarrow> t\<lparr>tx_queue := Some (q @ [cmd])\<rparr>)"

definition tx_discard :: "TxState \<Rightarrow> TxState" where
  "tx_discard t = t\<lparr>tx_queue := None, queue_dirty := False, watched := []\<rparr>"

definition take_queue :: "TxState \<Rightarrow> Command list option \<times> TxState" where
  "take_queue t = (tx_queue t, t\<lparr>tx_queue := None\<rparr>)"

definition tx_watch :: "nat \<Rightarrow> 64 word \<Rightarrow> TxState \<Rightarrow> TxState" where
  "tx_watch i v t =
     (case map_of (watched t) i of
        Some _ \<Rightarrow> t | None \<Rightarrow> t\<lparr>watched := AList.update i v (watched t)\<rparr>)"

definition tx_unwatch :: "TxState \<Rightarrow> TxState" where
  "tx_unwatch t = t\<lparr>watched := []\<rparr>"

definition any_watched_changed :: "versions \<Rightarrow> TxState \<Rightarrow> bool" where
  "any_watched_changed vs t = list_ex (\<lambda>(i, v). versions_read i vs \<noteq> v) (watched t)"

definition shard_index_for :: "hasher \<Rightarrow> bytes \<Rightarrow> nat \<Rightarrow> nat" where
  "shard_index_for h key shard_count =
     (let mask = word_of_nat shard_count - 1 in unat (h key AND mask))"

fun is_tx_control :: "Command \<Rightarrow> bool" where
  "is_tx_control (C_Conn c) =
     (case c of Multi \<Rightarrow> True | Exec \<Rightarrow> True | Discard \<Rightarrow> True | Watch _ \<Rightarrow> True | Unwatch \<Rightarrow> True
        | _ \<Rightarrow> False)"
| "is_tx_control _ = False"

subsection \<open>Facts\<close>

lemma shard_index_for_storage: "shard_index_for h key SHARD_COUNT = shard_index h key"
  by (simp add: shard_index_for_def shard_index_def SHARD_MASK_def)

lemma shard_index_for_less [simp]: "shard_index_for h key SHARD_COUNT < SHARD_COUNT"
  by (simp add: shard_index_for_storage)

lemma length_bump [simp]: "length (bump i vs) = length vs"
  by (simp add: bump_def)

lemma read_bump: "i < length vs \<Longrightarrow> versions_read j (bump i vs) = (if j = i then versions_read j vs + 1 else versions_read j vs)"
  by (simp add: versions_read_def bump_def nth_list_update)

lemma watched_tx_watch:
  "map_of (watched (tx_watch i v t)) =
     (case map_of (watched t) i of Some _ \<Rightarrow> map_of (watched t) | None \<Rightarrow> (map_of (watched t))(i \<mapsto> v))"
  by (simp add: tx_watch_def update_conv' split: option.split)

lemma distinct_tx_watch: "distinct (map fst (watched t)) \<Longrightarrow> distinct (map fst (watched (tx_watch i v t)))"
  by (simp add: tx_watch_def distinct_update split: option.split)

lemma any_watched_changed_iff:
  "distinct (map fst (watched t)) \<Longrightarrow>
     any_watched_changed vs t \<longleftrightarrow> (\<exists>i v. map_of (watched t) i = Some v \<and> versions_read i vs \<noteq> v)"
  by (force simp: any_watched_changed_def list_ex_iff)

text \<open>The loop of WATCH over its keys, and a sequence of bumps.\<close>

definition watch_keys :: "hasher \<Rightarrow> versions \<Rightarrow> bytes list \<Rightarrow> TxState \<Rightarrow> TxState" where
  "watch_keys h vs keys t =
     fold (\<lambda>k. tx_watch (shard_index_for h k SHARD_COUNT) (versions_read (shard_index_for h k SHARD_COUNT) vs)) keys t"

definition bumps :: "nat list \<Rightarrow> versions \<Rightarrow> versions" where
  "bumps is vs = fold bump is vs"

lemma length_bumps [simp]: "length (bumps is vs) = length vs"
  unfolding bumps_def by (induction "is" arbitrary: vs) simp_all

lemma read_bumps:
  "j < length vs \<Longrightarrow> versions_read j (bumps is vs) = versions_read j vs + word_of_nat (count_list is j)"
  unfolding bumps_def
proof (induction "is" arbitrary: vs)
  case (Cons i "is")
  have "versions_read j (fold bump is (bump i vs)) = versions_read j (bump i vs) + word_of_nat (count_list is j)"
    using Cons.prems by (intro Cons.IH) simp
  moreover have "versions_read j (bump i vs) = versions_read j vs + (if i = j then 1 else 0)"
    using Cons.prems by (auto simp: versions_read_def bump_def nth_list_update)
  ultimately show ?case by simp
qed simp

lemma distinct_watch_keys:
  "distinct (map fst (watched t)) \<Longrightarrow> distinct (map fst (watched (watch_keys h vs keys t)))"
  unfolding watch_keys_def by (induction keys arbitrary: t) (simp_all add: distinct_tx_watch)

lemma watched_watch_keys:
  "map_of (watched (watch_keys h vs keys t)) i =
     (case map_of (watched t) i of
        Some v \<Rightarrow> Some v
      | None \<Rightarrow> if i \<in> (\<lambda>k. shard_index_for h k SHARD_COUNT) ` set keys then Some (versions_read i vs) else None)"
  unfolding watch_keys_def
  by (induction keys arbitrary: t) (auto simp: watched_tx_watch split: option.splits)

end
