(* ===== verification/Pub_Sub.thy ===== *)
theory Pub_Sub
  imports Rust_Prelude
begin

text \<open>
  Publish/subscribe (pubsub.rs). The channel of a subscriber is tokio's; a sender is its
  number, and \<open>closed tx\<close> tells whether its receiver has been dropped. A send is an output:
  \<open>publish\<close> returns the messages it sent with the senders it used, one per registration.
\<close>

record PubSubMessage =
  pm_channel :: bytes
  pm_payload :: bytes

type_synonym registry = "nat list table"

definition subscribe :: "bytes \<Rightarrow> nat \<Rightarrow> registry \<Rightarrow> registry" where
  "subscribe channel tx reg =
     AList.update channel ((case map_of reg channel of None \<Rightarrow> [] | Some l \<Rightarrow> l) @ [tx]) reg"

definition prune_closed :: "(nat \<Rightarrow> bool) \<Rightarrow> bytes \<Rightarrow> registry \<Rightarrow> registry" where
  "prune_closed closed channel reg =
     (case map_of reg channel of
        None \<Rightarrow> reg
      | Some l \<Rightarrow>
          (let l' = filter (\<lambda>tx. \<not> closed tx) l
           in if l' = [] then AList.delete channel reg else AList.update channel l' reg))"

definition publish ::
    "(nat \<Rightarrow> bool) \<Rightarrow> bytes \<Rightarrow> bytes \<Rightarrow> registry \<Rightarrow> nat \<times> (nat \<times> PubSubMessage) list" where
  "publish closed channel payload reg =
     (case map_of reg channel of
        None \<Rightarrow> (0, [])
      | Some l \<Rightarrow>
          (let msg = \<lparr>pm_channel = channel, pm_payload = payload\<rparr>;
               sent = filter (\<lambda>tx. \<not> closed tx) l
           in (length sent, map (\<lambda>tx. (tx, msg)) sent)))"

record SubscriberState =
  sub_tx :: "nat option"
  sub_rx :: "nat option"
  sub_channels :: "bytes list"

definition subscriber_new :: SubscriberState where
  "subscriber_new = \<lparr>sub_tx = None, sub_rx = None, sub_channels = []\<rparr>"

text \<open>\<open>fresh\<close> is the channel the first call creates.\<close>

definition ensure_sender :: "nat \<Rightarrow> SubscriberState \<Rightarrow> nat \<times> SubscriberState" where
  "ensure_sender fresh st =
     (case sub_tx st of
        Some tx \<Rightarrow> (tx, st)
      | None \<Rightarrow> (fresh, st\<lparr>sub_tx := Some fresh, sub_rx := Some fresh\<rparr>))"

definition is_active :: "SubscriberState \<Rightarrow> bool" where
  "is_active st \<longleftrightarrow> sub_channels st \<noteq> []"

subsection \<open>Facts\<close>

lemma map_of_subscribe:
  "map_of (subscribe ch tx reg) =
     (map_of reg)(ch \<mapsto> (case map_of reg ch of None \<Rightarrow> [] | Some l \<Rightarrow> l) @ [tx])"
  by (simp add: subscribe_def update_conv')

lemma map_of_prune_closed:
  "map_of (prune_closed closed ch reg) =
     (case map_of reg ch of
        None \<Rightarrow> map_of reg
      | Some l \<Rightarrow> (map_of reg)(ch := (if \<exists>tx \<in> set l. \<not> closed tx then Some (filter (\<lambda>tx. \<not> closed tx) l) else None)))"
  by (auto simp: prune_closed_def update_conv' delete_conv' Let_def filter_empty_conv split: option.split)

lemma publish_prune: "publish closed ch p (prune_closed closed c reg) = publish closed ch p reg"
  by (auto simp: publish_def map_of_prune_closed Let_def filter_empty_conv split: option.splits)

end
