(* ===== verification/Security.thy ===== *)
theory Security
  imports Value_Types
begin

text \<open>
  Access control (security/acl.rs) and authentication (security/auth.rs). Two functions are
  arguments: \<open>up\<close>, Rust's Unicode \<open>to_uppercase\<close>, and \<open>verify\<close>, the check of a password
  against a stored Argon2 hash, which is third-party.
\<close>

subsection \<open>Rules\<close>

datatype ACLPermission =
    AllCommands
  | ReadCommands
  | WriteCommands
  | SpecificCommand bytes
  | Deny

record ACLRule =
  permissions :: "ACLPermission list"
  key_patterns :: "bytes list"

definition rule_new :: ACLRule where
  "rule_new = \<lparr>permissions = [], key_patterns = [''*'']\<rparr>"

definition rule_allow_all :: ACLRule where
  "rule_allow_all = \<lparr>permissions = [AllCommands], key_patterns = [''*'']\<rparr>"

definition rule_read_only :: ACLRule where
  "rule_read_only = \<lparr>permissions = [ReadCommands], key_patterns = [''*'']\<rparr>"

definition rule_write_only :: ACLRule where
  "rule_write_only = \<lparr>permissions = [WriteCommands], key_patterns = [''*'']\<rparr>"

definition with_key_pattern :: "bytes \<Rightarrow> ACLRule \<Rightarrow> ACLRule" where
  "with_key_pattern pattern r = r\<lparr>key_patterns := [pattern]\<rparr>"

definition with_key_patterns :: "bytes list \<Rightarrow> ACLRule \<Rightarrow> ACLRule" where
  "with_key_patterns patterns r = r\<lparr>key_patterns := patterns\<rparr>"

definition acl_read_command :: "bytes \<Rightarrow> bool" where
  "acl_read_command cmd \<longleftrightarrow> cmd \<in> set
     [''GET'', ''MGET'', ''EXISTS'', ''TTL'', ''PTTL'', ''TYPE'',
      ''HGET'', ''HMGET'', ''HGETALL'', ''HLEN'', ''HEXISTS'',
      ''LLEN'', ''LINDEX'', ''LRANGE'',
      ''SCARD'', ''SISMEMBER'', ''SMEMBERS'',
      ''ZCARD'', ''ZCOUNT'', ''ZRANGE'', ''ZRANK'', ''ZSCORE'']"

definition acl_write_command :: "bytes \<Rightarrow> bool" where
  "acl_write_command cmd \<longleftrightarrow> cmd \<in> set
     [''SET'', ''SETEX'', ''SETNX'', ''DEL'', ''EXPIRE'', ''PERSIST'',
      ''HSET'', ''HDEL'', ''HINCRBY'',
      ''LPUSH'', ''RPUSH'', ''LPOP'', ''RPOP'', ''LREM'',
      ''SADD'', ''SREM'', ''SPOP'',
      ''ZADD'', ''ZREM'', ''ZINCRBY'']"

fun permission_loop :: "(bytes \<Rightarrow> bytes) \<Rightarrow> bytes \<Rightarrow> ACLPermission list \<Rightarrow> bool" where
  "permission_loop up cmd [] = False"
| "permission_loop up cmd (AllCommands # ps) = True"
| "permission_loop up cmd (Deny # ps) = False"
| "permission_loop up cmd (ReadCommands # ps) =
     (if acl_read_command cmd then True else permission_loop up cmd ps)"
| "permission_loop up cmd (WriteCommands # ps) =
     (if acl_write_command cmd then True else permission_loop up cmd ps)"
| "permission_loop up cmd (SpecificCommand c # ps) =
     (case c of
        [] \<Rightarrow> permission_loop up cmd ps
      | d # ds \<Rightarrow>
          if d = CHR ''+'' \<and> up ds = cmd then True
          else if d = CHR ''-'' \<and> up ds = cmd then False
          else permission_loop up cmd ps)"

definition check_command_permission :: "(bytes \<Rightarrow> bytes) \<Rightarrow> bytes \<Rightarrow> ACLRule \<Rightarrow> bool" where
  "check_command_permission up command r = permission_loop up (up command) (permissions r)"

definition pattern_matches :: "bytes \<Rightarrow> bytes \<Rightarrow> bool" where
  "pattern_matches pattern key =
     (if pattern = ''*'' then True
      else if pattern \<noteq> [] \<and> last pattern = CHR ''*''
      then take (length pattern - 1) key = butlast pattern
      else pattern = key)"

definition check_key_pattern :: "bytes \<Rightarrow> ACLRule \<Rightarrow> bool" where
  "check_key_pattern key r = list_ex (\<lambda>p. pattern_matches p key) (key_patterns r)"

definition allows_command :: "(bytes \<Rightarrow> bytes) \<Rightarrow> bytes \<Rightarrow> bytes option \<Rightarrow> ACLRule \<Rightarrow> bool" where
  "allows_command up command key r =
     (if \<not> check_command_permission up command r then False
      else (case key of Some k \<Rightarrow> check_key_pattern k r | None \<Rightarrow> True))"

subsection \<open>Users and sessions\<close>

record User =
  username :: bytes
  password_hash :: bytes
  acl_rules :: "ACLRule list"
  is_admin :: bool

record Session =
  session_id :: bytes
  session_user :: bytes
  created_at :: instant
  last_activity :: instant

record AuthManager =
  am_users :: "User table"
  am_sessions :: "Session table"
  require_auth :: bool

definition add_acl_rule :: "ACLRule \<Rightarrow> User \<Rightarrow> User" where
  "add_acl_rule r u = u\<lparr>acl_rules := acl_rules u @ [r]\<rparr>"

definition can_execute_command :: "(bytes \<Rightarrow> bytes) \<Rightarrow> bytes \<Rightarrow> bytes option \<Rightarrow> User \<Rightarrow> bool" where
  "can_execute_command up command key u =
     (if is_admin u then True else list_ex (allows_command up command key) (acl_rules u))"

fun to_hex :: "nat \<Rightarrow> bytes" where
  "to_hex n = (if n < 16 then [hex_digit n] else to_hex (n div 16) @ [hex_digit (n mod 16)])"

declare to_hex.simps [simp del]

definition session_new :: "env \<Rightarrow> bytes \<Rightarrow> Session" where
  "session_new E user =
     \<lparr>session_id = ''sess_'' @ to_hex (unat (random_u64 E)), session_user = user,
      created_at = now E, last_activity = now E\<rparr>"

definition session_is_expired :: "instant \<Rightarrow> nat \<Rightarrow> Session \<Rightarrow> bool" where
  "session_is_expired t timeout s \<longleftrightarrow> t - last_activity s > timeout"

definition update_activity :: "instant \<Rightarrow> Session \<Rightarrow> Session" where
  "update_activity t s = s\<lparr>last_activity := t\<rparr>"

definition auth_new :: "bool \<Rightarrow> AuthManager" where
  "auth_new required = \<lparr>am_users = [], am_sessions = [], require_auth = required\<rparr>"

definition auth_with_users :: "bool \<Rightarrow> User list \<Rightarrow> AuthManager" where
  "auth_with_users required us =
     \<lparr>am_users = fold (\<lambda>u. AList.update (username u) u) us [], am_sessions = [], require_auth = required\<rparr>"

definition user_count :: "AuthManager \<Rightarrow> nat" where
  "user_count am = length (am_users am)"

definition add_user :: "User \<Rightarrow> AuthManager \<Rightarrow> AuthManager" where
  "add_user u am = am\<lparr>am_users := AList.update (username u) u (am_users am)\<rparr>"

definition authenticate ::
    "(bytes \<Rightarrow> bytes \<Rightarrow> bool) \<Rightarrow> env \<Rightarrow> bytes \<Rightarrow> bytes \<Rightarrow> AuthManager \<Rightarrow> bytes option \<times> AuthManager" where
  "authenticate verify E user password am =
     (case map_of (am_users am) user of
        Some u \<Rightarrow>
          if verify (password_hash u) password then
            (let s = session_new E user
             in (Some (session_id s), am\<lparr>am_sessions := AList.update (session_id s) s (am_sessions am)\<rparr>))
          else (None, am)
      | None \<Rightarrow> (None, am))"

definition verify_session :: "env \<Rightarrow> bytes \<Rightarrow> AuthManager \<Rightarrow> bytes option \<times> AuthManager" where
  "verify_session E sid am =
     (case map_of (am_sessions am) sid of
        Some s \<Rightarrow>
          if \<not> session_is_expired (now E) (secs 3600) s
          then (Some (session_user s),
                am\<lparr>am_sessions := AList.update sid (update_activity (now E) s) (am_sessions am)\<rparr>)
          else (None, am\<lparr>am_sessions := AList.delete sid (am_sessions am)\<rparr>)
      | None \<Rightarrow> (None, am))"

definition logout :: "bytes \<Rightarrow> AuthManager \<Rightarrow> AuthManager" where
  "logout sid am = am\<lparr>am_sessions := AList.delete sid (am_sessions am)\<rparr>"

definition check_permission ::
    "(bytes \<Rightarrow> bytes) \<Rightarrow> bytes \<Rightarrow> bytes \<Rightarrow> bytes option \<Rightarrow> AuthManager \<Rightarrow> bool" where
  "check_permission up user command key am =
     (if \<not> require_auth am then True
      else (case map_of (am_users am) user of
              Some u \<Rightarrow> can_execute_command up command key u | None \<Rightarrow> False))"

subsection \<open>Facts\<close>

lemma pattern_matches_prefix:
  "pattern \<noteq> [] \<Longrightarrow> last pattern = CHR ''*'' \<Longrightarrow>
     pattern_matches pattern key \<longleftrightarrow> (\<exists>rest. key = butlast pattern @ rest)"
  by (cases "pattern = ''*''")
    (auto simp: pattern_matches_def append_eq_conv_conj,
     metis append_eq_conv_conj append_take_drop_id length_butlast)

lemma authenticate_users [simp]: "am_users (snd (authenticate v E u p am)) = am_users am"
  by (simp add: authenticate_def Let_def split: option.split)

lemma authenticate_required [simp]: "require_auth (snd (authenticate v E u p am)) = require_auth am"
  by (simp add: authenticate_def Let_def split: option.split)

end
