(* ===== verification/Cluster_Ring.thy ===== *)
theory Cluster_Ring
  imports BTree_Map Value_Types
begin

text \<open>
  The cluster's members (cluster/node.rs) and the consistent-hash ring that assigns keys to
  them (cluster/ring.rs). The hash is xxh3, the same parameter that places a key on a shard.
  A socket address is its printed form. The serde encoding of a node is not modelled.
\<close>

subsection \<open>Nodes\<close>

datatype NodeStatus = Active | Suspicious | Failed

record Node =
  node_id :: bytes
  node_addr :: bytes
  cluster_addr :: bytes
  node_status :: NodeStatus
  last_seen :: instant
  last_seen_timestamp :: nat
  node_version :: "64 word"

definition node_new :: "env \<Rightarrow> bytes \<Rightarrow> bytes \<Rightarrow> bytes \<Rightarrow> Node" where
  "node_new E nid addr caddr =
     \<lparr>node_id = nid, node_addr = addr, cluster_addr = caddr, node_status = Active,
      last_seen = now E, last_seen_timestamp = unix_ms E div 1000, node_version = 0\<rparr>"

definition is_alive :: "Node \<Rightarrow> bool" where
  "is_alive n \<longleftrightarrow> node_status n = Active"

definition update_last_seen :: "env \<Rightarrow> Node \<Rightarrow> Node" where
  "update_last_seen E n =
     n\<lparr>last_seen := now E, last_seen_timestamp := unix_ms E div 1000, node_status := Active\<rparr>"

definition mark_suspicious :: "Node \<Rightarrow> Node" where
  "mark_suspicious n = n\<lparr>node_status := Suspicious\<rparr>"

definition mark_failed :: "Node \<Rightarrow> Node" where
  "mark_failed n = n\<lparr>node_status := Failed\<rparr>"

definition time_since_last_seen :: "env \<Rightarrow> Node \<Rightarrow> nat" where
  "time_since_last_seen E n = now E - last_seen n"

subsection \<open>The ring\<close>

definition u64_cmp :: "64 word \<Rightarrow> 64 word \<Rightarrow> cmp_result" where
  "u64_cmp a b = (if a < b then Less else if a = b then Equal else Greater)"

interpretation u64_order: ranked_order u64_cmp "\<lambda>_. True" uint
  by unfold_locales (auto simp: u64_cmp_def word_less_def word_uint_eq_iff)

record ConsistentHashRing =
  ring :: "(64 word, bytes) btree"
  ring_nodes :: "Node table"
  virtual_nodes :: nat

definition DEFAULT_VIRTUAL_NODES :: nat where
  "DEFAULT_VIRTUAL_NODES = 150"

definition with_virtual_nodes :: "nat \<Rightarrow> ConsistentHashRing" where
  "with_virtual_nodes n = \<lparr>ring = bt_new, ring_nodes = [], virtual_nodes = n\<rparr>"

definition ring_new :: ConsistentHashRing where
  "ring_new = with_virtual_nodes DEFAULT_VIRTUAL_NODES"

definition virtual_key :: "bytes \<Rightarrow> nat \<Rightarrow> bytes" where
  "virtual_key nid i = nid @ '':'' @ nat_to_string i"

definition add_node :: "hasher \<Rightarrow> Node \<Rightarrow> ConsistentHashRing \<Rightarrow> ConsistentHashRing" where
  "add_node h node r =
     (let nid = node_id node
      in r\<lparr>ring_nodes := AList.update nid node (ring_nodes r),
           ring := fold (\<lambda>i. bt_insert u64_cmp (h (virtual_key nid i)) nid)
                     [0..<virtual_nodes r] (ring r)\<rparr>)"

definition remove_node :: "bytes \<Rightarrow> ConsistentHashRing \<Rightarrow> ConsistentHashRing" where
  "remove_node nid r =
     r\<lparr>ring_nodes := AList.delete nid (ring_nodes r),
       ring := (ring r)\<lparr>bt_list := filter (\<lambda>(_, j). j \<noteq> nid) (bt_list (ring r))\<rparr>\<rparr>"

definition get_node :: "hasher \<Rightarrow> bytes \<Rightarrow> ConsistentHashRing \<Rightarrow> bytes option" where
  "get_node h key r =
     (if bt_list (ring r) = [] then None
      else (case bt_range_from u64_cmp (h key) (ring r) of
              e # _ \<Rightarrow> Some (snd e)
            | [] \<Rightarrow> (case bt_list (ring r) of e # _ \<Rightarrow> Some (snd e) | [] \<Rightarrow> None)))"

fun replication_loop ::
    "nat \<Rightarrow> bytes list \<Rightarrow> bytes list \<Rightarrow> (64 word \<times> bytes) list \<Rightarrow> bytes list" where
  "replication_loop limit seen nodes [] = nodes"
| "replication_loop limit seen nodes ((_, nid) # es) =
     (if nid \<notin> set seen then
        (let seen = nid # seen; nodes = nodes @ [nid]
         in if length nodes \<ge> limit then nodes else replication_loop limit seen nodes es)
      else replication_loop limit seen nodes es)"

definition get_nodes_for_replication :: "hasher \<Rightarrow> bytes \<Rightarrow> nat \<Rightarrow> ConsistentHashRing \<Rightarrow> bytes list" where
  "get_nodes_for_replication h key limit r =
     (if bt_list (ring r) = [] then []
      else replication_loop limit [] []
             (bt_range_from u64_cmp (h key) (ring r) @ bt_list (ring r)))"

definition get_all_nodes :: "env \<Rightarrow> ConsistentHashRing \<Rightarrow> Node list" where
  "get_all_nodes E r = map snd (table_iter (hash_order E) (ring_nodes r))"

definition get_node_by_id :: "bytes \<Rightarrow> ConsistentHashRing \<Rightarrow> Node option" where
  "get_node_by_id nid r = map_of (ring_nodes r) nid"

definition node_count :: "ConsistentHashRing \<Rightarrow> nat" where
  "node_count r = length (ring_nodes r)"

definition node_for_key :: "hasher \<Rightarrow> bytes \<Rightarrow> ConsistentHashRing \<Rightarrow> Node option" where
  "node_for_key h key r =
     (case get_node h key r of None \<Rightarrow> None | Some nid \<Rightarrow> get_node_by_id nid r)"

definition slot_for_key :: "hasher \<Rightarrow> bytes \<Rightarrow> nat" where
  "slot_for_key h key = unat (h key) mod 16384"

subsection \<open>The invariant\<close>

text \<open>The ring is in order and every id on it is a member, stored under its own id.\<close>

definition ring_inv :: "ConsistentHashRing \<Rightarrow> bool" where
  "ring_inv r \<longleftrightarrow> bl_ordered (\<lambda>_. True) uint (bt_list (ring r)) \<and>
     snd ` set (bt_list (ring r)) \<subseteq> dom (map_of (ring_nodes r)) \<and>
     (\<forall>nid n. map_of (ring_nodes r) nid = Some n \<longrightarrow> node_id n = nid)"

text \<open>The virtual nodes are added one by one: an induction over them carries each fact.\<close>

definition ring_step :: "hasher \<Rightarrow> bytes \<Rightarrow> nat list \<Rightarrow> (64 word, bytes) btree \<Rightarrow> (64 word, bytes) btree" where
  "ring_step h nid is t = fold (\<lambda>i. bt_insert u64_cmp (h (virtual_key nid i)) nid) is t"

lemma ring_step_induct:
  assumes "P t" and "\<And>t k. P t \<Longrightarrow> P (bt_insert u64_cmp k nid t)"
  shows "P (ring_step h nid is t)"
  unfolding ring_step_def using assms(1) by (induction "is" arbitrary: t) (simp_all add: assms(2))

lemma ring_add_node: "ring (add_node h n r) = ring_step h (node_id n) [0..<virtual_nodes r] (ring r)"
  by (simp add: add_node_def ring_step_def Let_def)

lemma ring_nodes_add_node: "map_of (ring_nodes (add_node h n r)) = (map_of (ring_nodes r))(node_id n \<mapsto> n)"
  by (simp add: add_node_def Let_def update_conv')

lemma ring_step_ordered:
  assumes "u64_order.ordered (bt_list t)"
  shows "u64_order.ordered (bt_list (ring_step h nid is t))"
  using assms by (rule ring_step_induct) (simp add: bt_insert_def u64_order.ordered_insert)

lemma ring_step_ids:
  assumes "u64_order.ordered (bt_list t)"
  shows "snd ` set (bt_list (ring_step h nid is t)) \<subseteq> insert nid (snd ` set (bt_list t))"
proof -
  have "u64_order.ordered (bt_list (ring_step h nid is t)) \<and>
        snd ` set (bt_list (ring_step h nid is t)) \<subseteq> insert nid (snd ` set (bt_list t))"
  proof (rule ring_step_induct, goal_cases)
    case (2 u k)
    then have "u64_order.ordered (bt_list u)" by simp
    then obtain k' where
      "set (bl_insert u64_cmp k nid (bt_list u)) =
         insert (k', nid) {e \<in> set (bt_list u). uint (fst e) \<noteq> uint k}"
      using u64_order.set_insert [of "bt_list u" k nid] by auto
    with 2 show ?case by (auto simp: bt_insert_def u64_order.ordered_insert)
  qed (use assms in auto)
  then show ?thesis ..
qed

lemma add_node_inv: "ring_inv r \<Longrightarrow> ring_inv (add_node h n r)"
  using ring_step_ids [of "ring r" h "node_id n" "[0..<virtual_nodes r]"]
  by (auto simp: ring_inv_def ring_add_node ring_nodes_add_node ring_step_ordered)

lemma remove_node_inv: "ring_inv r \<Longrightarrow> ring_inv (remove_node nid r)"
  by (auto simp: ring_inv_def remove_node_def u64_order.ordered_filter delete_conv' subset_eq split: if_splits)

lemma ring_new_inv: "ring_inv (with_virtual_nodes n)"
  by (simp add: ring_inv_def with_virtual_nodes_def bt_new_def)

subsection \<open>Successors\<close>

definition ring_walk :: "64 word \<Rightarrow> (64 word \<times> bytes) list \<Rightarrow> (64 word \<times> bytes) list" where
  "ring_walk p xs = filter (\<lambda>e. uint p \<le> uint (fst e)) xs @ xs"

lemma ring_walk_range:
  "ring_inv r \<Longrightarrow>
     bt_range_from u64_cmp p (ring r) @ bt_list (ring r) = ring_walk p (bt_list (ring r))"
  by (simp add: ring_walk_def ring_inv_def u64_order.range_from_filter)

fun first_id :: "(64 word \<times> bytes) list \<Rightarrow> bytes option" where
  "first_id [] = None"
| "first_id (e # _) = Some (snd e)"

lemma get_node_first:
  assumes "ring_inv r"
  shows "get_node h key r = first_id (ring_walk (h key) (bt_list (ring r)))"
proof (cases "bt_list (ring r) = []")
  case True
  then show ?thesis by (simp add: get_node_def ring_walk_def)
next
  case False
  then show ?thesis
    unfolding ring_walk_range [OF assms, symmetric]
    by (cases "bt_range_from u64_cmp (h key) (ring r)"; cases "bt_list (ring r)") (auto simp: get_node_def)
qed

lemma first_id_filter:
  "first_id xs \<noteq> Some nid \<Longrightarrow> first_id (filter (\<lambda>(_, j). j \<noteq> nid) xs) = first_id xs"
  by (cases xs) auto

lemma first_id_append:
  "first_id (xs @ ys) = (case first_id xs of None \<Rightarrow> first_id ys | Some j \<Rightarrow> Some j)"
  by (cases xs) simp_all

lemma first_id_None [simp]: "first_id xs = None \<longleftrightarrow> xs = []"
  by (cases xs) simp_all

lemma first_id_insert:
  "first_id (filter (\<lambda>e. Q (fst e)) (bl_insert u64_cmp k v xs))
     \<in> {Some v, first_id (filter (\<lambda>e. Q (fst e)) xs)}"
  by (induction xs) (auto simp: u64_cmp_def split: if_splits)

lemma insert_keeps_keys:
  "filter (\<lambda>e. Q (fst e)) (bl_insert u64_cmp k v xs) = [] \<Longrightarrow> filter (\<lambda>e. Q (fst e)) xs = []"
  by (induction xs) (auto simp: u64_cmp_def split: if_splits)

definition successor :: "64 word \<Rightarrow> (64 word \<times> bytes) list \<Rightarrow> bytes option" where
  "successor p xs = first_id (ring_walk p xs)"

lemma successor_insert: "successor p (bl_insert u64_cmp k v xs) \<in> {Some v, successor p xs}"
proof -
  let ?Q = "\<lambda>a. uint p \<le> uint a"
  show ?thesis
    using first_id_insert [of ?Q k v xs] first_id_insert [of "\<lambda>_. True" k v xs]
      insert_keeps_keys [of ?Q k v xs]
    by (auto simp: successor_def ring_walk_def first_id_append split: option.splits)
qed

lemma successor_ring_step:
  "successor p (bt_list (ring_step h nid is t)) \<in> {Some nid, successor p (bt_list t)}"
proof (rule ring_step_induct)
  fix u :: "(64 word, bytes) btree" and k
  assume "successor p (bt_list u) \<in> {Some nid, successor p (bt_list t)}"
  then show "successor p (bt_list (bt_insert u64_cmp k nid u)) \<in> {Some nid, successor p (bt_list t)}"
    using successor_insert [of p k nid "bt_list u"] by (auto simp: bt_insert_def)
qed simp

lemma successor_filter:
  assumes "successor p xs \<noteq> Some nid"
  shows "successor p (filter (\<lambda>(_, j). j \<noteq> nid) xs) = successor p xs"
  using assms first_id_filter [of "ring_walk p xs" nid]
  by (simp add: successor_def ring_walk_def conj_commute split_beta)

subsection \<open>Replication order\<close>

text \<open>The reference: the ids met from the key's position on, each at its first occurrence.\<close>

fun first_occurrences :: "bytes list \<Rightarrow> bytes list \<Rightarrow> bytes list" where
  "first_occurrences seen [] = []"
| "first_occurrences seen (x # xs) =
     (if x \<in> set seen then first_occurrences seen xs else x # first_occurrences (x # seen) xs)"

lemma set_first_occurrences: "set (first_occurrences seen xs) = set xs - set seen"
  by (induction seen xs rule: first_occurrences.induct) auto

lemma distinct_first_occurrences: "distinct (first_occurrences seen xs)"
  by (induction seen xs rule: first_occurrences.induct) (auto simp: set_first_occurrences)

lemma replication_loop_take:
  "length nodes < max 1 limit \<Longrightarrow>
     replication_loop limit seen nodes es =
       take (max 1 limit) (nodes @ first_occurrences seen (map snd es))"
proof (induction limit seen nodes es rule: replication_loop.induct)
  case (2 limit seen nodes k nid es)
  show ?case
  proof (cases "nid \<in> set seen")
    case False
    then show ?thesis
    proof (cases "limit \<le> length nodes + 1")
      case True
      then have "max 1 limit = length nodes + 1" using 2(3) by auto
      then show ?thesis using False True by (simp add: Let_def)
    next
      case limit: False
      then have "replication_loop limit (nid # seen) (nodes @ [nid]) es =
          take (max 1 limit) ((nodes @ [nid]) @ first_occurrences (nid # seen) (map snd es))"
        by (intro 2(1) [OF False refl refl]) auto
      then show ?thesis using False limit by (simp add: Let_def)
    qed
  qed (use 2 in simp)
qed simp

lemma replication_spec:
  "ring_inv r \<Longrightarrow> get_nodes_for_replication h key limit r =
     take (max 1 limit) (first_occurrences [] (map snd (ring_walk (h key) (bt_list (ring r)))))"
  by (auto simp: get_nodes_for_replication_def ring_walk_range replication_loop_take) (simp add: ring_walk_def)

lemma snd_ring_walk: "snd ` set (ring_walk p xs) = snd ` set xs"
  by (auto simp: ring_walk_def)

subsection \<open>Properties\<close>

lemma ring_remove_node: "bt_list (ring (remove_node nid r)) = filter (\<lambda>(_, j). j \<noteq> nid) (bt_list (ring r))"
  by (simp add: remove_node_def)

text \<open>
  (C28) Consistent hashing. Adding a node moves keys only to that node: every key stays where
  it was or is now the new node's. Removing a node moves only the keys it owned.
\<close>

theorem consistent_hashing:
  assumes "ring_inv r"
  shows "get_node h key (add_node h n r) \<in> {Some (node_id n), get_node h key r} \<and>
     (get_node h key (remove_node nid r) = get_node h key r \<or> get_node h key r = Some nid)"
  using successor_ring_step [of "h key" h "node_id n" "[0..<virtual_nodes r]" "ring r"]
    successor_filter [of "h key" "bt_list (ring r)" nid]
  by (auto simp: assms add_node_inv remove_node_inv get_node_first ring_add_node ring_remove_node
      simp flip: successor_def)

definition sample_hash :: hasher where
  "sample_hash bs = word_of_nat (sum_list (map of_char bs))"

definition sample_ring :: ConsistentHashRing where
  "sample_ring = add_node sample_hash (node_new sample_env ''b'' ''hb:1'' ''hb:2'')
     (add_node sample_hash (node_new sample_env ''a'' ''ha:1'' ''ha:2'') (with_virtual_nodes 2))"

lemma sample_ring_inv: "ring_inv sample_ring"
  by (simp add: sample_ring_def add_node_inv ring_new_inv)

theorem consistent_hashing_witness:
  "get_node sample_hash ''k'' (add_node sample_hash (node_new sample_env ''c'' ''hc:1'' ''hc:2'') sample_ring)
       \<in> {Some ''c'', get_node sample_hash ''k'' sample_ring} \<and>
   (get_node sample_hash ''k'' (remove_node ''b'' sample_ring) = get_node sample_hash ''k'' sample_ring \<or>
      get_node sample_hash ''k'' sample_ring = Some ''b'')"
  using consistent_hashing [OF sample_ring_inv, of sample_hash "''k''"
      "node_new sample_env ''c'' ''hc:1'' ''hc:2''" "''b''"]
  by (simp add: node_new_def)



end
