(* ===== verification/Wal.thy ===== *)
theory Wal
  imports Apply_Command "HOL-Library.Sublist"
begin

text \<open>
  The write-ahead log (persistence/wal.rs): the framing of an entry, the buffered writer, the
  rotation into numbered segments, the truncation after a snapshot and the replay. The disk is
  a table from paths to contents, whose operations do not fail. Parameters, in the record
  \<open>wal_codec\<close>: the CRC of the \<open>crc32fast\<close> crate and the encoding of a command by \<open>bincode\<close>.

  A buffered writer holds up to 8192 bytes that are not on the disk, and writes what it holds
  when it is dropped. A file opened for appending writes at the end of the file; one opened
  for writing writes at its own position, and leaves a hole of zeros before it if the file is
  shorter.
\<close>

datatype WALError = IoError bytes | SerializationError bytes | CorruptedEntry bytes

datatype WALSyncPolicy = Sync_Always | Sync_EverySecond | Sync_Manual

record wal_codec =
  wc_crc :: "bytes \<Rightarrow> 32 word"
  wc_encode :: "Command \<Rightarrow> bytes result"
  wc_decode :: "bytes \<Rightarrow> Command result"

subsection \<open>Entries\<close>

record WALEntry =
  we_sequence :: "64 word"
  we_timestamp :: "64 word"
  we_command :: Command

definition entry_new :: "env \<Rightarrow> 64 word \<Rightarrow> Command \<Rightarrow> WALEntry" where
  "entry_new E sequence cmd =
     \<lparr>we_sequence = sequence, we_timestamp = word_of_nat (unix_ms E), we_command = cmd\<rparr>"

text \<open>\<open>put_u64\<close>, \<open>put_u32\<close> and \<open>from_be_bytes\<close>: big-endian integers.\<close>

fun be_bytes :: "nat \<Rightarrow> nat \<Rightarrow> bytes" where
  "be_bytes 0 x = []"
| "be_bytes (Suc n) x = be_bytes n (x div 256) @ [char_of (x mod 256)]"

definition from_be :: "bytes \<Rightarrow> nat" where
  "from_be bs = foldl (\<lambda>a c. a * 256 + of_char c) 0 bs"

definition entry_serialize :: "wal_codec \<Rightarrow> WALEntry \<Rightarrow> WALError + bytes" where
  "entry_serialize cd e =
     (case wc_encode cd (we_command e) of
        Inl msg \<Rightarrow> Inl (SerializationError msg)
      | Inr cmd_bytes \<Rightarrow>
          (let buf = be_bytes 8 (unat (we_sequence e)) @ be_bytes 8 (unat (we_timestamp e)) @
                     be_bytes 4 (length cmd_bytes mod 2 ^ 32) @ cmd_bytes
           in Inr (buf @ be_bytes 4 (unat (wc_crc cd buf)))))"

definition entry_deserialize :: "wal_codec \<Rightarrow> bytes \<Rightarrow> WALError + WALEntry" where
  "entry_deserialize cd data =
     (if length data < 24 then Inl (CorruptedEntry ''Entry too short'')
      else
        (let checksum_offset = length data - 4;
             expected_checksum = from_be (drop checksum_offset data);
             actual_checksum = unat (wc_crc cd (take checksum_offset data))
         in if actual_checksum \<noteq> expected_checksum then Inl (CorruptedEntry ''Checksum mismatch'')
            else
              (let sequence = from_be (take 8 data);
                   timestamp = from_be (take 8 (drop 8 data));
                   cmd_size = from_be (take 4 (drop 16 data));
                   rest = drop 20 data
               in if length rest < cmd_size + 4 then Inl (CorruptedEntry ''Invalid command size'')
                  else (case wc_decode cd (take cmd_size rest) of
                      Inl msg \<Rightarrow> Inl (CorruptedEntry (''bincode decode failed: '' @ msg))
                    | Inr cmd \<Rightarrow> Inr \<lparr>we_sequence = word_of_nat sequence,
                                     we_timestamp = word_of_nat timestamp, we_command = cmd\<rparr>))))"

subsection \<open>The log and its files\<close>

record WriteAheadLog =
  wal_files :: "bytes table"
  wal_path :: bytes
  wal_buf :: bytes
  wal_append :: bool
  wal_pos :: nat
  wal_seq :: "64 word"
  wal_sync :: WALSyncPolicy
  wal_size :: nat
  wal_max :: nat
  wal_backup_count :: nat

definition file_content :: "bytes \<Rightarrow> bytes table \<Rightarrow> bytes" where
  "file_content path fs = (case map_of fs path of Some c \<Rightarrow> c | None \<Rightarrow> [])"

definition write_at :: "nat \<Rightarrow> bytes \<Rightarrow> bytes \<Rightarrow> bytes" where
  "write_at pos data c =
     (if data = [] then c
      else take pos (c @ replicate (pos - length c) (CHR 0x00)) @ data @ drop (pos + length data) c)"

definition handle_write :: "bytes \<Rightarrow> WriteAheadLog \<Rightarrow> WriteAheadLog" where
  "handle_write data w =
     (let c = file_content (wal_path w) (wal_files w)
      in w\<lparr>wal_files := AList.update (wal_path w)
              (if wal_append w then c @ data else write_at (wal_pos w) data c) (wal_files w),
           wal_pos := wal_pos w + length data\<rparr>)"

definition bw_flush :: "WriteAheadLog \<Rightarrow> WriteAheadLog" where
  "bw_flush w = (handle_write (wal_buf w) w)\<lparr>wal_buf := []\<rparr>"

definition bw_write_all :: "bytes \<Rightarrow> WriteAheadLog \<Rightarrow> WriteAheadLog" where
  "bw_write_all data w =
     (if length data < 8192 - length (wal_buf w) then w\<lparr>wal_buf := wal_buf w @ data\<rparr>
      else
        (let w' = (if length data > 8192 - length (wal_buf w) then bw_flush w else w)
         in if length data \<ge> 8192 then handle_write data w' else w'\<lparr>wal_buf := wal_buf w' @ data\<rparr>))"

definition segment_path :: "nat \<Rightarrow> bytes \<Rightarrow> bytes" where
  "segment_path n path = path @ ''.'' @ nat_to_string n"

definition segments_to_keep :: "WriteAheadLog \<Rightarrow> nat" where
  "segments_to_keep w = max (wal_backup_count w) 1"

definition files_in_replay_order :: "WriteAheadLog \<Rightarrow> bytes list" where
  "files_in_replay_order w =
     filter (\<lambda>p. map_of (wal_files w) p \<noteq> None)
       (map (\<lambda>n. segment_path n (wal_path w)) (rev [1..<segments_to_keep w + 1]) @ [wal_path w])"

definition should_rotate :: "WriteAheadLog \<Rightarrow> bool" where
  "should_rotate w \<longleftrightarrow> wal_size w \<ge> wal_max w"

text \<open>The loop \<open>for n in (1..keep).rev()\<close>: segment \<open>n\<close> becomes segment \<open>n + 1\<close>.\<close>

fun age_segments :: "bytes \<Rightarrow> nat \<Rightarrow> bytes table \<Rightarrow> bytes table" where
  "age_segments path 0 fs = fs"
| "age_segments path (Suc n) fs =
     age_segments path n
       (case map_of fs (segment_path (Suc n) path) of
          Some c \<Rightarrow> AList.update (segment_path (Suc (Suc n)) path) c
                      (AList.delete (segment_path (Suc n) path) fs)
        | None \<Rightarrow> fs)"

definition rotate_wal :: "WriteAheadLog \<Rightarrow> WriteAheadLog" where
  "rotate_wal w0 =
     (let keep = segments_to_keep w0;
          w = bw_flush w0;
          fs = AList.delete (segment_path keep (wal_path w)) (wal_files w);
          fs = age_segments (wal_path w) (keep - 1) fs;
          fs = AList.update (segment_path 1 (wal_path w)) (file_content (wal_path w) fs) fs;
          fs = AList.update (wal_path w) [] fs
      in w\<lparr>wal_files := fs, wal_buf := [], wal_append := False, wal_pos := 0, wal_size := 0\<rparr>)"

definition append_command ::
    "wal_codec \<Rightarrow> env \<Rightarrow> Command \<Rightarrow> WriteAheadLog \<Rightarrow> (WALError + 64 word) \<times> WriteAheadLog" where
  "append_command cd E cmd w =
     (let seq = wal_seq w; w = w\<lparr>wal_seq := seq + 1\<rparr>
      in case entry_serialize cd (entry_new E seq cmd) of
           Inl e \<Rightarrow> (Inl e, w)
         | Inr entry_bytes \<Rightarrow>
             (let w = bw_write_all entry_bytes w;
                  w = (if wal_sync w = Sync_Always then bw_flush w else w);
                  w = w\<lparr>wal_size := wal_size w + length entry_bytes\<rparr>;
                  w = (if should_rotate w then rotate_wal w else w)
              in (Inr seq, w)))"

definition sync_wal :: "WriteAheadLog \<Rightarrow> WriteAheadLog" where
  "sync_wal w = bw_flush w"

text \<open>
  The file is emptied first; then the writer is replaced, and the old one, as it is dropped,
  writes what it still holds through its own handle.
\<close>

definition truncate_after_snapshot :: "WriteAheadLog \<Rightarrow> WriteAheadLog" where
  "truncate_after_snapshot w =
     (let w = bw_flush (w\<lparr>wal_files := AList.update (wal_path w) [] (wal_files w)\<rparr>)
      in w\<lparr>wal_append := False, wal_pos := 0, wal_size := 0\<rparr>)"

subsection \<open>Replay\<close>

datatype frame = Frame_eof | Frame_torn | Frame bytes bytes bytes

text \<open>
  One turn of the reading loops: fewer than 20 bytes end the file; a header whose command and
  checksum are cut short is an error; otherwise the header, the data and the rest.
\<close>

definition read_frame :: "bytes \<Rightarrow> frame" where
  "read_frame data =
     (if length data < 20 then Frame_eof
      else (let n = from_be (take 4 (drop 16 data)) + 4
            in if length data < 20 + n then Frame_torn
               else Frame (take 20 data) (take n (drop 20 data)) (drop (20 + n) data)))"

lemma read_frame_shorter: "read_frame data = Frame header body rest \<Longrightarrow> length rest < length data"
  by (auto simp: read_frame_def Let_def split: if_splits)

function replay_file :: "wal_codec \<Rightarrow> bytes \<Rightarrow> WALEntry list \<times> WALError option" where
  "replay_file cd data =
     (case read_frame data of
        Frame_eof \<Rightarrow> ([], None)
      | Frame_torn \<Rightarrow> ([], Some (IoError ''failed to fill whole buffer''))
      | Frame header body rest \<Rightarrow>
          (case replay_file cd rest of (es, err) \<Rightarrow>
             (case entry_deserialize cd (header @ body) of
                Inr entry \<Rightarrow> (entry # es, err)
              | Inl _ \<Rightarrow> (es, err))))"
  by pat_completeness auto
termination
  by (relation "measure (\<lambda>(cd, data). length data)") (auto dest: read_frame_shorter)

declare replay_file.simps [simp del]

text \<open>The entries the callback is given, and the error that ends the replay, if any.\<close>

fun replay_files :: "wal_codec \<Rightarrow> bytes table \<Rightarrow> bytes list \<Rightarrow> WALEntry list \<times> WALError option" where
  "replay_files cd fs [] = ([], None)"
| "replay_files cd fs (p # ps) =
     (case replay_file cd (file_content p fs) of
        (es, Some e) \<Rightarrow> (es, Some e)
      | (es, None) \<Rightarrow> (case replay_files cd fs ps of (es', err) \<Rightarrow> (es @ es', err)))"

definition wal_replay :: "wal_codec \<Rightarrow> WriteAheadLog \<Rightarrow> WALEntry list \<times> WALError option" where
  "wal_replay cd w = replay_files cd (wal_files w) (files_in_replay_order w)"

function scan_sequences :: "bytes \<Rightarrow> WALError + 64 word list" where
  "scan_sequences data =
     (case read_frame data of
        Frame_eof \<Rightarrow> Inr []
      | Frame_torn \<Rightarrow> Inl (IoError ''failed to fill whole buffer'')
      | Frame header body rest \<Rightarrow>
          rbind (scan_sequences rest) (\<lambda>seqs. Inr (word_of_nat (from_be (take 8 header)) # seqs)))"
  by pat_completeness auto
termination
  by (relation "measure length") (auto dest: read_frame_shorter)

declare scan_sequences.simps [simp del]

fun scan_files :: "bytes table \<Rightarrow> bytes list \<Rightarrow> WALError + 64 word list" where
  "scan_files fs [] = Inr []"
| "scan_files fs (p # ps) =
     (case map_of fs p of
        None \<Rightarrow> scan_files fs ps
      | Some c \<Rightarrow> rbind (scan_sequences c) (\<lambda>a. rbind (scan_files fs ps) (\<lambda>b. Inr (a @ b))))"

definition read_last_sequence :: "bytes \<Rightarrow> nat \<Rightarrow> bytes table \<Rightarrow> WALError + 64 word" where
  "read_last_sequence path backup_count fs =
     (let keep = max backup_count 1
      in rbind (scan_files fs (path # map (\<lambda>n. segment_path n path) [1..<keep + 1])) (\<lambda>seqs.
           Inr (if seqs \<noteq> [] then fold max seqs 0 + 1 else 0)))"

definition wal_open ::
    "bytes \<Rightarrow> WALSyncPolicy \<Rightarrow> nat \<Rightarrow> nat \<Rightarrow> bytes table \<Rightarrow> WALError + WriteAheadLog" where
  "wal_open path policy max_size backup_count fs0 =
     (let fs = AList.update path (file_content path fs0) fs0
      in rbind (read_last_sequence path backup_count fs) (\<lambda>sequence.
           Inr \<lparr>wal_files = fs, wal_path = path, wal_buf = [], wal_append = True, wal_pos = 0,
                wal_seq = sequence, wal_sync = policy, wal_size = length (file_content path fs),
                wal_max = max_size, wal_backup_count = backup_count\<rparr>))"

subsection \<open>Framing\<close>

lemma length_be_bytes [simp]: "length (be_bytes n x) = n"
  by (induction n arbitrary: x) simp_all

lemma from_be_snoc [simp]: "from_be (xs @ [c]) = from_be xs * 256 + of_char c"
  by (simp add: from_be_def)

lemma from_be_bytes: "x < 256 ^ n \<Longrightarrow> from_be (be_bytes n x) = x"
proof (induction n arbitrary: x)
  case (Suc n)
  then have "x div 256 < 256 ^ n" by (simp add: less_mult_imp_div_less mult.commute)
  with Suc.IH show ?case by simp
qed (simp add: from_be_def)

lemma from_be_u64 [simp]: "from_be (be_bytes 8 (unat (x :: 64 word))) = unat x"
  using unsigned_less [of x, where ?'a = nat] by (intro from_be_bytes) simp

lemma from_be_u32 [simp]: "from_be (be_bytes 4 (unat (x :: 32 word))) = unat x"
  using unsigned_less [of x, where ?'a = nat] by (intro from_be_bytes) simp

text \<open>What is relied on of the codec, for a command: it decodes to itself, and fits a \<open>u32\<close>.\<close>

definition codec_ok :: "wal_codec \<Rightarrow> Command \<Rightarrow> bool" where
  "codec_ok cd c \<longleftrightarrow> (case wc_encode cd c of Inl _ \<Rightarrow> False | Inr b \<Rightarrow> wc_decode cd b = Inr c \<and> length b < 2 ^ 32)"

definition entry_bytes :: "wal_codec \<Rightarrow> WALEntry \<Rightarrow> bytes" where
  "entry_bytes cd e = (case entry_serialize cd e of Inr b \<Rightarrow> b | Inl _ \<Rightarrow> [])"

lemma codec_okE:
  assumes "codec_ok cd c"
  obtains b where "wc_encode cd c = Inr b" "wc_decode cd b = Inr c" "length b < 2 ^ 32"
  using assms by (auto simp: codec_ok_def split: sum.splits)

lemma entry_framed:
  assumes "codec_ok cd (we_command e)"
  obtains header body where "entry_serialize cd e = Inr (header @ body)" "length header = 20"
    "length body = from_be (take 4 (drop 16 header)) + 4" "entry_deserialize cd (header @ body) = Inr e"
proof -
  obtain b where b: "wc_encode cd (we_command e) = Inr b" "wc_decode cd b = Inr (we_command e)"
    "length b < 2 ^ 32" using assms by (rule codec_okE)
  define header where "header = be_bytes 8 (unat (we_sequence e)) @ be_bytes 8 (unat (we_timestamp e)) @
    be_bytes 4 (length b)"
  define body where "body = b @ be_bytes 4 (unat (wc_crc cd (header @ b)))"
  have size: "from_be (be_bytes 4 (length b)) = length b" using b(3) by (intro from_be_bytes) simp
  show thesis
  proof (rule that [of header body])
    show "entry_serialize cd e = Inr (header @ body)"
      using b by (simp add: entry_serialize_def header_def body_def Let_def)
    show "entry_deserialize cd (header @ body) = Inr e"
      using b size by (simp add: entry_deserialize_def header_def body_def Let_def)
  qed (simp_all add: header_def body_def size)
qed

lemma entry_roundtrip:
  assumes "codec_ok cd (we_command e)"
  shows "\<exists>b. entry_serialize cd e = Inr b \<and> entry_deserialize cd b = Inr e"
  using assms by (rule entry_framed) blast

lemma replay_file_entry:
  assumes "codec_ok cd (we_command e)"
  shows "replay_file cd (entry_bytes cd e @ rest) = apfst ((#) e) (replay_file cd rest)"
proof -
  obtain header body where f: "entry_serialize cd e = Inr (header @ body)" "length header = 20"
    "length body = from_be (take 4 (drop 16 header)) + 4" "entry_deserialize cd (header @ body) = Inr e"
    using assms by (rule entry_framed)
  have "read_frame (entry_bytes cd e @ rest) = Frame header body rest"
    using f by (simp add: read_frame_def entry_bytes_def Let_def)
  then show ?thesis using f(4) by (subst replay_file.simps) (simp add: split_beta apfst_def map_prod_def)
qed

definition log_bytes :: "wal_codec \<Rightarrow> WALEntry list \<Rightarrow> bytes" where
  "log_bytes cd es = concat (map (entry_bytes cd) es)"

lemma log_bytes_simps [simp]:
  "log_bytes cd [] = []" "log_bytes cd (es @ es') = log_bytes cd es @ log_bytes cd es'"
  "log_bytes cd (e # es) = entry_bytes cd e @ log_bytes cd es"
  by (simp_all add: log_bytes_def)

lemma replay_file_log:
  "list_all (\<lambda>e. codec_ok cd (we_command e)) es \<Longrightarrow> length tail < 20 \<Longrightarrow>
     replay_file cd (log_bytes cd es @ tail) = (es, None)"
proof (induction es)
  case Nil
  then show ?case by (subst replay_file.simps) (simp add: read_frame_def)
next
  case (Cons e es)
  then show ?case using replay_file_entry [of cd e "log_bytes cd es @ tail"] by simp
qed

subsection \<open>The buffered writer\<close>

definition wal_stream :: "WriteAheadLog \<Rightarrow> bytes" where
  "wal_stream w = file_content (wal_path w) (wal_files w) @ wal_buf w"

definition at_end :: "WriteAheadLog \<Rightarrow> bool" where
  "at_end w \<longleftrightarrow> wal_append w \<or> wal_pos w = length (file_content (wal_path w) (wal_files w))"

lemma write_at_end: "write_at (length c) data c = c @ data"
  by (simp add: write_at_def)

lemma file_content_update [simp]:
  "file_content p (AList.update q c fs) = (if p = q then c else file_content p fs)"
  by (simp add: file_content_def update_conv')

lemma handle_write_end:
  assumes "at_end w"
  shows "file_content (wal_path w) (wal_files (handle_write data w)) =
      file_content (wal_path w) (wal_files w) @ data" "at_end (handle_write data w)"
  using assms by (auto simp: handle_write_def at_end_def Let_def write_at_end)

lemma handle_write_fields [simp]:
  "wal_path (handle_write d w) = wal_path w" "wal_buf (handle_write d w) = wal_buf w"
  "wal_seq (handle_write d w) = wal_seq w" "wal_sync (handle_write d w) = wal_sync w"
  "wal_size (handle_write d w) = wal_size w" "wal_max (handle_write d w) = wal_max w"
  "wal_backup_count (handle_write d w) = wal_backup_count w"
  by (simp_all add: handle_write_def Let_def)

lemma handle_write_other:
  "p \<noteq> wal_path w \<Longrightarrow> map_of (wal_files (handle_write d w)) p = map_of (wal_files w) p"
  "map_of (wal_files (handle_write d w)) (wal_path w) \<noteq> None"
  by (simp_all add: handle_write_def Let_def update_conv')

lemma bw_flush_fields [simp]:
  "wal_path (bw_flush w) = wal_path w" "wal_buf (bw_flush w) = []"
  "wal_seq (bw_flush w) = wal_seq w" "wal_sync (bw_flush w) = wal_sync w"
  "wal_size (bw_flush w) = wal_size w" "wal_max (bw_flush w) = wal_max w"
  "wal_backup_count (bw_flush w) = wal_backup_count w"
  by (simp_all add: bw_flush_def)

lemma bw_flush_other:
  "p \<noteq> wal_path w \<Longrightarrow> map_of (wal_files (bw_flush w)) p = map_of (wal_files w) p"
  "map_of (wal_files (bw_flush w)) (wal_path w) \<noteq> None"
  using handle_write_other by (simp_all add: bw_flush_def)

lemma bw_flush_end:
  assumes "at_end w"
  shows "wal_stream (bw_flush w) = wal_stream w" "at_end (bw_flush w)"
  using handle_write_end [OF assms, of "wal_buf w"] by (simp_all add: bw_flush_def wal_stream_def at_end_def)

lemma bw_write_fields [simp]:
  "wal_path (bw_write_all d w) = wal_path w" "wal_seq (bw_write_all d w) = wal_seq w"
  "wal_sync (bw_write_all d w) = wal_sync w" "wal_size (bw_write_all d w) = wal_size w"
  "wal_max (bw_write_all d w) = wal_max w" "wal_backup_count (bw_write_all d w) = wal_backup_count w"
  by (simp_all add: bw_write_all_def Let_def)

lemma bw_write_other:
  "p \<noteq> wal_path w \<Longrightarrow> map_of (wal_files (bw_write_all d w)) p = map_of (wal_files w) p"
  "map_of (wal_files w) (wal_path w) \<noteq> None \<Longrightarrow> map_of (wal_files (bw_write_all d w)) (wal_path w) \<noteq> None"
  using bw_flush_other handle_write_other handle_write_other(2) [of d "bw_flush w"]
  by (auto simp: bw_write_all_def Let_def)

lemma bw_write_end:
  assumes "at_end w"
  shows "wal_stream (bw_write_all d w) = wal_stream w @ d" "at_end (bw_write_all d w)"
proof -
  have buffered: "wal_stream (v\<lparr>wal_buf := wal_buf v @ d\<rparr>) = wal_stream v @ d" for v
    by (simp add: wal_stream_def)
  have direct: "wal_stream (handle_write d v) = wal_stream v @ d" if "at_end v" "wal_buf v = []" for v
    using handle_write_end(1) [OF that(1)] that(2) by (simp add: wal_stream_def)
  have big: "wal_buf w = []" if "8192 \<le> length d" "\<not> 8192 - length (wal_buf w) < length d"
    using that by (cases "wal_buf w") auto
  show "wal_stream (bw_write_all d w) = wal_stream w @ d"
    using bw_flush_end [OF assms] big buffered direct assms
    by (auto simp: bw_write_all_def Let_def)
  show "at_end (bw_write_all d w)"
    using bw_flush_end(2) [OF assms] handle_write_end(2) assms
    by (auto simp: bw_write_all_def Let_def at_end_def)
qed

subsection \<open>Rotation\<close>

lemma segment_path_inj [simp]: "segment_path m p = segment_path n p \<longleftrightarrow> m = n"
  by (simp add: segment_path_def)

lemma segment_path_neq [simp]: "segment_path n p \<noteq> p" "p \<noteq> segment_path n p"
  by (auto simp: segment_path_def)

lemma age_segments_other:
  "(\<And>j. p \<noteq> segment_path j path) \<Longrightarrow> map_of (age_segments path n fs) p = map_of fs p"
  by (induction path n fs rule: age_segments.induct) (simp_all add: update_conv' delete_conv' split: option.split)

lemma age_segments_shift:
  assumes "map_of fs (segment_path (Suc n) path) = None"
  shows "map_of (age_segments path n fs) (segment_path j path) =
     (if 1 \<le> j \<and> j \<le> Suc n then (if j = 1 then None else map_of fs (segment_path (j - 1) path))
      else map_of fs (segment_path j path))"
  using assms
proof (induction path n fs rule: age_segments.induct)
  case (1 path fs)
  then show ?case by (auto simp: le_Suc_eq)
next
  case (2 path n fs)
  let ?fs = "case map_of fs (segment_path (Suc n) path) of
      Some c \<Rightarrow> AList.update (segment_path (Suc (Suc n)) path) c (AList.delete (segment_path (Suc n) path) fs)
    | None \<Rightarrow> fs"
  have "map_of ?fs (segment_path (Suc n) path) = None"
    by (auto simp: update_conv' delete_conv' split: option.split)
  from "2.IH" [OF this] 2(2) show ?case
    by (auto simp: update_conv' delete_conv' le_Suc_eq split: option.splits)
qed

text \<open>
  The abstract log: closed segments, newest first, and the entries since. The files hold it,
  the active file together with the buffer.
\<close>

definition wal_holds :: "wal_codec \<Rightarrow> WALEntry list list \<Rightarrow> WALEntry list \<Rightarrow> WriteAheadLog \<Rightarrow> bool" where
  "wal_holds cd segs active w \<longleftrightarrow>
     length segs \<le> segments_to_keep w \<and>
     (\<forall>j. 1 \<le> j \<longrightarrow> j \<le> segments_to_keep w \<longrightarrow> map_of (wal_files w) (segment_path j (wal_path w)) =
        (if j \<le> length segs then Some (log_bytes cd (segs ! (j - 1))) else None)) \<and>
     map_of (wal_files w) (wal_path w) \<noteq> None \<and> wal_stream w = log_bytes cd active \<and> at_end w \<and>
     list_all (list_all (\<lambda>e. codec_ok cd (we_command e))) (active # segs)"

definition wal_inv :: "wal_codec \<Rightarrow> WriteAheadLog \<Rightarrow> bool" where
  "wal_inv cd w \<longleftrightarrow> (\<exists>segs active. wal_holds cd segs active w)"

lemma wal_holds_flush: "wal_holds cd segs active w \<Longrightarrow> wal_holds cd segs active (bw_flush w)"
  using bw_flush_other
  by (auto simp: wal_holds_def bw_flush_end segments_to_keep_def)

lemma wal_holds_write:
  assumes "wal_holds cd segs active w" "codec_ok cd (we_command e)"
  shows "wal_holds cd segs (active @ [e]) (bw_write_all (entry_bytes cd e) w)"
  using assms bw_write_other
  by (auto simp: wal_holds_def bw_write_end segments_to_keep_def)

lemma wal_holds_fields:
  assumes "wal_holds cd segs active w" "wal_files w' = wal_files w" "wal_path w' = wal_path w"
    "wal_buf w' = wal_buf w" "wal_append w' = wal_append w" "wal_pos w' = wal_pos w"
    "wal_backup_count w' = wal_backup_count w"
  shows "wal_holds cd segs active w'"
  using assms by (simp add: wal_holds_def wal_stream_def at_end_def segments_to_keep_def)

lemma rotate_wal_fields [simp]:
  "wal_path (rotate_wal w) = wal_path w" "wal_backup_count (rotate_wal w) = wal_backup_count w"
  "wal_buf (rotate_wal w) = []" "wal_seq (rotate_wal w) = wal_seq w"
  "wal_sync (rotate_wal w) = wal_sync w" "wal_max (rotate_wal w) = wal_max w"
  by (simp_all add: rotate_wal_def Let_def)

lemma wal_holds_rotate:
  assumes "wal_holds cd segs active w"
  shows "wal_holds cd (take (segments_to_keep w) (active # segs)) [] (rotate_wal w)"
proof -
  let ?keep = "segments_to_keep w" and ?w = "bw_flush w" and ?p = "wal_path w"
  let ?fs = "AList.delete (segment_path ?keep ?p) (wal_files ?w)"
  let ?aged = "age_segments ?p (?keep - 1) ?fs"
  have keep: "1 \<le> ?keep" by (simp add: segments_to_keep_def)
  note h = wal_holds_flush [OF assms, unfolded wal_holds_def]
  have k: "segments_to_keep ?w = ?keep" by (simp add: segments_to_keep_def)
  have fs: "map_of ?fs (segment_path j ?p) = (if j \<le> length segs \<and> j \<noteq> ?keep then Some (log_bytes cd (segs ! (j - 1))) else None)"
    if "1 \<le> j" "j \<le> ?keep" for j using h that k by (simp add: delete_conv')
  have active: "file_content ?p ?aged = log_bytes cd active"
    using h age_segments_other [of ?p ?p "?keep - 1" ?fs]
    by (auto simp: file_content_def wal_stream_def delete_conv')
  have files: "map_of (wal_files (rotate_wal w)) (segment_path j ?p) =
      (if j = 1 then Some (log_bytes cd active) else map_of ?aged (segment_path j ?p))" for j
    using active by (simp add: rotate_wal_def Let_def update_conv')
  have aged: "map_of ?aged (segment_path j ?p) = map_of ?fs (segment_path (j - 1) ?p)"
    if "1 < j" "j \<le> ?keep" for j
    using age_segments_shift [of ?fs "?keep - 1" ?p j] that keep by (simp add: delete_conv')
  have "map_of (wal_files (rotate_wal w)) (segment_path j ?p) =
      (if j \<le> length (take ?keep (active # segs)) then Some (log_bytes cd (take ?keep (active # segs) ! (j - 1))) else None)"
    if "1 \<le> j" "j \<le> ?keep" for j
  proof (cases "j = 1")
    case False
    then show ?thesis using that files aged [of j] fs [of "j - 1"] by (auto simp: nth_Cons')
  qed (use files keep in auto)
  moreover have "wal_stream (rotate_wal w) = []" "at_end (rotate_wal w)"
    "map_of (wal_files (rotate_wal w)) ?p \<noteq> None"
    by (simp_all add: rotate_wal_def Let_def wal_stream_def at_end_def update_conv')
  moreover have "list_all (list_all (\<lambda>e. codec_ok cd (we_command e))) (take ?keep (active # segs))"
    using h set_take_subset [of ?keep "active # segs"] by (fastforce simp: list_all_iff)
  ultimately show ?thesis by (simp add: wal_holds_def segments_to_keep_def)
qed

subsection \<open>Replay of what the files hold\<close>

lemma replay_files_append:
  "replay_files cd fs (ps @ qs) =
     (case replay_files cd fs ps of
        (es, Some e) \<Rightarrow> (es, Some e)
      | (es, None) \<Rightarrow> apfst ((@) es) (replay_files cd fs qs))"
  by (induction ps; cases "replay_files cd fs qs") (auto split: prod.splits option.splits)

lemma replay_segments:
  assumes "\<And>j. 1 \<le> j \<Longrightarrow> j \<le> n \<Longrightarrow> map_of fs (segment_path j path) =
      (if j \<le> length segs then Some (log_bytes cd (segs ! (j - 1))) else None)"
    "list_all (list_all (\<lambda>e. codec_ok cd (we_command e))) segs"
  shows "replay_files cd fs (filter (\<lambda>p. map_of fs p \<noteq> None) (map (\<lambda>j. segment_path j path) (rev [1..<n + 1]))) =
     (concat (rev (take n segs)), None)"
  using assms(1)
proof (induction n)
  case (Suc n)
  have IH: "replay_files cd fs (filter (\<lambda>p. map_of fs p \<noteq> None) (map (\<lambda>j. segment_path j path) (rev [1..<n + 1]))) =
     (concat (rev (take n segs)), None)" using Suc by simp
  show ?case
  proof (cases "Suc n \<le> length segs")
    case True
    then have seg: "map_of fs (segment_path (Suc n) path) = Some (log_bytes cd (segs ! n))"
      using Suc.prems [of "Suc n"] by simp
    have "replay_file cd (log_bytes cd (segs ! n) @ []) = (segs ! n, None)"
      using True assms(2) by (intro replay_file_log) (auto simp: list_all_length)
    then show ?thesis
      using IH seg True by (simp add: file_content_def take_Suc_conv_app_nth)
  next
    case False
    then have "map_of fs (segment_path (Suc n) path) = None" using Suc.prems [of "Suc n"] by simp
    then show ?thesis using IH False by simp
  qed
qed simp

lemma wal_holds_replay:
  assumes "wal_holds cd segs active w" "wal_buf w = []"
  shows "wal_replay cd w = (concat (rev segs) @ active, None)"
proof -
  have "replay_file cd (file_content (wal_path w) (wal_files w) @ []) = (active, None)"
    using assms replay_file_log [of cd active "[]"] by (simp add: wal_holds_def wal_stream_def)
  moreover have "replay_files cd (wal_files w) (filter (\<lambda>p. map_of (wal_files w) p \<noteq> None)
      (map (\<lambda>j. segment_path j (wal_path w)) (rev [1..<segments_to_keep w + 1]))) = (concat (rev segs), None)"
    using assms(1) by (subst replay_segments [where segs = segs]) (simp_all add: wal_holds_def)
  ultimately show ?thesis
    using assms(1) by (simp add: wal_replay_def files_in_replay_order_def replay_files_append wal_holds_def)
qed

text \<open>What a restart after a sync replays.\<close>

definition wal_log :: "wal_codec \<Rightarrow> WriteAheadLog \<Rightarrow> WALEntry list" where
  "wal_log cd w = fst (wal_replay cd (sync_wal w))"

lemma wal_log_holds: "wal_holds cd segs active w \<Longrightarrow> wal_log cd w = concat (rev segs) @ active"
  by (simp add: wal_log_def sync_wal_def wal_holds_replay [OF wal_holds_flush])

lemma append_command_holds:
  fixes E :: env
  assumes "wal_holds cd segs active w" "codec_ok cd cmd"
  defines "e \<equiv> entry_new E (wal_seq w) cmd"
  shows "wal_holds cd segs (active @ [e]) (snd (append_command cd E cmd w)) \<or>
     wal_holds cd (take (segments_to_keep w) ((active @ [e]) # segs)) [] (snd (append_command cd E cmd w))"
proof -
  have ok: "codec_ok cd (we_command e)" using assms(2) by (simp add: e_def entry_new_def)
  then have ser: "entry_serialize cd (entry_new E (wal_seq w) cmd) = Inr (entry_bytes cd e)"
    by (auto simp: e_def entry_bytes_def elim: entry_framed)
  let ?w1 = "bw_write_all (entry_bytes cd e) (w\<lparr>wal_seq := wal_seq w + 1\<rparr>)"
  let ?w2 = "if wal_sync ?w1 = Sync_Always then bw_flush ?w1 else ?w1"
  let ?w3 = "?w2\<lparr>wal_size := wal_size ?w2 + length (entry_bytes cd e)\<rparr>"
  have "wal_holds cd segs active (w\<lparr>wal_seq := wal_seq w + 1\<rparr>)" by (rule wal_holds_fields [OF assms(1)]) simp_all
  then have "wal_holds cd segs (active @ [e]) ?w2" using wal_holds_write [OF _ ok] wal_holds_flush by simp
  then have w3: "wal_holds cd segs (active @ [e]) ?w3" by (rule wal_holds_fields) simp_all
  have "segments_to_keep ?w3 = segments_to_keep w" by (simp add: segments_to_keep_def)
  with wal_holds_rotate [OF w3] have "wal_holds cd (take (segments_to_keep w) ((active @ [e]) # segs)) [] (rotate_wal ?w3)"
    by metis
  with w3 show ?thesis by (simp add: append_command_def Let_def ser)
qed

text \<open>A log that keeps at least the recent commands, as the server relies on it.\<close>

locale recent_log =
  fixes append :: "'e \<Rightarrow> Command \<Rightarrow> 'l \<Rightarrow> 'l"
    and contents :: "'l \<Rightarrow> Command list"
    and wf :: "'l \<Rightarrow> bool"
    and ok :: "Command \<Rightarrow> bool"
  assumes wf_append: "wf l \<Longrightarrow> ok c \<Longrightarrow> wf (append e c l)"
    and contents_append: "wf l \<Longrightarrow> ok c \<Longrightarrow> \<exists>old. suffix old (contents l) \<and> contents (append e c l) = old @ [c]"
begin

lemma wf_fold: "wf l \<Longrightarrow> list_all (\<lambda>(e, c). ok c) ws \<Longrightarrow> wf (fold (\<lambda>(e, c). append e c) ws l)"
  by (induction ws arbitrary: l) (auto simp: wf_append)

lemma contents_fold:
  "wf l \<Longrightarrow> list_all (\<lambda>(e, c). ok c) ws \<Longrightarrow>
     suffix (contents (fold (\<lambda>(e, c). append e c) ws l)) (contents l @ map snd ws)"
proof (induction ws rule: rev_induct)
  case (snoc w ws)
  obtain e c where w: "w = (e, c)" by (cases w)
  let ?l = "fold (\<lambda>(e, c). append e c) ws l"
  have "suffix (contents ?l) (contents l @ map snd ws)" using snoc by simp
  moreover have "wf ?l" "ok c" using wf_fold snoc.prems w by simp_all
  then obtain old where "suffix old (contents ?l)" "contents (append e c ?l) = old @ [c]"
    using contents_append by blast
  ultimately show ?case by (auto simp: w suffix_def)
qed simp

lemma contents_last: "wf l \<Longrightarrow> ok c \<Longrightarrow> contents (append e c l) \<noteq> [] \<and> last (contents (append e c l)) = c"
  using contents_append [of l c e] by auto

end

lemma wal_contents_append:
  assumes "wal_inv cd w" "codec_ok cd cmd"
  shows "wal_inv cd (snd (append_command cd E cmd w)) \<and>
     (\<exists>old. suffix old (wal_log cd w) \<and>
        wal_log cd (snd (append_command cd E cmd w)) = old @ [entry_new E (wal_seq w) cmd])"
proof -
  obtain segs active where h: "wal_holds cd segs active w" using assms(1) by (auto simp: wal_inv_def)
  let ?e = "entry_new E (wal_seq w) cmd" and ?k = "segments_to_keep w"
  let ?w = "snd (append_command cd E cmd w)"
  consider (kept) "wal_holds cd segs (active @ [?e]) ?w"
    | (rotated) "wal_holds cd (take ?k ((active @ [?e]) # segs)) [] ?w"
    using append_command_holds [OF h assms(2), of E] by blast
  then show ?thesis
  proof cases
    case kept
    then show ?thesis using wal_log_holds [OF kept] wal_log_holds [OF h] by (auto simp: wal_inv_def)
  next
    case rotated
    have "0 < ?k" by (simp add: segments_to_keep_def)
    then have "wal_log cd ?w = (concat (rev (take (?k - 1) segs)) @ active) @ [?e]"
      using wal_log_holds [OF rotated] by (simp add: take_Cons')
    moreover have "concat (rev segs) = concat (rev (drop (?k - 1) segs)) @ concat (rev (take (?k - 1) segs))"
      by (metis append_take_drop_id concat_append rev_append)
    ultimately show ?thesis
      using wal_log_holds [OF h] rotated by (auto simp: wal_inv_def suffix_def)
  qed
qed

interpretation wal_recent: recent_log "\<lambda>E c w. snd (append_command cd E c w)"
    "\<lambda>w. map we_command (wal_log cd w)" "wal_inv cd" "codec_ok cd" for cd
proof unfold_locales
  fix w c E
  assume "wal_inv cd w" "codec_ok cd c"
  note a = wal_contents_append [OF this, of E]
  show "wal_inv cd (snd (append_command cd E c w))" using a by simp
  show "\<exists>old. suffix old (map we_command (wal_log cd w)) \<and>
      map we_command (wal_log cd (snd (append_command cd E c w))) = old @ [c]"
    using a by (auto simp: entry_new_def suffix_def)
qed

subsection \<open>Opening\<close>

lemma wal_open_empty:
  "wal_open path policy max_size backup_count [] =
     Inr \<lparr>wal_files = [(path, [])], wal_path = path, wal_buf = [], wal_append = True, wal_pos = 0,
          wal_seq = 0, wal_sync = policy, wal_size = 0, wal_max = max_size,
          wal_backup_count = backup_count\<rparr>"
proof -
  have "scan_files [(path, [])] (map (\<lambda>n. segment_path n path) ns) = Inr []" for ns
    by (induction ns) simp_all
  then show ?thesis
    by (simp add: wal_open_def read_last_sequence_def file_content_def Let_def
        scan_sequences.simps [of "[]"] read_frame_def del: upt_Suc)
qed

lemma wal_inv_open:
  assumes "wal_open path policy max_size backup_count [] = Inr w"
  shows "wal_inv cd w \<and> wal_log cd w = []"
proof -
  have "wal_holds cd [] [] w"
    using assms by (auto simp: wal_open_empty wal_holds_def wal_stream_def at_end_def file_content_def)
  then show ?thesis using wal_log_holds by (fastforce simp: wal_inv_def)
qed

end
