(* ===== verification/Replication.thy ===== *)
theory Replication
  imports Wal
begin

text \<open>
  Replication (replication/master.rs, replica.rs, protocol.rs). The master numbers its writes
  and hands each to the channel of every registered replica; a channel is the list of what was
  sent on it. The replica reads length-prefixed frames and applies the writes with the same
  function the WAL replay uses. The bound of the channel (a full one makes the master
  wait) is not modelled; the \<open>bincode\<close> encoding is the parameter \<open>rc\<close>.
\<close>

datatype ReplicationCommand =
    Connect bytes
  | Sync "64 word"
  | Write Command
  | Heartbeat

datatype ReplicationResponse =
    Connected bytes "64 word"
  | SyncComplete "64 word"
  | Ack "64 word"
  | Pong
  | ResponseError bytes

record repl_codec =
  rc_encode :: "ReplicationCommand \<Rightarrow> bytes"
  rc_decode :: "bytes \<Rightarrow> ReplicationCommand result"

subsection \<open>The master\<close>

record MasterReplicator =
  replicas :: "ReplicationCommand list table"
  replication_offset :: "64 word"
  master_id :: bytes

definition master_new :: "bytes \<Rightarrow> MasterReplicator" where
  "master_new mid = \<lparr>replicas = [], replication_offset = 0, master_id = mid\<rparr>"

text \<open>The first frame of a connection: only \<open>Connect\<close> is accepted, and registers a channel.\<close>

definition handle_replica_connection ::
    "ReplicationCommand \<Rightarrow> MasterReplicator \<Rightarrow> ReplicationResponse result \<times> MasterReplicator" where
  "handle_replica_connection cmd m =
     (case cmd of
        Connect replica_id \<Rightarrow>
          (Inr (Connected (master_id m) (replication_offset m)),
           m\<lparr>replicas := AList.update replica_id [] (replicas m)\<rparr>)
      | _ \<Rightarrow> (Inl ''Expected Connect command'', m))"

definition replicate_write :: "Command \<Rightarrow> MasterReplicator \<Rightarrow> MasterReplicator" where
  "replicate_write command m =
     m\<lparr>replication_offset := replication_offset m + 1,
       replicas := map (\<lambda>(rid, sent). (rid, sent @ [Write command])) (replicas m)\<rparr>"

definition replica_count :: "MasterReplicator \<Rightarrow> nat" where
  "replica_count m = length (replicas m)"

definition master_offset :: "MasterReplicator \<Rightarrow> 64 word" where
  "master_offset m = replication_offset m"

text \<open>The task that drains a channel: a length of four bytes, then the command.\<close>

definition repl_frame :: "repl_codec \<Rightarrow> ReplicationCommand \<Rightarrow> bytes" where
  "repl_frame rc cmd = (let d = rc_encode rc cmd in be_bytes 4 (length d mod 2 ^ 32) @ d)"

subsection \<open>The replica\<close>

record ReplicaClient =
  replica_id :: bytes
  rp_storage :: storage
  rp_offset :: "64 word"

definition replica_new :: "bytes \<Rightarrow> storage \<Rightarrow> ReplicaClient" where
  "replica_new rid s = \<lparr>replica_id = rid, rp_storage = s, rp_offset = 0\<rparr>"

definition replica_handshake :: "ReplicationResponse \<Rightarrow> ReplicaClient \<Rightarrow> bytes option \<times> ReplicaClient" where
  "replica_handshake response r =
     (case response of
        Connected mid off \<Rightarrow> (None, r\<lparr>rp_offset := off\<rparr>)
      | ResponseError msg \<Rightarrow> (Some (''Master error: '' @ msg), r)
      | _ \<Rightarrow> (Some ''Unexpected response from master'', r))"

text \<open>\<open>False\<close> when applying the write panics, which ends the replica's task.\<close>

definition replica_apply :: "hasher \<Rightarrow> env \<Rightarrow> ReplicationCommand \<Rightarrow> ReplicaClient \<Rightarrow> bool \<times> ReplicaClient" where
  "replica_apply h E cmd r =
     (case cmd of
        Write command \<Rightarrow>
          (case apply_write_command h E command (rp_storage r) of
             (None, s) \<Rightarrow> (False, r\<lparr>rp_storage := s\<rparr>)
           | (Some _, s) \<Rightarrow> (True, r\<lparr>rp_storage := s, rp_offset := rp_offset r + 1\<rparr>))
      | _ \<Rightarrow> (True, r))"

text \<open>
  The receiving loop of \<open>connect_and_sync\<close>, on the bytes that have arrived: it ends with the
  client and whether it waits for more, has failed to decode, or has panicked. \<open>E i\<close> is the
  environment of the \<open>i\<close>-th command.
\<close>

datatype receive_end = Waiting | Decode_error bytes | Apply_panic

function replica_receive ::
    "repl_codec \<Rightarrow> hasher \<Rightarrow> (nat \<Rightarrow> env) \<Rightarrow> nat \<Rightarrow> bytes \<Rightarrow> ReplicaClient \<Rightarrow> receive_end \<times> ReplicaClient" where
  "replica_receive rc h E i data r =
     (if length data < 4 then (Waiting, r)
      else
        (let len = from_be (take 4 data)
         in if length data < 4 + len then (Waiting, r)
            else (case rc_decode rc (take len (drop 4 data)) of
                Inl e \<Rightarrow> (Decode_error e, r)
              | Inr cmd \<Rightarrow>
                  (case replica_apply h (E i) cmd r of
                     (False, r') \<Rightarrow> (Apply_panic, r')
                   | (True, r') \<Rightarrow> replica_receive rc h E (Suc i) (drop (4 + len) data) r'))))"
  by pat_completeness auto
termination
  by (relation "measure (\<lambda>(rc, h, E, i, data, r). length data)") auto

declare replica_receive.simps [simp del]

subsection \<open>Facts\<close>

definition repl_codec_ok :: "repl_codec \<Rightarrow> ReplicationCommand \<Rightarrow> bool" where
  "repl_codec_ok rc c \<longleftrightarrow> rc_decode rc (rc_encode rc c) = Inr c \<and> length (rc_encode rc c) < 2 ^ 32"

lemma replica_receive_frame:
  assumes "repl_codec_ok rc c" "replica_apply h (E i) c r = (True, r')"
  shows "replica_receive rc h E i (repl_frame rc c @ rest) r = replica_receive rc h E (Suc i) rest r'"
proof -
  have "from_be (be_bytes 4 (length (rc_encode rc c))) = length (rc_encode rc c)"
    using assms(1) by (intro from_be_bytes) (simp add: repl_codec_ok_def)
  then show ?thesis using assms
    by (subst replica_receive.simps) (simp add: repl_frame_def repl_codec_ok_def Let_def)
qed

text \<open>The sequence of the replica's states as it applies a list of writes that do not panic.\<close>

fun applies :: "hasher \<Rightarrow> (nat \<Rightarrow> env) \<Rightarrow> nat \<Rightarrow> Command list \<Rightarrow> storage \<Rightarrow> storage option" where
  "applies h E i [] s = Some s"
| "applies h E i (c # cs) s =
     (case apply_write_command h (E i) c s of
        (None, _) \<Rightarrow> None
      | (Some _, s') \<Rightarrow> applies h E (Suc i) cs s')"

lemma replica_receive_writes:
  assumes "list_all (\<lambda>c. repl_codec_ok rc (Write c)) cs" "applies h E i cs (rp_storage r) = Some s'"
  shows "replica_receive rc h E i (concat (map (\<lambda>c. repl_frame rc (Write c)) cs)) r =
     (Waiting, r\<lparr>rp_storage := s', rp_offset := rp_offset r + word_of_nat (length cs)\<rparr>)"
  using assms
proof (induction cs arbitrary: i r)
  case Nil
  then show ?case by (subst replica_receive.simps) simp
next
  case (Cons c cs)
  obtain s1 where s1: "apply_write_command h (E i) c (rp_storage r) = (Some (), s1)"
      "applies h E (Suc i) cs s1 = Some s'"
    using Cons.prems(2) by (auto split: prod.splits option.splits)
  let ?r = "r\<lparr>rp_storage := s1, rp_offset := rp_offset r + 1\<rparr>"
  have "replica_apply h (E i) (Write c) r = (True, ?r)" using s1 by (simp add: replica_apply_def)
  then have "replica_receive rc h E i (repl_frame rc (Write c) @ rest) r = replica_receive rc h E (Suc i) rest ?r" for rest
    using Cons.prems(1) by (intro replica_receive_frame) simp_all
  moreover have "replica_receive rc h E (Suc i) (concat (map (\<lambda>c. repl_frame rc (Write c)) cs)) ?r =
      (Waiting, ?r\<lparr>rp_storage := s', rp_offset := rp_offset ?r + word_of_nat (length cs)\<rparr>)"
    using Cons s1(2) by simp
  ultimately show ?case by (simp add: algebra_simps)
qed

lemma map_of_replicate_write:
  "map_of (replicas (replicate_write c m)) rid = map_option (\<lambda>sent. sent @ [Write c]) (map_of (replicas m) rid)"
  by (simp add: replicate_write_def map_of_map split_beta comp_def)

lemma replicate_writes:
  "map_of (replicas (fold replicate_write cs m)) rid =
     map_option (\<lambda>sent. sent @ map Write cs) (map_of (replicas m) rid)"
  by (induction cs arbitrary: m) (simp_all add: map_of_replicate_write option.map_comp comp_def option.map_ident)

lemma replicate_writes_offset:
  "replication_offset (fold replicate_write cs m) = replication_offset m + word_of_nat (length cs)"
  by (induction cs arbitrary: m) (simp_all add: replicate_write_def)

end
