(* ===== verification/Server.thy ===== *)
theory Server
  imports Dispatch Transactions Pub_Sub Security Cluster_Ring Replication
begin

text \<open>
  The server (server.rs): the state the connections share, the state of a connection, the
  gates every command passes, the dispatch, and the loop that reads commands from a socket.
  \<open>config\<close> holds what does not change while a command runs: the hash, the ring and the node's
  own id, and the third-party parameters (the Lua interpreter, SHA-1, the Argon2 check, the
  WAL codec). A command runs to its end before another starts; what the source interleaves at
  its \<open>await\<close> points is a choice of the order of commands. A result of \<open>None\<close> is a panic, which
  ends the connection's task and leaves the shared state as it is at that point.
\<close>

record config =
  cfg_hash :: hasher
  cfg_ring :: "ConsistentHashRing option"
  cfg_node :: "bytes option"
  cfg_lua :: mlua
  cfg_sha1 :: "bytes \<Rightarrow> bytes"
  cfg_verify :: "bytes \<Rightarrow> bytes \<Rightarrow> bool"
  cfg_codec :: wal_codec

text \<open>
  \<open>sv_mail\<close> holds the messages sent to subscribers and not yet received, \<open>sv_next_tx\<close> the next
  unused channel, \<open>sv_closed\<close> the channels whose receiver is gone.
\<close>

record server =
  sv_storage :: storage
  sv_wal :: "WriteAheadLog option"
  sv_replicator :: "MasterReplicator option"
  sv_auth :: "AuthManager option"
  sv_pubsub :: registry
  sv_versions :: versions
  sv_lua :: LuaEngine
  sv_next_tx :: nat
  sv_closed :: "nat list"
  sv_mail :: "(nat \<times> PubSubMessage) list"

record ConnState =
  authed_user :: "bytes option"
  conn_sub :: SubscriberState
  conn_tx :: TxState

definition conn_new :: ConnState where
  "conn_new = \<lparr>authed_user = None, conn_sub = subscriber_new, conn_tx = tx_new\<rparr>"

definition server_new :: server where
  "server_new = \<lparr>sv_storage = storage_new, sv_wal = None, sv_replicator = None, sv_auth = None,
     sv_pubsub = [], sv_versions = versions_new SHARD_COUNT, sv_lua = lua_new, sv_next_tx = 0,
     sv_closed = [], sv_mail = []\<rparr>"

definition is_closed :: "server \<Rightarrow> nat \<Rightarrow> bool" where
  "is_closed sv tx \<longleftrightarrow> tx \<in> set (sv_closed sv)"

subsection \<open>Names and keys of commands\<close>

fun command_name :: "Command \<Rightarrow> bytes" where
  "command_name (C_String c) =
     (case c of Get _ \<Rightarrow> ''GET'' | Set _ _ _ \<Rightarrow> ''SET'' | Delete _ \<Rightarrow> ''DEL'' | Incr _ \<Rightarrow> ''INCR''
        | Decr _ \<Rightarrow> ''DECR'' | Append _ _ \<Rightarrow> ''APPEND'' | Strlen _ \<Rightarrow> ''STRLEN'' | SetNx _ _ \<Rightarrow> ''SETNX''
        | SetEx _ _ _ \<Rightarrow> ''SETEX'' | GetSet _ _ \<Rightarrow> ''GETSET'' | MGet _ \<Rightarrow> ''MGET'' | MSet _ \<Rightarrow> ''MSET''
        | GetRange _ _ _ \<Rightarrow> ''GETRANGE'' | IncrBy _ _ \<Rightarrow> ''INCRBY'' | DecrBy _ _ \<Rightarrow> ''DECRBY''
        | IncrByFloat _ _ \<Rightarrow> ''INCRBYFLOAT'')"
| "command_name (C_Hash c) =
     (case c of HGet _ _ \<Rightarrow> ''HGET'' | HSet _ _ _ \<Rightarrow> ''HSET'' | HDel _ _ \<Rightarrow> ''HDEL'' | HGetAll _ \<Rightarrow> ''HGETALL''
        | HKeys _ \<Rightarrow> ''HKEYS'' | HVals _ \<Rightarrow> ''HVALS'' | HLen _ \<Rightarrow> ''HLEN'' | HExists _ _ \<Rightarrow> ''HEXISTS''
        | HMGet _ _ \<Rightarrow> ''HMGET'' | HMSet _ _ \<Rightarrow> ''HMSET'' | HSetNx _ _ _ \<Rightarrow> ''HSETNX''
        | HIncrBy _ _ _ \<Rightarrow> ''HINCRBY'')"
| "command_name (C_List c) =
     (case c of LPush _ _ \<Rightarrow> ''LPUSH'' | RPush _ _ \<Rightarrow> ''RPUSH'' | LPop _ \<Rightarrow> ''LPOP'' | RPop _ \<Rightarrow> ''RPOP''
        | LRange _ _ _ \<Rightarrow> ''LRANGE'' | LLen _ \<Rightarrow> ''LLEN'' | LIndex _ _ \<Rightarrow> ''LINDEX'' | LSet _ _ _ \<Rightarrow> ''LSET''
        | LRem _ _ _ \<Rightarrow> ''LREM'' | LTrim _ _ _ \<Rightarrow> ''LTRIM'' | RPopLPush _ _ \<Rightarrow> ''RPOPLPUSH'')"
| "command_name (C_Set c) =
     (case c of SAdd _ _ \<Rightarrow> ''SADD'' | SRem _ _ \<Rightarrow> ''SREM'' | SMembers _ \<Rightarrow> ''SMEMBERS''
        | SIsMember _ _ \<Rightarrow> ''SISMEMBER'' | SCard _ \<Rightarrow> ''SCARD'' | SInter _ \<Rightarrow> ''SINTER'' | SUnion _ \<Rightarrow> ''SUNION''
        | SDiff _ \<Rightarrow> ''SDIFF'' | SPop _ _ \<Rightarrow> ''SPOP'' | SRandMember _ _ \<Rightarrow> ''SRANDMEMBER'' | SMove _ _ _ \<Rightarrow> ''SMOVE'')"
| "command_name (C_ZSet c) =
     (case c of ZAdd _ _ \<Rightarrow> ''ZADD'' | ZRem _ _ \<Rightarrow> ''ZREM'' | ZRange _ _ _ _ \<Rightarrow> ''ZRANGE'' | ZRank _ _ \<Rightarrow> ''ZRANK''
        | ZScore _ _ \<Rightarrow> ''ZSCORE'' | ZCard _ \<Rightarrow> ''ZCARD'' | ZCount _ _ _ \<Rightarrow> ''ZCOUNT'' | ZIncrBy _ _ _ \<Rightarrow> ''ZINCRBY''
        | ZRangeByScore _ _ _ _ \<Rightarrow> ''ZRANGEBYSCORE'' | ZRevRange _ _ _ _ \<Rightarrow> ''ZREVRANGE''
        | ZPopMin _ _ \<Rightarrow> ''ZPOPMIN'' | ZPopMax _ _ \<Rightarrow> ''ZPOPMAX'')"
| "command_name (C_Key c) =
     (case c of Ping \<Rightarrow> ''PING'' | Echo _ \<Rightarrow> ''ECHO'' | Exists _ \<Rightarrow> ''EXISTS'' | Keys _ \<Rightarrow> ''KEYS''
        | FlushAll \<Rightarrow> ''FLUSHALL'' | DbSize \<Rightarrow> ''DBSIZE'' | Expire _ _ \<Rightarrow> ''EXPIRE'' | PExpire _ _ \<Rightarrow> ''PEXPIRE''
        | ExpireAt _ _ \<Rightarrow> ''EXPIREAT'' | Ttl _ \<Rightarrow> ''TTL'' | PTtl _ \<Rightarrow> ''PTTL'' | Persist _ \<Rightarrow> ''PERSIST''
        | Type _ \<Rightarrow> ''TYPE'' | Rename _ _ \<Rightarrow> ''RENAME'' | RandomKey \<Rightarrow> ''RANDOMKEY'')"
| "command_name (C_Conn c) =
     (case c of Auth _ _ \<Rightarrow> ''AUTH'' | Publish _ _ \<Rightarrow> ''PUBLISH'' | Subscribe _ \<Rightarrow> ''SUBSCRIBE''
        | Unsubscribe _ \<Rightarrow> ''UNSUBSCRIBE'' | Multi \<Rightarrow> ''MULTI'' | Exec \<Rightarrow> ''EXEC'' | Discard \<Rightarrow> ''DISCARD''
        | Watch _ \<Rightarrow> ''WATCH'' | Unwatch \<Rightarrow> ''UNWATCH'')"
| "command_name (C_Stream c) =
     (case c of XAdd _ _ _ \<Rightarrow> ''XADD'' | XLen _ \<Rightarrow> ''XLEN'' | XRange _ _ _ _ \<Rightarrow> ''XRANGE'' | XRead _ _ _ \<Rightarrow> ''XREAD'')"
| "command_name (C_Script c) = (case c of LuaEval _ _ _ \<Rightarrow> ''EVAL'' | LuaEvalSha _ _ _ \<Rightarrow> ''EVALSHA'')"

fun command_key :: "Command \<Rightarrow> bytes option" where
  "command_key (C_String c) =
     (case c of Get k \<Rightarrow> Some k | Set k _ _ \<Rightarrow> Some k | Delete k \<Rightarrow> Some k | Incr k \<Rightarrow> Some k
        | Decr k \<Rightarrow> Some k | Append k _ \<Rightarrow> Some k | Strlen k \<Rightarrow> Some k | SetNx k _ \<Rightarrow> Some k
        | SetEx k _ _ \<Rightarrow> Some k | GetSet k _ \<Rightarrow> Some k | MGet _ \<Rightarrow> None | MSet _ \<Rightarrow> None
        | GetRange k _ _ \<Rightarrow> Some k | IncrBy k _ \<Rightarrow> Some k | DecrBy k _ \<Rightarrow> Some k | IncrByFloat k _ \<Rightarrow> Some k)"
| "command_key (C_Hash c) =
     (case c of HGet k _ \<Rightarrow> Some k | HSet k _ _ \<Rightarrow> Some k | HDel k _ \<Rightarrow> Some k | HGetAll k \<Rightarrow> Some k
        | HKeys k \<Rightarrow> Some k | HVals k \<Rightarrow> Some k | HLen k \<Rightarrow> Some k | HExists k _ \<Rightarrow> Some k | HMGet k _ \<Rightarrow> Some k
        | HMSet k _ \<Rightarrow> Some k | HSetNx k _ _ \<Rightarrow> Some k | HIncrBy k _ _ \<Rightarrow> Some k)"
| "command_key (C_List c) =
     (case c of LPush k _ \<Rightarrow> Some k | RPush k _ \<Rightarrow> Some k | LPop k \<Rightarrow> Some k | RPop k \<Rightarrow> Some k
        | LRange k _ _ \<Rightarrow> Some k | LLen k \<Rightarrow> Some k | LIndex k _ \<Rightarrow> Some k | LSet k _ _ \<Rightarrow> Some k
        | LRem k _ _ \<Rightarrow> Some k | LTrim k _ _ \<Rightarrow> Some k | RPopLPush k _ \<Rightarrow> Some k)"
| "command_key (C_Set c) =
     (case c of SAdd k _ \<Rightarrow> Some k | SRem k _ \<Rightarrow> Some k | SMembers k \<Rightarrow> Some k | SIsMember k _ \<Rightarrow> Some k
        | SCard k \<Rightarrow> Some k | SInter _ \<Rightarrow> None | SUnion _ \<Rightarrow> None | SDiff _ \<Rightarrow> None | SPop k _ \<Rightarrow> Some k
        | SRandMember k _ \<Rightarrow> Some k | SMove k _ _ \<Rightarrow> Some k)"
| "command_key (C_ZSet c) =
     (case c of ZAdd k _ \<Rightarrow> Some k | ZRem k _ \<Rightarrow> Some k | ZRange k _ _ _ \<Rightarrow> Some k | ZRank k _ \<Rightarrow> Some k
        | ZScore k _ \<Rightarrow> Some k | ZCard k \<Rightarrow> Some k | ZCount k _ _ \<Rightarrow> Some k | ZIncrBy k _ _ \<Rightarrow> Some k
        | ZRangeByScore k _ _ _ \<Rightarrow> Some k | ZRevRange k _ _ _ \<Rightarrow> Some k | ZPopMin k _ \<Rightarrow> Some k
        | ZPopMax k _ \<Rightarrow> Some k)"
| "command_key (C_Key c) =
     (case c of Expire k _ \<Rightarrow> Some k | PExpire k _ \<Rightarrow> Some k | ExpireAt k _ \<Rightarrow> Some k | Ttl k \<Rightarrow> Some k
        | PTtl k \<Rightarrow> Some k | Persist k \<Rightarrow> Some k | Type k \<Rightarrow> Some k | Rename k _ \<Rightarrow> Some k | _ \<Rightarrow> None)"
| "command_key (C_Stream c) =
     (case c of XAdd k _ _ \<Rightarrow> Some k | XLen k \<Rightarrow> Some k | XRange k _ _ _ \<Rightarrow> Some k | XRead _ _ _ \<Rightarrow> None)"
| "command_key _ = None"

subsection \<open>Logging a write\<close>

text \<open>The shards whose version counters a command moves, in order.\<close>

definition bumped_shards :: "hasher \<Rightarrow> Command \<Rightarrow> nat list" where
  "bumped_shards h cmd =
     (let idx = (\<lambda>k. shard_index_for h k SHARD_COUNT)
      in case cmd of
           C_String (MSet pairs) \<Rightarrow> map (\<lambda>(k, _). idx k) pairs
         | C_List (RPopLPush source destination) \<Rightarrow> [idx source, idx destination]
         | C_Set (SMove source destination _) \<Rightarrow> [idx source, idx destination]
         | C_Key (Rename key new_key) \<Rightarrow> [idx key, idx new_key]
         | C_Key FlushAll \<Rightarrow> [0..<SHARD_COUNT]
         | _ \<Rightarrow> (case command_key cmd of Some k \<Rightarrow> [idx k] | None \<Rightarrow> []))"

definition bump_versions_for :: "hasher \<Rightarrow> Command \<Rightarrow> versions \<Rightarrow> versions" where
  "bump_versions_for h cmd vs = bumps (bumped_shards h cmd) vs"

definition log_write :: "config \<Rightarrow> env \<Rightarrow> Command \<Rightarrow> server \<Rightarrow> server" where
  "log_write cfg E cmd sv =
     sv\<lparr>sv_wal := map_option (\<lambda>w. snd (append_command (cfg_codec cfg) E cmd w)) (sv_wal sv),
        sv_replicator := map_option (replicate_write cmd) (sv_replicator sv),
        sv_versions := bump_versions_for (cfg_hash cfg) cmd (sv_versions sv)\<rparr>"

definition persist_script_writes :: "config \<Rightarrow> env \<Rightarrow> Command list \<Rightarrow> server \<Rightarrow> server" where
  "persist_script_writes cfg E script_writes sv = fold (log_write cfg E) script_writes sv"

subsection \<open>The gates\<close>

definition cluster_gate :: "config \<Rightarrow> Command \<Rightarrow> Response option" where
  "cluster_gate cfg cmd =
     (case (cfg_ring cfg, cfg_node cfg, command_key cmd) of
        (Some r, Some local_id, Some key) \<Rightarrow>
          (case node_for_key (cfg_hash cfg) key r of
             Some target \<Rightarrow>
               if node_id target \<noteq> local_id
               then Some (R_Error (''MOVED '' @ nat_to_string (slot_for_key (cfg_hash cfg) key) @ '' '' @ node_addr target))
               else None
           | None \<Rightarrow> None)
      | _ \<Rightarrow> None)"

fun is_auth_or_ping :: "Command \<Rightarrow> bool" where
  "is_auth_or_ping (C_Conn (Auth _ _)) = True"
| "is_auth_or_ping (C_Key Ping) = True"
| "is_auth_or_ping _ = False"

definition auth_gate :: "env \<Rightarrow> AuthManager option \<Rightarrow> bytes option \<Rightarrow> Command \<Rightarrow> Response option" where
  "auth_gate E auth authed cmd =
     (case auth of
        None \<Rightarrow> None
      | Some am \<Rightarrow>
          if require_auth am \<and> authed = None \<and> \<not> is_auth_or_ping cmd
          then Some (R_Error ''NOAUTH Authentication required.'')
          else (case authed of
              None \<Rightarrow> None
            | Some user \<Rightarrow>
                if \<not> is_auth_or_ping cmd \<and>
                   \<not> check_permission (str_upper E) user (command_name cmd)
                       (map_option utf8_lossy (command_key cmd)) am
                then Some (R_Error (''NOPERM this user has no permissions to run the '' @
                             quoted (to_ascii_lowercase (command_name cmd)) @ '' command''))
                else None))"

definition build_script_acl :: "env \<Rightarrow> AuthManager option \<Rightarrow> bytes option \<Rightarrow> acl_check" where
  "build_script_acl E auth authed =
     (case (auth, authed) of
        (Some am, Some user) \<Rightarrow>
          if require_auth am
          then (\<lambda>cmd key. check_permission (str_upper E) user cmd (map_option utf8_lossy key) am)
          else allow_all_acl
      | _ \<Rightarrow> allow_all_acl)"

subsection \<open>Pub/Sub commands\<close>

definition channel_frame :: "bytes \<Rightarrow> bytes \<Rightarrow> nat \<Rightarrow> bytes" where
  "channel_frame kind ch n =
     ''*3'' @ CRLF @ bulk_frame kind @ bulk_frame ch @ '':'' @ nat_to_string n @ CRLF"

fun subscribe_loop :: "bytes list \<Rightarrow> server \<Rightarrow> SubscriberState \<Rightarrow> bytes \<times> server \<times> SubscriberState" where
  "subscribe_loop [] sv sub = ([], sv, sub)"
| "subscribe_loop (ch # chs) sv sub =
     (let fresh = (sub_tx sub = None); (tx, sub) = ensure_sender (sv_next_tx sv) sub;
          sv = sv\<lparr>sv_pubsub := subscribe ch tx (sv_pubsub sv),
                  sv_next_tx := (if fresh then Suc (sv_next_tx sv) else sv_next_tx sv)\<rparr>;
          sub = (if ch \<notin> set (sub_channels sub) then sub\<lparr>sub_channels := sub_channels sub @ [ch]\<rparr> else sub);
          frame = channel_frame ''subscribe'' ch (length (sub_channels sub));
          (out, sv, sub) = subscribe_loop chs sv sub
      in (frame @ out, sv, sub))"

fun unsubscribe_loop :: "bytes list \<Rightarrow> server \<Rightarrow> SubscriberState \<Rightarrow> bytes \<times> server \<times> SubscriberState" where
  "unsubscribe_loop [] sv sub = ([], sv, sub)"
| "unsubscribe_loop (ch # chs) sv sub =
     (let sub = sub\<lparr>sub_channels := filter (\<lambda>c. c \<noteq> ch) (sub_channels sub)\<rparr>;
          sv = sv\<lparr>sv_pubsub := prune_closed (is_closed sv) ch (sv_pubsub sv)\<rparr>;
          frame = channel_frame ''unsubscribe'' ch (length (sub_channels sub));
          (out, sv, sub) = unsubscribe_loop chs sv sub
      in (frame @ out, sv, sub))"

definition format_pubsub_message :: "PubSubMessage \<Rightarrow> bytes" where
  "format_pubsub_message msg =
     ''*3'' @ CRLF @ bulk_frame ''message'' @ bulk_frame (pm_channel msg) @ bulk_frame (pm_payload msg)"

subsection \<open>Executing a command\<close>

type_synonym outcome = "Response option \<times> server \<times> ConnState"

type_synonym executor = "config \<Rightarrow> env \<Rightarrow> Command \<Rightarrow> server \<Rightarrow> ConnState \<Rightarrow> outcome"

definition exec_auth :: "config \<Rightarrow> env \<Rightarrow> bytes option \<Rightarrow> bytes \<Rightarrow> server \<Rightarrow> ConnState \<Rightarrow> outcome" where
  "exec_auth cfg E user_arg password sv conn =
     (let user = (case user_arg of Some u \<Rightarrow> utf8_lossy u | None \<Rightarrow> ''default''); pass = utf8_lossy password
      in case sv_auth sv of
           Some am \<Rightarrow>
             (case authenticate (cfg_verify cfg) E user pass am of
                (session, am') \<Rightarrow>
                  if session \<noteq> None
                  then (Some R_Ok, sv\<lparr>sv_auth := Some am'\<rparr>, conn\<lparr>authed_user := Some user\<rparr>)
                  else (Some (R_Error ''WRONGPASS invalid username-password pair or user is disabled.''),
                        sv\<lparr>sv_auth := Some am'\<rparr>, conn))
         | None \<Rightarrow>
             (Some (R_Error ''ERR Client sent AUTH, but no password is set. Did you mean AUTH <username> <password>?''),
              sv, conn))"

text \<open>The queue of EXEC; \<open>E i\<close> is the environment of the \<open>i\<close>-th queued command.\<close>

fun exec_queue ::
    "executor \<Rightarrow> config \<Rightarrow> (nat \<Rightarrow> env) \<Rightarrow> nat \<Rightarrow> Command list \<Rightarrow> server \<Rightarrow> ConnState \<Rightarrow>
       bytes option \<times> server \<times> ConnState" where
  "exec_queue run cfg E i [] sv conn = (Some [], sv, conn)"
| "exec_queue run cfg E i (c # cs) sv conn =
     (case run cfg (E i) c sv conn of
        (None, sv1, conn1) \<Rightarrow> (None, sv1, conn1)
      | (Some r, sv1, conn1) \<Rightarrow>
          (case exec_queue run cfg E (Suc i) cs sv1 conn1 of
             (out, sv2, conn2) \<Rightarrow> (map_option (\<lambda>out. serialize_response r @ out) out, sv2, conn2)))"

definition exec_exec :: "executor \<Rightarrow> config \<Rightarrow> (nat \<Rightarrow> env) \<Rightarrow> server \<Rightarrow> ConnState \<Rightarrow> outcome" where
  "exec_exec run cfg E sv conn =
     (case take_queue (conn_tx conn) of
        (None, tx) \<Rightarrow> (Some (R_Error ''ERR EXEC without MULTI''), sv, conn\<lparr>conn_tx := tx\<rparr>)
      | (Some queue, tx) \<Rightarrow>
          if any_watched_changed (sv_versions sv) tx
          then (Some (R_Raw (''*-1'' @ CRLF)), sv, conn\<lparr>conn_tx := tx_unwatch tx\<rparr>)
          else (case exec_queue run cfg E 0 queue sv (conn\<lparr>conn_tx := tx_unwatch tx\<rparr>) of
                  (out, sv', conn') \<Rightarrow>
                    (map_option (\<lambda>out. R_Raw (''*'' @ nat_to_string (length queue) @ CRLF @ out)) out,
                     sv', conn')))"

fun exec_conn :: "executor \<Rightarrow> config \<Rightarrow> (nat \<Rightarrow> env) \<Rightarrow> ConnCommand \<Rightarrow> server \<Rightarrow> ConnState \<Rightarrow> outcome" where
  "exec_conn run cfg E (Publish ch payload) sv conn =
     (case publish (is_closed sv) ch payload (sv_pubsub sv) of
        (n, sent) \<Rightarrow> (Some (R_Count n), sv\<lparr>sv_mail := sv_mail sv @ sent\<rparr>, conn))"
| "exec_conn run cfg E (Subscribe channels) sv conn =
     (case subscribe_loop channels sv (conn_sub conn) of
        (out, sv', sub) \<Rightarrow> (Some (R_Raw out), sv', conn\<lparr>conn_sub := sub\<rparr>))"
| "exec_conn run cfg E (Unsubscribe channels) sv conn =
     (case unsubscribe_loop (if channels = [] then sub_channels (conn_sub conn) else channels) sv (conn_sub conn) of
        (out, sv', sub) \<Rightarrow> (Some (R_Raw out), sv', conn\<lparr>conn_sub := sub\<rparr>))"
| "exec_conn run cfg E Multi sv conn =
     (if in_multi (conn_tx conn)
      then (Some (R_Error ''ERR MULTI calls can not be nested''), sv, conn)
      else (Some R_Ok, sv, conn\<lparr>conn_tx := tx_start (conn_tx conn)\<rparr>))"
| "exec_conn run cfg E Discard sv conn =
     (if \<not> in_multi (conn_tx conn)
      then (Some (R_Error ''ERR DISCARD without MULTI''), sv, conn)
      else (Some R_Ok, sv, conn\<lparr>conn_tx := tx_discard (conn_tx conn)\<rparr>))"
| "exec_conn run cfg E (Watch keys) sv conn =
     (if in_multi (conn_tx conn)
      then (Some (R_Error ''ERR WATCH inside MULTI is not allowed''), sv, conn)
      else (Some R_Ok, sv,
            conn\<lparr>conn_tx := watch_keys (cfg_hash cfg) (sv_versions sv) keys (conn_tx conn)\<rparr>))"
| "exec_conn run cfg E Unwatch sv conn =
     (Some R_Ok, sv, conn\<lparr>conn_tx := tx_unwatch (conn_tx conn)\<rparr>)"
| "exec_conn run cfg E Exec sv conn = exec_exec run cfg E sv conn"
| "exec_conn run cfg E (Auth user password) sv conn = exec_auth cfg (E 0) user password sv conn"

fun exec_script :: "config \<Rightarrow> env \<Rightarrow> ScriptCommand \<Rightarrow> server \<Rightarrow> ConnState \<Rightarrow> outcome" where
  "exec_script cfg E (LuaEval script keys argv) sv conn =
     (case lua_engine_run (cfg_lua cfg) (cfg_sha1 cfg) (cfg_hash cfg) E script keys argv
             (build_script_acl E (sv_auth sv) (authed_user conn)) (sv_lua sv) (sv_storage sv) of
        ((resp, s, script_writes), le) \<Rightarrow>
          (Some resp, persist_script_writes cfg E script_writes (sv\<lparr>sv_storage := s, sv_lua := le\<rparr>), conn))"
| "exec_script cfg E (LuaEvalSha sha keys argv) sv conn =
     (case run_sha (cfg_lua cfg) (cfg_hash cfg) E sha keys argv
             (build_script_acl E (sv_auth sv) (authed_user conn)) (sv_lua sv) (sv_storage sv) of
        (resp, s, script_writes) \<Rightarrow>
          (Some resp, persist_script_writes cfg E script_writes (sv\<lparr>sv_storage := s\<rparr>), conn))"

definition dispatch :: "executor \<Rightarrow> config \<Rightarrow> (nat \<Rightarrow> env) \<Rightarrow> Command \<Rightarrow> server \<Rightarrow> ConnState \<Rightarrow> outcome" where
  "dispatch run cfg E cmd sv conn =
     (case exec_storage (cfg_hash cfg) (E 0) cmd (sv_storage sv) of
        Some (r, s) \<Rightarrow> (r, sv\<lparr>sv_storage := s\<rparr>, conn)
      | None \<Rightarrow>
          (case cmd of
             C_Conn c \<Rightarrow> exec_conn run cfg E c sv conn
           | C_Script c \<Rightarrow> exec_script cfg (E 0) c sv conn
           | _ \<Rightarrow> (None, sv, conn)))"

text \<open>
  \<open>execute_command\<close>: the gates in the order of the source, the logging of a write, the
  dispatch. \<open>run\<close> executes the commands of a transaction's queue.
\<close>

definition execute_with :: "executor \<Rightarrow> config \<Rightarrow> (nat \<Rightarrow> env) \<Rightarrow> Command \<Rightarrow> server \<Rightarrow> ConnState \<Rightarrow> outcome" where
  "execute_with run cfg E cmd sv conn =
     (if in_multi (conn_tx conn) \<and> \<not> is_tx_control cmd
      then (Some (R_Raw (''+QUEUED'' @ CRLF)), sv, conn\<lparr>conn_tx := enqueue cmd (conn_tx conn)\<rparr>)
      else (case cluster_gate cfg cmd of
          Some r \<Rightarrow> (Some r, sv, conn)
        | None \<Rightarrow> (case auth_gate (E 0) (sv_auth sv) (authed_user conn) cmd of
            Some r \<Rightarrow> (Some r, sv, conn)
          | None \<Rightarrow> dispatch run cfg E cmd
                     (if is_write_command cmd then log_write cfg (E 0) cmd sv else sv) conn)))"

text \<open>
  The source recurses from EXEC; the recursion is bounded here by a depth. Depth 1 is enough
  for the queue, which holds no transaction command (\<open>depth_enough\<close>).
\<close>

fun execute_at :: "nat \<Rightarrow> config \<Rightarrow> (nat \<Rightarrow> env) \<Rightarrow> Command \<Rightarrow> server \<Rightarrow> ConnState \<Rightarrow> outcome" where
  "execute_at 0 cfg E cmd sv conn =
     execute_with (\<lambda>cfg E cmd sv conn. (None, sv, conn)) cfg E cmd sv conn"
| "execute_at (Suc n) cfg E cmd sv conn =
     execute_with (\<lambda>cfg E. execute_at n cfg (\<lambda>_. E)) cfg E cmd sv conn"

definition execute_command :: "config \<Rightarrow> (nat \<Rightarrow> env) \<Rightarrow> Command \<Rightarrow> server \<Rightarrow> ConnState \<Rightarrow> outcome" where
  "execute_command = execute_at 1"

subsection \<open>The connection\<close>

text \<open>
  A connection: its buffer, its state, the receiver hoisted out of it, and what it has written
  to the socket. \<open>show_error\<close> prints a parse error, whose text may quote a value in Rust's debug
  format.
\<close>

record connection =
  cn_buffer :: bytes
  cn_state :: ConnState
  cn_rx :: "nat option"
  cn_out :: bytes

definition connection_new :: connection where
  "connection_new = \<lparr>cn_buffer = [], cn_state = conn_new, cn_rx = None, cn_out = []\<rparr>"

datatype conn_end = Conn_open | Conn_closed bytes | Conn_panic

definition answer ::
    "(proto_error \<Rightarrow> bytes) \<Rightarrow> config \<Rightarrow> (nat \<Rightarrow> env) \<Rightarrow> RespValue \<Rightarrow> server \<Rightarrow> ConnState \<Rightarrow> outcome" where
  "answer show_error cfg E v sv conn =
     (case parse_command (E 0) v of
        Inr cmd \<Rightarrow> execute_command cfg E cmd sv conn
      | Inl e \<Rightarrow> (Some (R_Error (''ERR '' @ show_error e)), sv, conn))"

definition hoist_receiver :: "ConnState \<Rightarrow> nat option \<Rightarrow> ConnState \<times> nat option" where
  "hoist_receiver conn rx =
     (if rx = None \<and> sub_rx (conn_sub conn) \<noteq> None
      then (conn\<lparr>conn_sub := (conn_sub conn)\<lparr>sub_rx := None\<rparr>\<rparr>, sub_rx (conn_sub conn))
      else (conn, rx))"

text \<open>
  The loop over the complete commands of the buffer; \<open>E i\<close> gives the environments of the
  \<open>i\<close>-th command of the connection. It returns the number of commands executed so far. A frame
  that does not parse, for whatever reason, ends the loop.
\<close>

function drain ::
    "(proto_error \<Rightarrow> bytes) \<Rightarrow> config \<Rightarrow> (nat \<Rightarrow> nat \<Rightarrow> env) \<Rightarrow> nat \<Rightarrow> server \<Rightarrow> connection \<Rightarrow>
       conn_end \<times> nat \<times> server \<times> connection" where
  "drain show_error cfg E i sv c =
     (if cn_buffer c = [] then (Conn_open, i, sv, c)
      else (case parse_resp (capacity_limit (E i 0)) (cn_buffer c) of
          parsed.Failed _ \<Rightarrow> (Conn_open, i, sv, c)
        | Panicked \<Rightarrow> (Conn_panic, i, sv, c)
        | Parsed v rest \<Rightarrow>
            (case answer show_error cfg (E i) v sv (cn_state c) of
               (None, sv', st) \<Rightarrow> (Conn_panic, i, sv', c\<lparr>cn_state := st\<rparr>)
             | (Some r, sv', st) \<Rightarrow>
                 (case hoist_receiver st (cn_rx c) of
                    (st', rx) \<Rightarrow>
                      drain show_error cfg E (Suc i) sv'
                        (c\<lparr>cn_buffer := rest, cn_state := st', cn_rx := rx,
                           cn_out := cn_out c @ serialize_response r\<rparr>)))))"
  by pat_completeness auto
termination
  by (relation "measure (\<lambda>(show_error, cfg, E, i, sv, c). length (cn_buffer c))")
    (auto dest!: parse_resp_suffix)

declare drain.simps [simp del]

text \<open>
  One read: the bytes, the loop, and the limit of one megabyte on what is left. The replies are
  written together after the loop, so that a panic loses those of the read.
\<close>

definition on_read ::
    "(proto_error \<Rightarrow> bytes) \<Rightarrow> config \<Rightarrow> (nat \<Rightarrow> nat \<Rightarrow> env) \<Rightarrow> nat \<Rightarrow> bytes \<Rightarrow> server \<Rightarrow> connection \<Rightarrow>
       conn_end \<times> nat \<times> server \<times> connection" where
  "on_read show_error cfg E i chunk sv c =
     (if chunk = [] then (Conn_closed [], i, sv, c)
      else (case drain show_error cfg E i sv (c\<lparr>cn_buffer := cn_buffer c @ chunk\<rparr>) of
          (Conn_open, j, sv', c') \<Rightarrow>
            if length (cn_buffer c') > 1024 * 1024
            then (Conn_closed ''Buffer overflow'', j, sv', c') else (Conn_open, j, sv', c')
        | (e, j, sv', c') \<Rightarrow> (e, j, sv', c'\<lparr>cn_out := cn_out c\<rparr>)))"

text \<open>One message of the mailbox: the oldest one for this connection's receiver.\<close>

fun take_mail :: "nat \<Rightarrow> (nat \<times> PubSubMessage) list \<Rightarrow> (PubSubMessage \<times> (nat \<times> PubSubMessage) list) option" where
  "take_mail rx [] = None"
| "take_mail rx ((tx, m) # ms) =
     (if tx = rx then Some (m, ms)
      else map_option (\<lambda>(m', ms'). (m', (tx, m) # ms')) (take_mail rx ms))"

definition on_message :: "server \<Rightarrow> connection \<Rightarrow> server \<times> connection" where
  "on_message sv c =
     (case cn_rx c of
        None \<Rightarrow> (sv, c)
      | Some rx \<Rightarrow>
          (case take_mail rx (sv_mail sv) of
             None \<Rightarrow> (sv, c)
           | Some (msg, rest) \<Rightarrow>
               (sv\<lparr>sv_mail := rest\<rparr>, c\<lparr>cn_out := cn_out c @ format_pubsub_message msg\<rparr>)))"

text \<open>The end of a connection drops its receivers.\<close>

definition close_connection :: "server \<Rightarrow> connection \<Rightarrow> server" where
  "close_connection sv c =
     sv\<lparr>sv_closed := (case cn_rx c of Some rx \<Rightarrow> [rx] | None \<Rightarrow> []) @
        (case sub_rx (conn_sub (cn_state c)) of Some rx \<Rightarrow> [rx] | None \<Rightarrow> []) @ sv_closed sv\<rparr>"

end
