(* ===== verification/Server_Facts.thy ===== *)
theory Server_Facts
  imports Server
begin

text \<open>
  What a step of the server does to the shared state. \<open>serve\<close> is the effect of a storage
  command; \<open>logged cfg sv ws sv'\<close> says that a step has served the writes \<open>ws\<close>, each in its
  environment, and has put exactly these, in this order, in the log, on the replication
  channels and in the version counters. Every step is of this form (\<open>execute_logged\<close>), and the
  durability, replication and WATCH properties follow from it.
\<close>

subsection \<open>Serving writes\<close>

definition serve :: "hasher \<Rightarrow> env \<Rightarrow> Command \<Rightarrow> storage \<Rightarrow> storage" where
  "serve h E cmd s = (case exec_storage h E cmd s of Some (_, s') \<Rightarrow> s' | None \<Rightarrow> s)"

definition serve_all :: "hasher \<Rightarrow> (env \<times> Command) list \<Rightarrow> storage \<Rightarrow> storage" where
  "serve_all h ws s = fold (\<lambda>(E, c). serve h E c) ws s"

definition apply_all :: "hasher \<Rightarrow> (env \<times> Command) list \<Rightarrow> storage \<Rightarrow> storage" where
  "apply_all h ws s = fold (\<lambda>(E, c) s. snd (apply_write_command h E c s)) ws s"

lemma serve_applies: "\<not> replay_differs cmd \<Longrightarrow> serve h E cmd s = snd (apply_write_command h E cmd s)"
proof (cases "exec_storage h E cmd s")
  case None
  then show ?thesis by (cases cmd) (simp_all add: serve_def)
next
  case (Some x)
  assume "\<not> replay_differs cmd"
  with exec_storage_effect [OF Some] Some show ?thesis by (simp add: serve_def split_beta)
qed

lemma serve_all_applies:
  "list_all (\<lambda>(E, c). \<not> replay_differs c) ws \<Longrightarrow> serve_all h ws s = apply_all h ws s"
  unfolding serve_all_def apply_all_def by (induction ws arbitrary: s) (auto simp: serve_applies split_beta)

lemma serve_reads: "\<not> is_write_command cmd \<Longrightarrow> serve h E cmd s = s"
  using exec_storage_reads [of h E cmd s] by (auto simp: serve_def split: option.splits)

lemma serve_framed:
  assumes "k \<notin> touched_keys cmd"
  shows "framed h k s (serve h E cmd s)"
proof (cases "replay_differs cmd")
  case False
  then show ?thesis using apply_write_command_framed [OF assms] by (simp add: serve_applies)
next
  case True
  then show ?thesis using assms
    by (cases cmd rule: replay_differs.cases) (auto simp: serve_def Let_def split_beta cs_delete_def)
qed

definition log_all :: "config \<Rightarrow> (env \<times> Command) list \<Rightarrow> server \<Rightarrow> server" where
  "log_all cfg ws sv = fold (\<lambda>(E, c). log_write cfg E c) ws sv"

lemma log_all_simps [simp]:
  "log_all cfg [] sv = sv"
  "log_all cfg ((E, c) # ws) sv = log_all cfg ws (log_write cfg E c sv)"
  "log_all cfg (xs @ ys) sv = log_all cfg ys (log_all cfg xs sv)"
  by (simp_all add: log_all_def)

lemma log_write_fields [simp]:
  "sv_storage (log_write cfg E c sv) = sv_storage sv" "sv_auth (log_write cfg E c sv) = sv_auth sv"
  "sv_pubsub (log_write cfg E c sv) = sv_pubsub sv" "sv_lua (log_write cfg E c sv) = sv_lua sv"
  "sv_mail (log_write cfg E c sv) = sv_mail sv" "sv_closed (log_write cfg E c sv) = sv_closed sv"
  "sv_next_tx (log_write cfg E c sv) = sv_next_tx sv"
  by (simp_all add: log_write_def)

text \<open>The three records of the writes depend on nothing else of the server.\<close>

definition logs_agree :: "server \<Rightarrow> server \<Rightarrow> bool" where
  "logs_agree sv sv' \<longleftrightarrow> sv_wal sv' = sv_wal sv \<and> sv_replicator sv' = sv_replicator sv \<and> sv_versions sv' = sv_versions sv"

lemma logs_agree_refl [simp]: "logs_agree sv sv"
  by (simp add: logs_agree_def)

lemma logs_agree_log_write: "logs_agree sv sv' \<Longrightarrow> logs_agree (log_write cfg E c sv) (log_write cfg E c sv')"
  by (simp add: logs_agree_def log_write_def)

lemma logs_agree_log_all: "logs_agree sv sv' \<Longrightarrow> logs_agree (log_all cfg ws sv) (log_all cfg ws sv')"
  by (induction ws arbitrary: sv sv') (auto simp: logs_agree_log_write)

definition logged :: "config \<Rightarrow> server \<Rightarrow> (env \<times> Command) list \<Rightarrow> server \<Rightarrow> bool" where
  "logged cfg sv ws sv' \<longleftrightarrow>
     list_all (\<lambda>(E, c). is_write_command c) ws \<and>
     sv_storage sv' = serve_all (cfg_hash cfg) ws (sv_storage sv) \<and> logs_agree (log_all cfg ws sv) sv'"

lemma logged_nothing: "logs_agree sv sv' \<Longrightarrow> sv_storage sv' = sv_storage sv \<Longrightarrow> logged cfg sv [] sv'"
  by (simp add: logged_def serve_all_def)

lemma logged_refl [simp]: "logged cfg sv [] sv"
  by (simp add: logged_nothing)

lemma logged_trans:
  assumes "logged cfg sv ws sv1" "logged cfg sv1 ws' sv2"
  shows "logged cfg sv (ws @ ws') sv2"
proof -
  have "logs_agree (log_all cfg ws' (log_all cfg ws sv)) (log_all cfg ws' sv1)"
    using assms(1) by (intro logs_agree_log_all) (simp add: logged_def)
  then show ?thesis using assms by (auto simp: logged_def serve_all_def logs_agree_def)
qed

lemma logged_write:
  assumes "is_write_command cmd"
  shows "logged cfg sv [(E, cmd)]
     ((log_write cfg E cmd sv)\<lparr>sv_storage := serve (cfg_hash cfg) E cmd (sv_storage sv)\<rparr>)"
  using assms by (simp add: logged_def serve_all_def logs_agree_def)

subsection \<open>Scripts\<close>

definition scriptable :: "Command \<Rightarrow> bool" where
  "scriptable c \<longleftrightarrow> is_write_command c \<and> \<not> replay_differs c"

lemma recorded_scriptable: "scriptable c \<Longrightarrow> list_all scriptable (snd (snd (recorded f c rs)))"
  by (auto simp: recorded_def split: prod.splits sum.splits)

lemma bridge_strings_scriptable:
  assumes "bridge_strings h E upper args s = Some b"
  shows "list_all scriptable (snd (snd b))"
  using assms unfolding bridge_strings_def split_beta
  by (auto simp: recorded_scriptable scriptable_def split: if_splits list.splits option.splits)

lemma bridge_collections_scriptable:
  assumes "bridge_collections h E upper args s = Some b"
  shows "list_all scriptable (snd (snd b))"
  using assms unfolding bridge_collections_def
  by (auto simp: recorded_scriptable scriptable_def split: if_splits list.splits option.splits)

lemma bridge_scriptable: "list_all scriptable (snd (snd (redis_call_bridge h E acl cmd args s)))"
  by (auto simp: redis_call_bridge_def Let_def bridge_strings_scriptable bridge_collections_scriptable
      split: option.splits)

lemma run_lua_scriptable: "list_all scriptable (snd (snd (run_lua h E acl t s)))"
proof (induction t arbitrary: s)
  case (Lua_Call args k)
  then show ?case using bridge_scriptable by (auto simp: split_beta split: option.split)
qed simp_all

lemma run_script_scriptable: "list_all scriptable (snd (snd (run_script lua h E source keys argv acl s)))"
  using run_lua_scriptable by (auto simp: run_script_def split_beta split: sum.split)

lemma serve_all_scriptable:
  "list_all scriptable cs \<Longrightarrow> serve_all h (map (Pair E) cs) s = replay h E cs s"
  unfolding serve_all_def
  by (induction cs arbitrary: s) (auto simp: scriptable_def serve_applies)

lemma script_logged:
  assumes "replays (cfg_hash cfg) E (sv_storage sv) b" "list_all scriptable (snd (snd b))"
    "sv_storage sv' = fst (snd b)" "logs_agree sv sv'"
  shows "logged cfg sv (map (Pair E) (snd (snd b))) (persist_script_writes cfg E (snd (snd b)) sv')"
proof -
  have p: "persist_script_writes cfg E ws v = log_all cfg (map (Pair E) ws) v" for ws v
    by (simp add: persist_script_writes_def log_all_def fold_map comp_def)
  have "sv_storage (log_all cfg ws v) = sv_storage v" for ws v
    by (induction ws arbitrary: v) auto
  then show ?thesis
    using assms by (auto simp: logged_def p logs_agree_log_all serve_all_scriptable replays_def
        list_all_iff scriptable_def)
qed

lemma run_script_logged:
  fixes b :: bridged
  assumes "b = run_script lua (cfg_hash cfg) E source keys argv acl (sv_storage sv)"
    "sv_storage sv' = fst (snd b)" "logs_agree sv sv'"
  shows "\<exists>ws. logged cfg sv ws (persist_script_writes cfg E (snd (snd b)) sv') \<and> list_all (\<lambda>(E, c). scriptable c) ws"
  using script_logged [OF _ _ assms(2,3)] run_script_replays run_script_scriptable assms(1)
  by (intro exI [of _ "map (Pair E) (snd (snd b))"]) (auto simp: list_all_iff)

lemma exec_script_logged:
  "\<exists>ws. logged cfg sv ws (fst (snd (exec_script cfg E c sv conn))) \<and> list_all (\<lambda>(E, c). scriptable c) ws"
proof (cases c)
  case (LuaEval script keys argv)
  define b where "b = run_script (cfg_lua cfg) (cfg_hash cfg) E script keys argv
    (build_script_acl E (sv_auth sv) (authed_user conn)) (sv_storage sv)"
  show ?thesis
    using run_script_logged [OF b_def, where sv' = "sv\<lparr>sv_storage := fst (snd b),
        sv_lua := (sv_lua sv)\<lparr>scripts := AList.update (sha1_hex (cfg_sha1 cfg) script) script (scripts (sv_lua sv))\<rparr>\<rparr>"]
    by (simp add: LuaEval lua_engine_run_def split_beta logs_agree_def flip: b_def)
next
  case (LuaEvalSha sha keys argv)
  show ?thesis
  proof (cases "map_of (scripts (sv_lua sv)) (to_ascii_lowercase sha)")
    case None
    then show ?thesis
      by (auto simp: LuaEvalSha run_sha_def persist_script_writes_def intro!: exI [of _ "[]"])
  next
    case (Some source)
    define b where "b = run_script (cfg_lua cfg) (cfg_hash cfg) E source keys argv
      (build_script_acl E (sv_auth sv) (authed_user conn)) (sv_storage sv)"
    show ?thesis
      using run_script_logged [OF b_def, where sv' = "sv\<lparr>sv_storage := fst (snd b)\<rparr>"]
      by (simp add: LuaEvalSha run_sha_def Some split_beta logs_agree_def flip: b_def)
  qed
qed

subsection \<open>Connection commands\<close>

lemma subscribe_loop_logs:
  "logs_agree sv (fst (snd (subscribe_loop chs sv sub))) \<and>
     sv_storage (fst (snd (subscribe_loop chs sv sub))) = sv_storage sv"
proof (induction chs arbitrary: sv sub)
  case (Cons ch chs)
  obtain tx sub' where e: "ensure_sender (sv_next_tx sv) sub = (tx, sub')"
    by (cases "ensure_sender (sv_next_tx sv) sub")
  show ?case using Cons [of "sv\<lparr>sv_pubsub := subscribe ch tx (sv_pubsub sv),
      sv_next_tx := (if sub_tx sub = None then Suc (sv_next_tx sv) else sv_next_tx sv)\<rparr>"]
    by (simp add: e Let_def split_beta logs_agree_def)
qed simp

lemma unsubscribe_loop_logs:
  "logs_agree sv (fst (snd (unsubscribe_loop chs sv sub))) \<and>
     sv_storage (fst (snd (unsubscribe_loop chs sv sub))) = sv_storage sv"
proof (induction chs arbitrary: sv sub)
  case (Cons ch chs)
  show ?case using Cons [of "sv\<lparr>sv_pubsub := prune_closed (is_closed sv) ch (sv_pubsub sv)\<rparr>"]
    by (simp add: Let_def split_beta logs_agree_def)
qed simp

lemma exec_conn_logged: "c \<noteq> Exec \<Longrightarrow> logged cfg sv [] (fst (snd (exec_conn run cfg E c sv conn)))"
  using subscribe_loop_logs unsubscribe_loop_logs
  by (cases c) (auto simp: split_beta exec_auth_def Let_def logs_agree_def intro!: logged_nothing split: option.split)

subsection \<open>Every command\<close>

lemma dispatch_run:
  "cmd \<noteq> C_Conn Exec \<Longrightarrow> dispatch run cfg E cmd sv conn = dispatch run' cfg E cmd sv conn"
proof -
  assume "cmd \<noteq> C_Conn Exec"
  moreover have "exec_conn run cfg E c sv conn = exec_conn run' cfg E c sv conn" if "c \<noteq> Exec" for c
    using that by (cases c) simp_all
  ultimately show ?thesis by (cases cmd) (simp_all add: dispatch_def)
qed

lemma execute_with_run:
  "cmd \<noteq> C_Conn Exec \<Longrightarrow> execute_with run cfg E cmd sv conn = execute_with run' cfg E cmd sv conn"
  unfolding execute_with_def using dispatch_run by (auto split: option.split)

text \<open>The commands a step may have served: the command itself, a script's, or a queued one.\<close>

definition step_logged :: "config \<Rightarrow> Command \<Rightarrow> server \<Rightarrow> server \<Rightarrow> bool" where
  "step_logged cfg cmd sv sv' \<longleftrightarrow>
     (\<exists>ws. logged cfg sv ws sv' \<and> list_all (\<lambda>(E, c). c = cmd \<or> scriptable c) ws)"

lemma step_logged_refl [simp]: "step_logged cfg cmd sv sv"
  unfolding step_logged_def by (rule exI [of _ "[]"]) simp

lemma step_logged_nothing: "logged cfg sv [] sv' \<Longrightarrow> step_logged cfg cmd sv sv'"
  unfolding step_logged_def by force

lemma exec_storage_logged:
  assumes "exec_storage (cfg_hash cfg) E cmd (sv_storage sv) = Some (r, s)"
  shows "step_logged cfg cmd sv
     ((if is_write_command cmd then log_write cfg E cmd sv else sv)\<lparr>sv_storage := s\<rparr>)"
proof (cases "is_write_command cmd")
  case True
  have "serve (cfg_hash cfg) E cmd (sv_storage sv) = s" using assms by (simp add: serve_def)
  with logged_write [OF True, of cfg sv E] show ?thesis
    using True unfolding step_logged_def by (intro exI [of _ "[(E, cmd)]"]) simp
next
  case False
  then have "s = sv_storage sv" using exec_storage_reads [OF assms] by simp
  with False show ?thesis by simp
qed

lemma not_a_write [simp]: "\<not> is_write_command (C_Conn c)" "\<not> is_write_command (C_Script c')"
  by simp_all

lemma execute_with_logged:
  assumes "cmd \<noteq> C_Conn Exec"
  shows "step_logged cfg cmd sv (fst (snd (execute_with run cfg E cmd sv conn)))"
proof -
  have "step_logged cfg cmd sv (fst (snd (dispatch run cfg E cmd
      (if is_write_command cmd then log_write cfg (E 0) cmd sv else sv) conn)))"
  proof (cases "exec_storage (cfg_hash cfg) (E 0) cmd (sv_storage sv)")
    case (Some x)
    obtain r s where x: "x = (r, s)" by (cases x)
    show ?thesis
      using exec_storage_logged [of cfg "E 0" cmd sv r s] Some x by (auto simp: dispatch_def)
  next
    case None
    then consider c where "cmd = C_Conn c" | c where "cmd = C_Script c" by (cases cmd) auto
    then show ?thesis
    proof cases
      case 1
      with assms show ?thesis using exec_conn_logged [of c cfg sv run E conn]
        by (simp add: dispatch_def step_logged_nothing)
    next
      case 2
      from exec_script_logged [of cfg sv "E 0" c conn] obtain ws where
        "logged cfg sv ws (fst (snd (exec_script cfg (E 0) c sv conn)))" "list_all (\<lambda>(E, c). scriptable c) ws"
        by blast
      with 2 show ?thesis unfolding step_logged_def
        by (intro exI [of _ ws]) (auto simp: dispatch_def list_all_iff)
    qed
  qed
  then show ?thesis by (auto simp: execute_with_def split: option.split if_splits)
qed

lemma execute_at_no_exec:
  "cmd \<noteq> C_Conn Exec \<Longrightarrow> execute_at n cfg E cmd sv conn = execute_with run cfg E cmd sv conn"
  by (cases n) (simp_all add: execute_with_run)

subsection \<open>Transactions\<close>

text \<open>The queue of a connection holds no transaction command, because these are not queued.\<close>

definition tx_ok :: "ConnState \<Rightarrow> bool" where
  "tx_ok conn \<longleftrightarrow>
     (case tx_queue (conn_tx conn) of None \<Rightarrow> True | Some q \<Rightarrow> list_all (\<lambda>c. \<not> is_tx_control c) q) \<and>
     distinct (map fst (watched (conn_tx conn)))"

lemma not_control: "\<not> is_tx_control cmd \<Longrightarrow> cmd \<noteq> C_Conn Exec"
  by auto

lemma exec_queue_run:
  assumes "list_all (\<lambda>c. \<forall>E sv conn. run cfg E c sv conn = run' cfg E c sv conn) cs"
  shows "exec_queue run cfg E i cs sv conn = exec_queue run' cfg E i cs sv conn"
  using assms
proof (induction cs arbitrary: i sv conn)
  case (Cons c cs)
  then show ?case by (auto split: prod.split option.split)
qed simp

lemma execute_with_queue_run:
  assumes "tx_ok conn" "\<And>c E sv conn. \<not> is_tx_control c \<Longrightarrow> run cfg E c sv conn = run' cfg E c sv conn"
  shows "execute_with run cfg E cmd sv conn = execute_with run' cfg E cmd sv conn"
proof (cases "cmd = C_Conn Exec")
  case False
  then show ?thesis by (rule execute_with_run)
next
  case True
  have "exec_exec run cfg E sv conn = exec_exec run' cfg E sv conn"
  proof (cases "tx_queue (conn_tx conn)")
    case (Some q)
    then have "exec_queue run cfg E 0 q sv c = exec_queue run' cfg E 0 q sv c" for c
      using assms by (intro exec_queue_run) (auto simp: tx_ok_def list_all_iff)
    then show ?thesis by (simp add: exec_exec_def take_queue_def Some)
  qed (simp add: exec_exec_def take_queue_def)
  then show ?thesis by (simp add: True execute_with_def dispatch_def split: option.split)
qed

lemma depth_enough:
  assumes "tx_ok conn"
  shows "execute_at (Suc n) cfg E cmd sv conn = execute_command cfg E cmd sv conn"
proof -
  have "execute_at n cfg (\<lambda>_. E') c sv' conn' = execute_at 0 cfg (\<lambda>_. E') c sv' conn'"
    if "\<not> is_tx_control c" for c E' sv' conn'
    using execute_at_no_exec [OF not_control [OF that]] by metis
  then show ?thesis
    unfolding execute_command_def One_nat_def execute_at.simps
    by (intro execute_with_queue_run [OF assms]) auto
qed

lemma exec_queue_logged:
  assumes "list_all (\<lambda>c. \<forall>E sv conn. step_logged cfg c sv (fst (snd (run cfg E c sv conn)))) cs"
  shows "\<exists>ws. logged cfg sv ws (fst (snd (exec_queue run cfg E i cs sv conn))) \<and>
     list_all (\<lambda>(E, c). c \<in> set cs \<or> scriptable c) ws"
  using assms
proof (induction cs arbitrary: i sv conn)
  case Nil
  then show ?case by (auto intro!: exI [of _ "[]"])
next
  case (Cons c cs)
  obtain r sv1 conn1 where run: "run cfg (E i) c sv conn = (r, sv1, conn1)"
    by (cases "run cfg (E i) c sv conn")
  have "step_logged cfg c sv (fst (snd (run cfg (E i) c sv conn)))" using Cons.prems by simp
  then have "step_logged cfg c sv sv1" using run by simp
  then obtain ws where ws: "logged cfg sv ws sv1" "list_all (\<lambda>(E, x). x = c \<or> scriptable x) ws"
    by (auto simp: step_logged_def)
  obtain ws' where ws': "logged cfg sv1 ws' (fst (snd (exec_queue run cfg E (Suc i) cs sv1 conn1)))"
      "list_all (\<lambda>(E, c). c \<in> set cs \<or> scriptable c) ws'"
    using Cons.IH [of sv1 "Suc i" conn1] Cons.prems by auto
  show ?case
  proof (cases r)
    case None
    then show ?thesis using ws run by (intro exI [of _ ws]) (auto simp: list_all_iff)
  next
    case (Some resp)
    then show ?thesis using logged_trans [OF ws(1) ws'(1)] ws(2) ws'(2) run
      by (intro exI [of _ "ws @ ws'"]) (auto simp: list_all_iff split_beta)
  qed
qed

text \<open>What a step of any connection has served.\<close>

definition queued :: "ConnState \<Rightarrow> Command list" where
  "queued conn = (case tx_queue (conn_tx conn) of None \<Rightarrow> [] | Some q \<Rightarrow> q)"

lemma execute_logged:
  assumes "tx_ok conn"
  shows "\<exists>ws. logged cfg sv ws (fst (snd (execute_command cfg E cmd sv conn))) \<and>
     list_all (\<lambda>(E, c). c = cmd \<or> c \<in> set (queued conn) \<or> scriptable c) ws"
proof (cases "cmd = C_Conn Exec")
  case False
  then obtain ws where "logged cfg sv ws (fst (snd (execute_command cfg E cmd sv conn)))"
      "list_all (\<lambda>(E, c). c = cmd \<or> scriptable c) ws"
    using execute_with_logged [OF False, of cfg sv "\<lambda>cfg E. execute_at 0 cfg (\<lambda>_. E)" E conn]
    by (auto simp: execute_command_def step_logged_def)
  then show ?thesis by (intro exI [of _ ws]) (auto simp: list_all_iff)
next
  case True
  let ?run = "\<lambda>cfg E. execute_at 0 cfg (\<lambda>_. E)"
  have exec: "\<exists>ws. logged cfg sv ws (fst (snd (exec_exec ?run cfg E sv conn))) \<and>
      list_all (\<lambda>(E, c). c \<in> set (queued conn) \<or> scriptable c) ws"
  proof (cases "tx_queue (conn_tx conn)")
    case None
    then show ?thesis by (auto simp: exec_exec_def take_queue_def intro!: exI [of _ "[]"])
  next
    case (Some q)
    have "\<exists>ws. logged cfg sv ws (fst (snd (exec_queue ?run cfg E 0 q sv c))) \<and>
        list_all (\<lambda>(E, c). c \<in> set q \<or> scriptable c) ws" for c
      using assms Some
      by (intro exec_queue_logged) (auto simp: tx_ok_def list_all_iff intro!: execute_with_logged)
    then show ?thesis
      by (auto simp: exec_exec_def take_queue_def Some queued_def split_beta intro!: exI [of _ "[]"])
  qed
  then obtain ws where "logged cfg sv ws (fst (snd (exec_exec ?run cfg E sv conn)))"
      "list_all (\<lambda>(E, c). c \<in> set (queued conn) \<or> scriptable c) ws" by blast
  moreover have "fst (snd (execute_command cfg E cmd sv conn)) \<in> {sv, fst (snd (exec_exec ?run cfg E sv conn))}"
    by (auto simp: True execute_command_def execute_with_def dispatch_def split: option.split)
  ultimately show ?thesis
    by (auto simp: list_all_iff intro: exI [of _ "[]"] exI [of _ ws])
qed

subsection \<open>The transaction state\<close>

lemma dispatch_tx:
  assumes "\<not> is_tx_control cmd"
  shows "conn_tx (snd (snd (dispatch run cfg E cmd sv conn))) = conn_tx conn"
proof -
  have "conn_tx (snd (snd (exec_conn run cfg E c sv conn))) = conn_tx conn" if "\<not> is_tx_control (C_Conn c)" for c
    using that by (cases c) (auto simp: exec_auth_def Let_def split_beta split: option.split)
  moreover have "conn_tx (snd (snd (exec_script cfg (E 0) c sv conn))) = conn_tx conn" for c
    by (cases c) (simp_all add: split_beta)
  ultimately show ?thesis
    using assms by (cases cmd) (simp_all add: dispatch_def split_beta)
qed

lemma execute_with_tx:
  assumes "\<not> is_tx_control cmd" "\<not> in_multi (conn_tx conn)"
  shows "conn_tx (snd (snd (execute_with run cfg E cmd sv conn))) = conn_tx conn"
  using assms dispatch_tx [OF assms(1)] by (simp add: execute_with_def split: option.split)

lemma exec_queue_tx:
  assumes "list_all (\<lambda>c. \<not> is_tx_control c) cs" "\<not> in_multi (conn_tx conn)"
  shows "conn_tx (snd (snd (exec_queue (\<lambda>cfg E. execute_at 0 cfg (\<lambda>_. E)) cfg E i cs sv conn))) = conn_tx conn"
  using assms
proof (induction cs arbitrary: i sv conn)
  case (Cons c cs)
  obtain r sv1 conn1 where run: "execute_at 0 cfg (\<lambda>_. E i) c sv conn = (r, sv1, conn1)"
    by (cases "execute_at 0 cfg (\<lambda>_. E i) c sv conn")
  have "conn_tx conn1 = conn_tx conn" using execute_with_tx Cons.prems run by (metis execute_at.simps(1) list.pred_inject(2) snd_conv)
  then show ?case using Cons run by (cases r) (auto simp: split_beta)
qed simp

lemma tx_ok_enqueue:
  assumes "tx_ok conn" "\<not> is_tx_control cmd"
  shows "tx_ok (conn\<lparr>conn_tx := enqueue cmd (conn_tx conn)\<rparr>)"
  using assms by (auto simp: tx_ok_def enqueue_def split: option.split)

lemma watch_keys_queue [simp]: "tx_queue (watch_keys h vs keys t) = tx_queue t"
proof -
  have "tx_queue (tx_watch i v u) = tx_queue u" for i v u by (simp add: tx_watch_def split: option.split)
  then show ?thesis unfolding watch_keys_def by (induction keys arbitrary: t) simp_all
qed

lemma tx_ok_dispatch:
  assumes "tx_ok conn"
  shows "tx_ok (snd (snd (dispatch (\<lambda>cfg E. execute_at 0 cfg (\<lambda>_. E)) cfg E cmd sv conn)))"
proof (cases "is_tx_control cmd")
  case False
  from dispatch_tx [OF this] assms show ?thesis by (simp add: tx_ok_def)
next
  case True
  then obtain c where c: "cmd = C_Conn c" by (cases cmd) auto
  have q: "list_all (\<lambda>c. \<not> is_tx_control c) q" if "tx_queue (conn_tx conn) = Some q" for q
    using assms that by (simp add: tx_ok_def)
  have "conn_tx (snd (snd (exec_queue (\<lambda>cfg E. execute_at 0 cfg (\<lambda>_. E)) cfg E 0 q sv
      (conn\<lparr>conn_tx := tx_unwatch ((conn_tx conn)\<lparr>tx_queue := None\<rparr>)\<rparr>)))) =
      tx_unwatch ((conn_tx conn)\<lparr>tx_queue := None\<rparr>)" if "tx_queue (conn_tx conn) = Some q" for q
    using exec_queue_tx [OF q [OF that], of "conn\<lparr>conn_tx := tx_unwatch ((conn_tx conn)\<lparr>tx_queue := None\<rparr>)\<rparr>"]
    by (simp add: in_multi_def tx_unwatch_def)
  then show ?thesis
    using True assms
    by (cases c) (auto simp: c dispatch_def tx_ok_def tx_start_def tx_discard_def tx_unwatch_def in_multi_def
        exec_exec_def take_queue_def distinct_watch_keys split_beta watch_keys_queue split: option.splits)
qed

lemma tx_ok_execute:
  assumes "tx_ok conn"
  shows "tx_ok (snd (snd (execute_command cfg E cmd sv conn)))"
  using assms tx_ok_enqueue [OF assms] tx_ok_dispatch [OF assms]
  by (auto simp: execute_command_def execute_with_def split: option.split if_splits)

lemma tx_ok_new: "tx_ok conn_new"
  by (simp add: tx_ok_def conn_new_def tx_new_def)

subsection \<open>Versions\<close>

lemma bump_covers_keys:
  assumes "is_write_command cmd" "k \<in> touched_keys cmd"
  shows "shard_index_for h k SHARD_COUNT \<in> set (bumped_shards h cmd)"
proof (cases cmd)
  case (C_String c)
  with assms show ?thesis by (cases c) (auto simp: bumped_shards_def Let_def)
next
  case (C_Hash c)
  with assms show ?thesis by (cases c) (auto simp: bumped_shards_def Let_def)
next
  case (C_List c)
  with assms show ?thesis by (cases c) (auto simp: bumped_shards_def Let_def)
next
  case (C_Set c)
  with assms show ?thesis by (cases c) (auto simp: bumped_shards_def Let_def)
next
  case (C_ZSet c)
  with assms show ?thesis by (cases c) (auto simp: bumped_shards_def Let_def)
next
  case (C_Key c)
  with assms show ?thesis by (cases c) (auto simp: bumped_shards_def Let_def)
next
  case (C_Stream c)
  with assms show ?thesis by (cases c) (auto simp: bumped_shards_def Let_def)
qed (use assms in auto)

definition all_bumps :: "hasher \<Rightarrow> (env \<times> Command) list \<Rightarrow> nat list" where
  "all_bumps h ws = concat (map (\<lambda>(E, c). bumped_shards h c) ws)"

lemma versions_log_all: "sv_versions (log_all cfg ws sv) = bumps (all_bumps (cfg_hash cfg) ws) (sv_versions sv)"
proof (induction ws arbitrary: sv)
  case (Cons w ws)
  then show ?case by (cases w) (simp add: log_write_def bump_versions_for_def all_bumps_def bumps_def)
qed (simp add: all_bumps_def bumps_def)

lemma serve_all_framed:
  assumes "list_all (\<lambda>(E, c). is_write_command c) ws" "shard_index_for h k SHARD_COUNT \<notin> set (all_bumps h ws)"
  shows "framed h k s (serve_all h ws s)"
  using assms
proof (induction ws arbitrary: s)
  case (Cons w ws)
  obtain E c where w: "w = (E, c)" by (cases w)
  have "k \<notin> touched_keys c" using Cons.prems bump_covers_keys [of c k h] by (auto simp: w all_bumps_def)
  then have "framed h k s (serve h E c s)" by (rule serve_framed)
  moreover have "framed h k (serve h E c s) (serve_all h ws (serve h E c s))"
    using Cons by (intro Cons.IH) (auto simp: w all_bumps_def)
  ultimately show ?case by (auto simp: serve_all_def w intro: framed_trans)
qed (simp add: serve_all_def)

end
