(* ===== verification/Server_Properties.thy ===== *)
theory Server_Properties
  imports Server_Facts
begin

text \<open>
  What the server guarantees: the gates, transactions, durability and replication of what it
  serves, the pub/sub commands, and the reading loop.
\<close>

subsection \<open>Gates\<close>

text \<open>
  (C24) A connection that has not authenticated, on a server that requires it, can send any
  command but AUTH without changing anything the connections share.
\<close>

theorem unauthenticated_changes_nothing:
  assumes "sv_auth sv = Some am" "require_auth am" "authed_user conn = None"
    and "\<And>u p. cmd \<noteq> C_Conn (Auth u p)"
  shows "fst (snd (execute_command cfg E cmd sv conn)) = sv"
proof -
  have "auth_gate (E 0) (sv_auth sv) (authed_user conn) cmd \<noteq> None \<or> cmd = C_Key Ping"
    using assms by (cases cmd rule: is_auth_or_ping.cases) (auto simp: auth_gate_def)
  then show ?thesis
    by (auto simp: execute_command_def execute_with_def dispatch_def split: option.splits)
qed

definition sample_cfg :: config where
  "sample_cfg = \<lparr>cfg_hash = (\<lambda>k. word_of_nat (length k)), cfg_ring = None, cfg_node = None, cfg_lua = Inl ''off'',
     cfg_sha1 = id, cfg_verify = (\<lambda>stored given. stored = given),
     cfg_codec = \<lparr>wc_crc = (\<lambda>b. word_of_nat (length b)),
       wc_encode = (\<lambda>c. case c of C_String (Delete k) \<Rightarrow> Inr k | _ \<Rightarrow> Inl ''unsupported''),
       wc_decode = (\<lambda>b. Inr (C_String (Delete b)))\<rparr>\<rparr>"

definition guarded_server :: server where
  "guarded_server = server_new\<lparr>sv_auth := Some (auth_with_users True
     [\<lparr>username = ''ann'', password_hash = ''pw'',
       acl_rules = [with_key_pattern ''a:*'' rule_allow_all], is_admin = False\<rparr>])\<rparr>"

theorem unauthenticated_changes_nothing_witness:
  "fst (snd (execute_command sample_cfg (\<lambda>_. sample_env) (C_Key FlushAll) guarded_server conn_new)) = guarded_server"
proof (rule unauthenticated_changes_nothing)
  show "sv_auth guarded_server = Some (the (sv_auth guarded_server))" by (simp add: guarded_server_def)
  show "require_auth (the (sv_auth guarded_server))" by (simp add: guarded_server_def auth_with_users_def)
qed (simp_all add: conn_new_def)



text \<open>
  The rules do not see the keys of a command with several: whether MSET is allowed does
  not depend on the keys it writes, and RENAME is allowed or not by its source alone.
\<close>

theorem multi_key_commands_unchecked:
  "auth_gate E auth user (C_String (MSet ps)) = auth_gate E auth user (C_String (MSet ps')) \<and>
   auth_gate E auth user (C_Key (Rename k d)) = auth_gate E auth user (C_Key (Rename k d'))"
  by (simp add: auth_gate_def split: option.split)

subsection \<open>Transactions\<close>

text \<open>
  (C23) EXEC ends: its recursion into the queue needs no more than one level, on every
  connection whose queue holds no transaction command, and no command of a client puts one
  there.
\<close>

theorem exec_depth_enough:
  assumes "tx_ok conn"
  shows "execute_at (Suc n) cfg E cmd sv conn = execute_command cfg E cmd sv conn \<and>
     tx_ok (snd (snd (execute_command cfg E cmd sv conn)))"
  using depth_enough [OF assms] tx_ok_execute [OF assms] by blast

theorem exec_depth_enough_witness:
  "execute_at 7 sample_cfg (\<lambda>_. sample_env) (C_Conn Multi) server_new conn_new =
     execute_command sample_cfg (\<lambda>_. sample_env) (C_Conn Multi) server_new conn_new"
  using exec_depth_enough [OF tx_ok_new, of 6] by (simp add: numeral_eq_Suc)

lemma unread_bumps:
  assumes "versions_read i (bumps bs vs) = versions_read i vs" "i < length vs" "count_list bs i < 2 ^ 64"
  shows "i \<notin> set bs"
proof -
  have "(word_of_nat (count_list bs i) :: 64 word) = 0" using assms(1,2) read_bumps by fastforce
  then have "2 ^ 64 dvd count_list bs i" by (simp add: word_of_nat_eq_0_iff)
  then have "count_list bs i = 0" using assms(3) nat_dvd_not_less by blast
  then show ?thesis by (simp add: count_list_0_iff)
qed

text \<open>
  Any number of commands of any connections, one after the other, with the writes they served.
\<close>

inductive server_steps :: "config \<Rightarrow> server \<Rightarrow> (env \<times> Command) list \<Rightarrow> server \<Rightarrow> bool" for cfg where
  steps_refl: "server_steps cfg sv [] sv"
| steps_step: "server_steps cfg sv ws sv1 \<Longrightarrow> tx_ok conn \<Longrightarrow>
    fst (snd (execute_command cfg E cmd sv1 conn)) = sv2 \<Longrightarrow> logged cfg sv1 ws' sv2 \<Longrightarrow>
    server_steps cfg sv (ws @ ws') sv2"

lemma server_steps_logged: "server_steps cfg sv ws sv' \<Longrightarrow> logged cfg sv ws sv'"
  by (induction rule: server_steps.induct) (auto intro: logged_trans)

lemma server_steps_continue:
  assumes "server_steps cfg sv ws sv1" "tx_ok conn"
  shows "\<exists>ws'. server_steps cfg sv (ws @ ws') (fst (snd (execute_command cfg E cmd sv1 conn)))"
  using execute_logged [OF assms(2)] steps_step [OF assms refl] by blast



lemma sample_shard: "shard_index_for (cfg_hash sample_cfg) ''k'' SHARD_COUNT = 1"
    "shard_index_for (cfg_hash sample_cfg) ''ab'' SHARD_COUNT = 2"
  by (simp_all add: shard_index_for_def sample_cfg_def SHARD_COUNT_def)

definition watching :: ConnState where
  "watching = conn_new\<lparr>conn_tx := watch_keys (cfg_hash sample_cfg) (sv_versions server_new) [''k''] tx_new\<rparr>"

definition server_after_set :: server where
  "server_after_set = fst (snd (execute_command sample_cfg (\<lambda>_. sample_env) (C_String (Set ''ab'' ''v'' None)) server_new conn_new))"

lemma versions_after_set: "sv_versions server_after_set = bump 2 (versions_new SHARD_COUNT)"
  using sample_shard(2)
  by (simp add: server_after_set_def execute_command_def execute_with_def conn_new_def tx_new_def in_multi_def
      cluster_gate_def sample_cfg_def auth_gate_def server_new_def dispatch_def log_write_def
      bump_versions_for_def bumped_shards_def bumps_def)

lemma watched_watching: "map_of (watched (conn_tx watching)) 1 = Some 0" "watched (conn_tx watching) = [(1, 0)]"
  using sample_shard(1)
  by (simp_all add: watching_def watch_keys_def tx_watch_def tx_new_def server_new_def versions_read_def
      versions_new_def SHARD_COUNT_def)

lemma server_after_set_steps:
  "server_steps sample_cfg server_new [(sample_env, C_String (Set ''ab'' ''v'' None))] server_after_set"
proof -
  have "logged sample_cfg server_new [(sample_env, C_String (Set ''ab'' ''v'' None))] server_after_set"
    using logged_write [of "C_String (Set ''ab'' ''v'' None)" sample_cfg server_new sample_env]
    by (simp add: server_after_set_def execute_command_def execute_with_def conn_new_def tx_new_def in_multi_def
        cluster_gate_def auth_gate_def server_new_def sample_cfg_def dispatch_def serve_def)
  with steps_step [OF steps_refl tx_ok_new, of sample_cfg "\<lambda>_. sample_env" "C_String (Set ''ab'' ''v'' None)" server_new] show ?thesis
    by (simp add: server_after_set_def)
qed



subsection \<open>Durability and replication\<close>

lemma replicator_log_all:
  "sv_replicator (log_all cfg ws sv) = map_option (fold replicate_write (map snd ws)) (sv_replicator sv)"
proof (induction ws arbitrary: sv)
  case (Cons w ws)
  then show ?case by (cases w; cases "sv_replicator sv") (simp_all add: log_write_def)
qed (simp add: option.map_id)

lemma wal_log_all:
  "sv_wal (log_all cfg ws sv) = map_option (fold (\<lambda>(E, c) w. snd (append_command (cfg_codec cfg) E c w)) ws) (sv_wal sv)"
proof (induction ws arbitrary: sv)
  case (Cons w ws)
  then show ?case by (cases w; cases "sv_wal sv") (simp_all add: log_write_def)
qed (simp add: option.map_id)

lemma execute_applies:
  assumes "tx_ok conn" "\<not> replay_differs cmd" "list_all (\<lambda>c. \<not> replay_differs c) (queued conn)"
  obtains ws where "logged cfg sv ws (fst (snd (execute_command cfg E cmd sv conn)))"
    "sv_storage (fst (snd (execute_command cfg E cmd sv conn))) = apply_all (cfg_hash cfg) ws (sv_storage sv)"
proof -
  obtain ws where ws: "logged cfg sv ws (fst (snd (execute_command cfg E cmd sv conn)))"
      "list_all (\<lambda>(E, c). c = cmd \<or> c \<in> set (queued conn) \<or> scriptable c) ws"
    using execute_logged [OF assms(1)] by blast
  then have "list_all (\<lambda>(E, c). \<not> replay_differs c) ws"
    using assms(2,3) by (auto simp: list_all_iff scriptable_def)
  then have "sv_storage (fst (snd (execute_command cfg E cmd sv conn))) = apply_all (cfg_hash cfg) ws (sv_storage sv)"
    using ws(1) by (simp add: logged_def serve_all_applies)
  with ws(1) show ?thesis by (rule that)
qed

text \<open>
  (C6) Replication: whatever a client's command does (a transaction and a script included), the
  writes put on a replica's channel, applied in order in the environments they were served in,
  turn the storage before the command into the storage after it; unless the command or one of
  the transaction is an EXPIREAT at a negative time or an XADD with an id that does not parse.
\<close>

theorem replication_reproduces_storage:
  assumes "tx_ok conn" "\<not> replay_differs cmd" "list_all (\<lambda>c. \<not> replay_differs c) (queued conn)"
    and "sv_replicator sv = Some m" "map_of (replicas m) rid = Some sent"
  shows "\<exists>ws m'. sv_replicator (fst (snd (execute_command cfg E cmd sv conn))) = Some m' \<and>
    map_of (replicas m') rid = Some (sent @ map Write (map snd ws)) \<and>
    replication_offset m' = replication_offset m + word_of_nat (length ws) \<and>
    sv_storage (fst (snd (execute_command cfg E cmd sv conn))) = apply_all (cfg_hash cfg) ws (sv_storage sv)"
proof -
  obtain ws where ws: "logged cfg sv ws (fst (snd (execute_command cfg E cmd sv conn)))"
    "sv_storage (fst (snd (execute_command cfg E cmd sv conn))) = apply_all (cfg_hash cfg) ws (sv_storage sv)"
    using assms(1-3) by (rule execute_applies)
  have "sv_replicator (fst (snd (execute_command cfg E cmd sv conn))) = Some (fold replicate_write (map snd ws) m)"
    using ws(1) assms(4) by (simp add: logged_def logs_agree_def replicator_log_all)
  with ws(2) assms(5) show ?thesis
    using replicate_writes [of "map snd ws" m rid] replicate_writes_offset [of "map snd ws" m]
    by (intro exI [of _ ws] exI [of _ "fold replicate_write (map snd ws) m"]) simp
qed

definition replicated_server :: server where
  "replicated_server = server_new\<lparr>sv_replicator := Some (snd (handle_replica_connection (Connect ''r'') (master_new ''m'')))\<rparr>"

theorem replication_reproduces_storage_witness:
  "\<exists>ws m'. sv_replicator (fst (snd (execute_command sample_cfg (\<lambda>_. sample_env) (C_String (Incr ''n'')) replicated_server conn_new))) = Some m' \<and>
    map_of (replicas m') ''r'' = Some ([] @ map Write (map snd ws)) \<and>
    replication_offset m' = 0 + word_of_nat (length ws) \<and>
    sv_storage (fst (snd (execute_command sample_cfg (\<lambda>_. sample_env) (C_String (Incr ''n'')) replicated_server conn_new))) =
      apply_all (cfg_hash sample_cfg) ws (sv_storage replicated_server)"
proof -
  let ?m = "snd (handle_replica_connection (Connect ''r'') (master_new ''m''))"
  have facts: "\<not> replay_differs (C_String (Incr ''n''))" "list_all (\<lambda>c. \<not> replay_differs c) (queued conn_new)"
    "sv_replicator replicated_server = Some ?m" "map_of (replicas ?m) ''r'' = Some []"
    by (simp_all add: queued_def conn_new_def tx_new_def handle_replica_connection_def master_new_def replicated_server_def)
  moreover have "replication_offset ?m = 0" by (simp add: handle_replica_connection_def master_new_def)
  ultimately show ?thesis
    using replication_reproduces_storage [OF tx_ok_new facts, of sample_cfg "\<lambda>_. sample_env"] by simp
qed

text \<open>
  What a log has gained from a list of writes, provided the codec can encode them: it is still
  well formed, it replays a recent part of what it held followed by the writes, and not nothing.
\<close>

definition log_gains :: "wal_codec \<Rightarrow> WriteAheadLog \<Rightarrow> (env \<times> Command) list \<Rightarrow> WriteAheadLog \<Rightarrow> bool" where
  "log_gains cd w ws w' \<longleftrightarrow>
     (list_all (\<lambda>(E, c). codec_ok cd c) ws \<longrightarrow>
        wal_inv cd w' \<and>
        suffix (map we_command (wal_log cd w')) (map we_command (wal_log cd w) @ map snd ws) \<and>
        (ws \<noteq> [] \<longrightarrow> map we_command (wal_log cd w') \<noteq> []))"


definition wal_server :: server where
  "wal_server = server_new\<lparr>sv_wal := Some (projr (wal_open ''w'' Sync_Always 1000 1 []))\<rparr>"


subsection \<open>The reading loop\<close>

text \<open>
  Induction over the loop: it stops with the connection open, it panics in the parser or in a
  command, or it answers one command and goes on.
\<close>

lemma drain_rule [consumes 1, case_names stop bad crash step]:
  assumes "drain show_error cfg E i sv c = res"
    and stop: "\<And>i sv c. cn_buffer c = [] \<or> (\<exists>e. parse_resp (capacity_limit (E i 0)) (cn_buffer c) = parsed.Failed e) \<Longrightarrow>
      P i sv c (Conn_open, i, sv, c)"
    and bad: "\<And>i sv c. P i sv c (Conn_panic, i, sv, c)"
    and crash: "\<And>i sv c v sv' st. answer show_error cfg (E i) v sv (cn_state c) = (None, sv', st) \<Longrightarrow>
      P i sv c (Conn_panic, i, sv', c\<lparr>cn_state := st\<rparr>)"
    and step: "\<And>i sv c v rest r sv' st st' rx res. cn_buffer c \<noteq> [] \<Longrightarrow>
      parse_resp (capacity_limit (E i 0)) (cn_buffer c) = Parsed v rest \<Longrightarrow>
      answer show_error cfg (E i) v sv (cn_state c) = (Some r, sv', st) \<Longrightarrow> hoist_receiver st (cn_rx c) = (st', rx) \<Longrightarrow>
      P (Suc i) sv' (c\<lparr>cn_buffer := rest, cn_state := st', cn_rx := rx, cn_out := cn_out c @ serialize_response r\<rparr>) res \<Longrightarrow>
      P i sv c res"
  shows "P i sv c res"
  using assms(1)
proof (induction "length (cn_buffer c)" arbitrary: i sv c rule: less_induct)
  case less
  show ?case
  proof (cases "cn_buffer c = []")
    case True
    then show ?thesis using less.prems stop [of c i sv] by (simp add: drain.simps [of _ _ _ _ _ c])
  next
    case False
    show ?thesis
    proof (cases "parse_resp (capacity_limit (E i 0)) (cn_buffer c)")
      case (Parsed v rest)
      obtain r sv' st where a: "answer show_error cfg (E i) v sv (cn_state c) = (r, sv', st)"
        by (cases "answer show_error cfg (E i) v sv (cn_state c)")
      obtain st' rx where hr: "hoist_receiver st (cn_rx c) = (st', rx)" by (cases "hoist_receiver st (cn_rx c)")
      have "length rest < length (cn_buffer c)" using parse_resp_suffix [OF Parsed] by auto
      then show ?thesis
        using False Parsed a hr crash [of i v sv c] step [OF False Parsed _ hr] less
        by (cases r) (auto simp: drain.simps [of _ _ _ _ _ c])
    qed (use False bad [of i sv c] stop [of c i sv] less.prems in \<open>auto simp: drain.simps [of _ _ _ _ _ c]\<close>)
  qed
qed

lemma drain_append:
  assumes "drain show_error cfg E i sv c = (Conn_open, j, sv', c')"
  shows "drain show_error cfg E i sv (c\<lparr>cn_buffer := cn_buffer c @ x\<rparr>) =
       drain show_error cfg E j sv' (c'\<lparr>cn_buffer := cn_buffer c' @ x\<rparr>)"
  using assms
proof (induction i sv c "(Conn_open, j, sv', c')" rule: drain_rule)
  case (step i sv c v rest r sv1 st st' rx)
  have "parse_resp (capacity_limit (E i 0)) (cn_buffer c @ x) = Parsed v (rest @ x)"
    using parse_extend(1) [OF step(2)] .
  then show ?case
    using step by (simp add: drain.simps [of _ _ _ _ _ "c\<lparr>cn_buffer := cn_buffer c @ x\<rparr>"], cases c, simp)
qed auto

lemma drain_not_closed: "drain show_error cfg E i sv c = (Conn_closed e, j, sv', c') \<Longrightarrow> False"
  by (induction i sv c "(Conn_closed e, j, sv', c')" rule: drain_rule) auto



lemma drain_stops:
  assumes "drain show_error cfg E i sv c = (Conn_open, j, sv', c')"
  shows "cn_buffer c' = [] \<or> (\<exists>e. parse_resp (capacity_limit (E j 0)) (cn_buffer c') = parsed.Failed e)"
  using assms by (induction i sv c "(Conn_open, j, sv', c')" rule: drain_rule) auto

text \<open>
  (C21) No command is left waiting: when a read ends with the connection open, the buffer no
  longer starts with a complete frame, and holds at most one megabyte.
\<close>

theorem every_command_answered:
  assumes "on_read show_error cfg E i chunk sv c = (Conn_open, j, sv', c')"
  shows "(cn_buffer c' = [] \<or> (\<exists>e. parse_resp (capacity_limit (E j 0)) (cn_buffer c') = parsed.Failed e)) \<and>
    length (cn_buffer c') \<le> 1024 * 1024"
  using assms drain_stops [of show_error cfg E i sv "c\<lparr>cn_buffer := cn_buffer c @ chunk\<rparr>"]
  by (auto simp: on_read_def split: if_splits prod.splits conn_end.splits)

theorem every_command_answered_witness:
  "(\<exists>e. parse_resp (capacity_limit sample_env) ''*1'' = parsed.Failed e) \<and> length ''*1'' \<le> (1024 * 1024 :: nat)"
proof -
  have "on_read (\<lambda>_. ''?'') sample_cfg (\<lambda>_ _. sample_env) 0 ''*1'' server_new connection_new =
      (Conn_open, 0, server_new, connection_new\<lparr>cn_buffer := ''*1''\<rparr>)"
    by (simp add: on_read_def drain.simps connection_new_def array_header_def read_line_def)
  from every_command_answered [OF this] show ?thesis by simp
qed

subsection \<open>The script cache\<close>

lemma hex_digit_lower:
  assumes "n < 16"
  shows "ascii_lower_char (hex_digit n) = hex_digit n" "ascii_lower_char (ascii_upper_char (hex_digit n)) = hex_digit n"
  using assms
  by (auto simp: hex_digit_def digit_char_def ascii_lower_char_def ascii_upper_char_def of_char_of Let_def)

lemma sha1_hex_lower:
  "to_ascii_lowercase (sha1_hex sha1 d) = sha1_hex sha1 d"
  "to_ascii_lowercase (to_ascii_uppercase (sha1_hex sha1 d)) = sha1_hex sha1 d"
proof -
  have "(of_char b :: nat) div 16 < 16" "(of_char b :: nat) mod 16 < 16" for b :: char
    using nat_of_char_less_256 [of b] by (simp_all add: less_mult_imp_div_less)
  then show "to_ascii_lowercase (sha1_hex sha1 d) = sha1_hex sha1 d"
    "to_ascii_lowercase (to_ascii_uppercase (sha1_hex sha1 d)) = sha1_hex sha1 d"
    by (simp_all add: to_ascii_lowercase_def to_ascii_uppercase_def sha1_hex_def map_concat comp_def hex_digit_lower)
qed

text \<open>
  EVALSHA finds what EVAL stored: after an EVAL, however the script ended, its digest names it,
  written in lower or in upper case, and running it by the digest is running its source.
\<close>

theorem script_cache_roundtrip:
  "case exec_script cfg E (LuaEval script keys argv) sv conn of (r, sv', conn') \<Rightarrow>
     run_sha (cfg_lua cfg) h E' (sha1_hex (cfg_sha1 cfg) script) keys' argv' acl (sv_lua sv') s =
       run_script (cfg_lua cfg) h E' script keys' argv' acl s \<and>
     run_sha (cfg_lua cfg) h E' (to_ascii_uppercase (sha1_hex (cfg_sha1 cfg) script)) keys' argv' acl (sv_lua sv') s =
       run_script (cfg_lua cfg) h E' script keys' argv' acl s"
proof -
  have "sv_lua (persist_script_writes cfg E ws sv1) = sv_lua sv1" for ws sv1
    unfolding persist_script_writes_def by (induction ws arbitrary: sv1) simp_all
  then show ?thesis
    by (simp add: lua_engine_run_def run_sha_def sha1_hex_lower update_conv' split_beta)
qed

end
