(* ===== verification/Commutation.thy ===== *)
theory Commutation
  imports Server_Facts Event_System
begin

text \<open>
  Which commands commute. An operation of the storage is confined to a set of keys when what it
  returns and what it leaves under these keys depends only on what was under them; every command
  is confined to the keys it touches, and changes no other. Hence two commands that touch no common
  key commute. The locale \<open>commuting_events\<close> is what the interleaving of commands needs of this: an
  event can be moved past a sequence of events that it does not conflict with.
\<close>

subsection \<open>Events that commute\<close>

locale commuting_events = event_system step ok inv
  for step :: "'e \<Rightarrow> 's \<Rightarrow> 's" and ok inv +
  fixes view :: "'s \<Rightarrow> 'v"
    and conflict :: "'e \<Rightarrow> 'e \<Rightarrow> bool"
  assumes view_step: "inv s \<Longrightarrow> inv s' \<Longrightarrow> ok e \<Longrightarrow> view s = view s' \<Longrightarrow> view (step e s) = view (step e s')"
    and commute: "inv s \<Longrightarrow> ok e \<Longrightarrow> ok e' \<Longrightarrow> \<not> conflict e e' \<Longrightarrow> view (step e (step e' s)) = view (step e' (step e s))"
begin

lemma view_run:
  "inv s \<Longrightarrow> inv s' \<Longrightarrow> list_all ok es \<Longrightarrow> view s = view s' \<Longrightarrow> view (fold step es s) = view (fold step es s')"
proof (induction es arbitrary: s s')
  case (Cons e es)
  then show ?case using view_step [of s s' e] by (simp add: step_inv)
qed simp

lemma move_last:
  assumes "inv s" "ok e" "list_all ok es" "list_all (\<lambda>e'. \<not> conflict e e') es"
  shows "view (step e (fold step es s)) = view (fold step (e # es) s)"
  using assms
proof (induction es arbitrary: s)
  case (Cons e' es)
  have "view (step e (fold step (e' # es) s)) = view (fold step (e # es) (step e' s))"
    using Cons by (simp add: step_inv)
  also have "\<dots> = view (fold step es (step e (step e' s)))" by simp
  also have "\<dots> = view (fold step es (step e' (step e s)))"
    using Cons.prems commute [of s e e'] by (intro view_run) (simp_all add: step_inv)
  finally show ?case by simp
qed simp

lemma move_to:
  assumes "inv s" "ok e" "list_all ok xs" "list_all ok ys" "list_all (\<lambda>e'. \<not> conflict e e') ys"
  shows "view (step e (fold step (xs @ ys) s)) = view (fold step (xs @ e # ys) s)"
  using move_last [of "fold step xs s" e ys] assms run_inv by simp

text \<open>
  A record of events that are noted before they take effect: \<open>pending i\<close> is the event that task \<open>i\<close> has
  noted and not yet performed. The state is that of the performed events in the order of the record.
\<close>

definition tracks :: "(nat \<Rightarrow> 'e option) \<Rightarrow> 'e list \<Rightarrow> 's \<Rightarrow> 's \<Rightarrow> bool" where
  "tracks pending record s0 s \<longleftrightarrow>
     (\<exists>items. map snd items = record \<and> list_all ok record \<and>
        view s = view (fold step (map snd (filter (\<lambda>x. fst x = None) items)) s0) \<and>
        (\<forall>i e. pending i = Some e \<longleftrightarrow> (Some i, e) \<in> set items) \<and>
        (\<forall>xs i e ys. items = xs @ (Some i, e) # ys \<longrightarrow>
           list_all (\<lambda>e'. \<not> conflict e e') (map snd ys) \<and> Some i \<notin> fst ` set ys))"

lemma tracksE:
  assumes "tracks pending record s0 s"
  obtains items where "map snd items = record" "list_all ok record"
    "view s = view (fold step (map snd (filter (\<lambda>x. fst x = None) items)) s0)"
    "\<And>i e. pending i = Some e \<longleftrightarrow> (Some i, e) \<in> set items"
    "\<And>xs i e ys. items = xs @ (Some i, e) # ys \<Longrightarrow> list_all (\<lambda>e'. \<not> conflict e e') (map snd ys) \<and> Some i \<notin> fst ` set ys"
  using assms unfolding tracks_def by blast

lemma tracks_start: "tracks (\<lambda>_. None) [] s s"
  unfolding tracks_def by (rule exI [of _ "[]"]) simp

lemma tracks_end:
  assumes "tracks (\<lambda>_. None) record s0 s"
  shows "view s = view (fold step record s0)"
  using assms
proof (rule tracksE)
  fix items
  assume items: "map snd items = record" "view s = view (fold step (map snd (filter (\<lambda>x. fst x = None) items)) s0)"
    "\<And>i e. None = Some e \<longleftrightarrow> (Some i, e) \<in> set items"
  have "fst x = None" if "x \<in> set items" for x using items(3) that by (cases x; cases "fst x") auto
  then have "filter (\<lambda>x. fst x = None) items = items" by (simp add: filter_id_conv)
  with items show ?thesis by simp
qed

lemma tracks_view: "tracks pending record s0 s \<Longrightarrow> view s' = view s \<Longrightarrow> tracks pending record s0 s'"
  by (simp add: tracks_def)

lemma tracks_record:
  assumes "tracks pending record s0 s" "pending i = None" "ok e" "\<And>j e'. pending j = Some e' \<Longrightarrow> \<not> conflict e' e"
  shows "tracks (pending(i := Some e)) (record @ [e]) s0 s"
proof -
  obtain items where items: "map snd items = record" "list_all ok record"
    "view s = view (fold step (map snd (filter (\<lambda>x. fst x = None) items)) s0)"
    "\<And>i e. pending i = Some e \<longleftrightarrow> (Some i, e) \<in> set items"
    "\<And>xs i e ys. items = xs @ (Some i, e) # ys \<Longrightarrow> list_all (\<lambda>e'. \<not> conflict e e') (map snd ys) \<and> Some i \<notin> fst ` set ys"
    using assms(1) by (rule tracksE) blast
  have fresh: "Some i \<notin> fst ` set items" using items(4) assms(2) by force
  have "list_all (\<lambda>e'. \<not> conflict e1 e') (map snd ys) \<and> Some j \<notin> fst ` set ys"
    if "items @ [(Some i, e)] = xs @ (Some j, e1) # ys" for xs j e1 ys
  proof (cases ys rule: rev_cases)
    case (snoc zs z)
    then have z: "items = xs @ (Some j, e1) # zs" "z = (Some i, e)" using that by auto
    then have "pending j = Some e1" "j \<noteq> i" using items(4) fresh by force+
    then show ?thesis using items(5) z snoc assms(4) by auto
  qed simp
  then show ?thesis
    unfolding tracks_def using items fresh assms(3)
    by (intro exI [of _ "items @ [(Some i, e)]"]) (auto simp: image_iff split: if_splits)
qed

lemma tracks_perform:
  assumes "tracks pending record s0 s" "pending i = Some e" "inv s0" "inv s"
  shows "tracks (pending(i := None)) record s0 (step e s)"
proof -
  let ?done = "\<lambda>items. map snd (filter (\<lambda>x. fst x = None) items)"
  obtain items where items: "map snd items = record" "list_all ok record"
    "view s = view (fold step (?done items) s0)"
    "\<And>i e. pending i = Some e \<longleftrightarrow> (Some i, e) \<in> set items"
    "\<And>xs i e ys. items = xs @ (Some i, e) # ys \<Longrightarrow> list_all (\<lambda>e'. \<not> conflict e e') (map snd ys) \<and> Some i \<notin> fst ` set ys"
    using assms(1) by (rule tracksE) blast
  obtain xs ys where split: "items = xs @ (Some i, e) # ys" using items(4) assms(2) split_list by metis
  have ys: "list_all (\<lambda>e'. \<not> conflict e e') (map snd ys)" "Some i \<notin> fst ` set ys" using items(5) split by blast+
  have xs: "Some i \<notin> fst ` set xs"
  proof
    assume "Some i \<in> fst ` set xs"
    then obtain e' as bs where "xs = as @ (Some i, e') # bs" by (auto dest: split_list)
    then show False using items(5) split by fastforce
  qed
  have oks: "list_all ok (?done xs)" "list_all ok (?done ys)" "ok e"
    using items(1,2) split by (fastforce simp: list_all_iff)+
  have done_ys: "list_all (\<lambda>e'. \<not> conflict e e') (?done ys)" using ys(1) by (auto simp: list_all_iff)
  have "view (step e s) = view (step e (fold step (?done items) s0))"
    using items(3) assms(3,4) oks split by (intro view_step) (auto intro: run_inv)
  also have "\<dots> = view (fold step (?done (xs @ (None, e) # ys)) s0)"
    using move_to [OF assms(3) oks(3,1,2) done_ys] split by simp
  finally have "view (step e s) = view (fold step (?done (xs @ (None, e) # ys)) s0)" .
  moreover have "list_all (\<lambda>e'. \<not> conflict e1 e') (map snd bs) \<and> Some j \<notin> fst ` set bs"
    if eq: "xs @ (None, e) # ys = as @ (Some j, e1) # bs" for as j e1 bs
  proof -
    consider us where "as = xs @ (None, e) # us" "ys = us @ (Some j, e1) # bs"
      | vs where "xs = as @ (Some j, e1) # vs" "bs = vs @ (None, e) # ys"
      using eq by (fastforce simp: append_eq_append_conv2 Cons_eq_append_conv append_eq_Cons_conv)
    then show ?thesis
    proof cases
      case 1
      then show ?thesis using items(5) [of "xs @ (Some i, e) # us" j e1 bs] split by simp
    next
      case 2
      then show ?thesis using items(5) [of as j e1 "vs @ (Some i, e) # ys"] split by auto
    qed
  qed
  ultimately show ?thesis
    unfolding tracks_def using items(1,2,4) split xs ys(2)
    by (intro exI [of _ "xs @ (None, e) # ys"]) (auto simp: image_iff)
qed

end

subsection \<open>Confined operations\<close>

definition confined :: "hasher \<Rightarrow> bytes set \<Rightarrow> (storage \<Rightarrow> 'r \<times> storage) \<Rightarrow> bool" where
  "confined h K f \<longleftrightarrow>
     (\<forall>s s'. sharded h s \<longrightarrow> sharded h s' \<longrightarrow> (\<forall>k \<in> K. lookup h s k = lookup h s' k) \<longrightarrow>
        fst (f s) = fst (f s') \<and> sharded h (snd (f s)) \<and> sharded h (snd (f s')) \<and>
        (\<forall>k \<in> K. lookup h (snd (f s)) k = lookup h (snd (f s')) k))"

lemma confined_entry [simp]: "k \<in> K \<Longrightarrow> confined h K (with_entry h k f)"
  by (simp add: confined_def sharded_store.find_entry sharded_store.wf_entry sharded_store.entry_result)

lemma confined_pure [simp]: "confined h K (Pair r)" "confined h K (\<lambda>s. (r, s))"
  by (simp_all add: confined_def)

lemma confined_if [simp]: "confined h K f \<Longrightarrow> confined h K g \<Longrightarrow> confined h K (\<lambda>s. if b then f s else g s)"
  by (cases b) simp_all

lemma confinedD:
  assumes "confined h K f" "sharded h s" "sharded h s'" "\<forall>k \<in> K. lookup h s k = lookup h s' k"
  shows "fst (f s) = fst (f s')" "sharded h (snd (f s))" "sharded h (snd (f s'))"
    "\<forall>k \<in> K. lookup h (snd (f s)) k = lookup h (snd (f s')) k"
  using assms unfolding confined_def by blast+

lemma confined_bind:
  assumes "confined h K f" "\<And>r. confined h K (g r)"
  shows "confined h K (\<lambda>s. case f s of (r, s') \<Rightarrow> g r s')"
  unfolding confined_def split_beta
proof (intro allI impI)
  fix s s'
  assume s: "sharded h s" "sharded h s'" "\<forall>k \<in> K. lookup h s k = lookup h s' k"
  note f = confinedD [OF assms(1) s]
  note g = confinedD [OF assms(2) f(2-4), of "fst (f s')"]
  show "fst (g (fst (f s)) (snd (f s))) = fst (g (fst (f s')) (snd (f s'))) \<and>
      sharded h (snd (g (fst (f s)) (snd (f s)))) \<and> sharded h (snd (g (fst (f s')) (snd (f s')))) \<and>
      (\<forall>k \<in> K. lookup h (snd (g (fst (f s)) (snd (f s)))) k = lookup h (snd (g (fst (f s')) (snd (f s')))) k)"
    unfolding f(1) using g by (intro conjI)
qed

lemma confined_results [simp]:
  "confined h K f \<Longrightarrow> confined h K (\<lambda>s. done_with (f s))"
  "confined h K f' \<Longrightarrow> confined h K (\<lambda>s. unless_panic (f' s))"
  using confined_bind [of h K f "\<lambda>_ s. (Some (), s)"] confined_bind [of h K f' "\<lambda>r s. (map_option (\<lambda>_. ()) r, s)"]
  by (simp_all add: done_with_def unless_panic_def split_beta)

lemma confined_fold:
  assumes "\<And>x. x \<in> set xs \<Longrightarrow> confined h K (f x)"
  shows "confined h K (\<lambda>s. (r, fold (\<lambda>x s. snd (f x s)) xs s))"
  using assms
proof (induction xs)
  case (Cons x xs)
  have "confined h K (\<lambda>s. case f x s of (_, s') \<Rightarrow> (r, fold (\<lambda>x s. snd (f x s)) xs s'))"
    using Cons by (intro confined_bind) auto
  then show ?case by (simp add: split_beta)
qed simp

lemma confined_rename: "{j, j'} \<subseteq> K \<Longrightarrow> confined h K (\<lambda>s. cs_rename h E j j' s)"
  unfolding cs_rename_def
proof (rule confined_bind)
  fix e :: "CacheValue option"
  assume "{j, j'} \<subseteq> K"
  then show "confined h K (\<lambda>s. case e of Some v \<Rightarrow>
      if \<not> value_is_expired (now E) v then with_entry h j' (\<lambda>_. (Inr (), Some v)) s else (Inl ''ERR no such key'', s)
    | None \<Rightarrow> (Inl ''ERR no such key'', s))"
    by (cases e; cases "value_is_expired (now E) (the e)") simp_all
qed auto

lemma confined_rpoplpush: "{j, j'} \<subseteq> K \<Longrightarrow> confined h K (\<lambda>s. cs_rpoplpush h E j j' s)"
  unfolding cs_rpoplpush_def
proof (rule confined_bind)
  assume K: "{j, j'} \<subseteq> K"
  then show "confined h K (rpoplpush_pop h E j)" by (auto simp: rpoplpush_pop_def)
  have push: "confined h K (\<lambda>s. case rpoplpush_push h E j' v s of (Inl err, s2) \<Rightarrow> (Inl err, s2) | (Inr _, s2) \<Rightarrow> (Inr (Some v), s2))" for v
  proof (rule confined_bind)
    show "confined h K (rpoplpush_push h E j' v)" using K by (auto simp: rpoplpush_push_def)
    show "confined h K (\<lambda>s2. case r of Inl err \<Rightarrow> (Inl err, s2) | Inr _ \<Rightarrow> (Inr (Some v), s2))" for r :: "unit result"
      by (cases r) simp_all
  qed
  show "confined h K (\<lambda>s1. case r of Inl err \<Rightarrow> (Inl err, s1) | Inr None \<Rightarrow> (Inr None, s1)
      | Inr (Some v) \<Rightarrow> (case rpoplpush_push h E j' v s1 of (Inl err, s2) \<Rightarrow> (Inl err, s2) | (Inr _, s2) \<Rightarrow> (Inr (Some v), s2)))"
    for r :: "bytes option result"
    using push by (cases r; cases "projr r") simp_all
qed

lemma confined_smove: "{j, j'} \<subseteq> K \<Longrightarrow> confined h K (\<lambda>s. cs_smove h E j j' m s)"
  unfolding cs_smove_def
proof (rule confined_bind)
  assume K: "{j, j'} \<subseteq> K"
  then show "confined h K (smove_take h E j m)" by (auto simp: smove_take_def)
  have put: "confined h K (\<lambda>s. case smove_put h E j' m s of (Inl err, s2) \<Rightarrow> (Inl err, s2) | (Inr _, s2) \<Rightarrow> (Inr True, s2))"
  proof (rule confined_bind)
    show "confined h K (smove_put h E j' m)" using K by (auto simp: smove_put_def)
    show "confined h K (\<lambda>s2. case r of Inl err \<Rightarrow> (Inl err, s2) | Inr _ \<Rightarrow> (Inr True, s2))" for r :: "unit result"
      by (cases r) simp_all
  qed
  show "confined h K (\<lambda>s1. case r of Inl err \<Rightarrow> (Inl err, s1) | Inr True \<Rightarrow>
        (case smove_put h E j' m s1 of (Inl err, s2) \<Rightarrow> (Inl err, s2) | (Inr _, s2) \<Rightarrow> (Inr True, s2))
      | Inr False \<Rightarrow> (Inr False, s1))"
    for r :: "bool result"
    using put by (cases r; cases "projr r") simp_all
qed

lemma confined_set_expiry_after: "j \<in> K \<Longrightarrow> confined h K (\<lambda>s. set_expiry_after h E j d s)"
  by (cases "instant_add (now E) d") (auto simp: set_expiry_after_def cs_set_expiry_def)

lemma confined_mset_loop: "fst ` set ps \<subseteq> K \<Longrightarrow> confined h K (\<lambda>s. (r, mset_loop h E ps s))"
  unfolding mset_loop_def case_prod_unfold
  by (rule confined_fold) (auto simp: cs_set_def)

lemma confined_hmset_loop: "j \<in> K \<Longrightarrow> confined h K (\<lambda>s. (r, hmset_loop h j ps s))"
  unfolding hmset_loop_def case_prod_unfold
  by (rule confined_fold) (simp add: cs_hset_def)

lemma sharded_flushall: "sharded h s \<Longrightarrow> sharded h (cs_flushall s)"
  by (auto simp: sharded_def cs_flushall_def)

lemma confined_flushall: "confined h K (\<lambda>s. (r, cs_flushall s))"
proof -
  have "lookup h (cs_flushall s) k = None" if "sharded h s" for s k
    using that shard_index_less [of h k] by (simp add: lookup_def shard_def cs_flushall_def sharded_length)
  then show ?thesis by (simp add: confined_def sharded_flushall)
qed

lemmas confined_ops = confined_rename confined_rpoplpush confined_smove confined_set_expiry_after
  confined_mset_loop confined_hmset_loop confined_flushall

lemma apply_write_command_confined: "confined h (touched_keys cmd) (\<lambda>s. apply_write_command h E cmd s)"
proof (cases cmd)
  case (C_String c)
  then show ?thesis by (cases c) (auto simp: confined_ops entry_ops)
next
  case (C_Hash c)
  then show ?thesis by (cases c) (auto simp: confined_ops entry_ops)
next
  case (C_List c)
  then show ?thesis by (cases c) (auto simp: confined_ops entry_ops)
next
  case (C_Set c)
  then show ?thesis by (cases c) (auto simp: confined_ops entry_ops)
next
  case (C_ZSet c)
  then show ?thesis by (cases c) (auto simp: confined_ops entry_ops)
next
  case (C_Key c)
  then show ?thesis by (cases c) (auto simp: confined_ops entry_ops Let_def)
next
  case (C_Stream c)
  then show ?thesis by (cases c) (auto simp: entry_ops)
qed simp_all

subsection \<open>Serving commands\<close>

definition conflict :: "env \<times> Command \<Rightarrow> env \<times> Command \<Rightarrow> bool" where
  "conflict w w' \<longleftrightarrow> touched_keys (snd w) \<inter> touched_keys (snd w') \<noteq> {}"

lemma confined_effect: "confined h K f \<Longrightarrow> confined h K (\<lambda>s. ((), snd (f s)))"
  using confined_bind [of h K f "\<lambda>_ s. ((), s)"] by (simp add: split_beta)

lemma serve_confined: "confined h (touched_keys cmd) (\<lambda>s. ((), serve h E cmd s))"
proof (cases "replay_differs cmd")
  case False
  then show ?thesis
    using confined_effect [OF apply_write_command_confined [of h cmd E]] by (simp add: serve_applies)
next
  case True
  have del: "confined h {key} (\<lambda>s. ((), snd (cs_delete h key s)))" for key
    unfolding cs_delete_def by (rule confined_effect) simp
  from True show ?thesis
    by (cases cmd rule: replay_differs.cases) (auto simp: serve_def Let_def split_beta intro: del)
qed

lemma serve_sharded: "sharded h s \<Longrightarrow> sharded h (serve h E cmd s)"
  using confinedD(2) [OF serve_confined, of h s s cmd E] by simp

lemma serve_agree:
  "sharded h s \<Longrightarrow> sharded h s' \<Longrightarrow> \<forall>k \<in> touched_keys cmd. lookup h s k = lookup h s' k \<Longrightarrow> k \<in> touched_keys cmd \<Longrightarrow>
     lookup h (serve h E cmd s) k = lookup h (serve h E cmd s') k"
  using confinedD(4) [OF serve_confined, of h s s' cmd E] by simp

lemma serve_view:
  assumes "sharded h s" "sharded h s'" "lookup h s = lookup h s'"
  shows "lookup h (serve h E cmd s) = lookup h (serve h E cmd s')"
proof
  fix k
  show "lookup h (serve h E cmd s) k = lookup h (serve h E cmd s') k"
    using serve_agree [OF assms(1,2)] serve_framed [of k cmd h _ E] assms
    by (cases "k \<in> touched_keys cmd") (simp_all add: framed_def)
qed

lemma serve_commute:
  assumes "sharded h s" "touched_keys c \<inter> touched_keys c' = {}"
  shows "lookup h (serve h E c (serve h E' c' s)) = lookup h (serve h E' c' (serve h E c s))"
proof
  fix k
  have frame: "lookup h (serve h F d t) j = lookup h t j" if "sharded h t" "j \<notin> touched_keys d" for F d t j
    using serve_framed [of j d h t F] that by (simp add: framed_def)
  have left: "lookup h (serve h E c (serve h E' c' s)) k = lookup h (serve h E c s) k" if "k \<in> touched_keys c"
    using that assms by (intro serve_agree) (auto simp: serve_sharded intro!: frame)
  have right: "lookup h (serve h E' c' (serve h E c s)) k = lookup h (serve h E' c' s) k" if "k \<in> touched_keys c'"
    using that assms by (intro serve_agree) (auto simp: serve_sharded intro!: frame)
  show "lookup h (serve h E c (serve h E' c' s)) k = lookup h (serve h E' c' (serve h E c s)) k"
    using left right frame assms serve_sharded [OF assms(1)] by (metis disjoint_iff)
qed

interpretation served: commuting_events "\<lambda>(E, c). serve h E c" "\<lambda>_. True" "sharded h" "lookup h" conflict for h
proof unfold_locales
  fix s s' and w w' :: "env \<times> Command"
  assume s: "sharded h s"
  show "sharded h ((case w of (E, c) \<Rightarrow> serve h E c) s)" using s by (simp add: serve_sharded split_beta)
  show "lookup h ((case w of (E, c) \<Rightarrow> serve h E c) s) = lookup h ((case w of (E, c) \<Rightarrow> serve h E c) s')"
    if "sharded h s'" "lookup h s = lookup h s'"
    using serve_view [OF s that] by (simp add: split_beta)
  show "lookup h ((case w of (E, c) \<Rightarrow> serve h E c) ((case w' of (E, c) \<Rightarrow> serve h E c) s)) =
      lookup h ((case w' of (E, c) \<Rightarrow> serve h E c) ((case w of (E, c) \<Rightarrow> serve h E c) s))" if "\<not> conflict w w'"
    using serve_commute [OF s] that by (simp add: split_beta conflict_def)
qed

end
