(* ===== verification/System.thy ===== *)
theory System
  imports Server_Properties Commutation
begin

text \<open>
  The running system: the shared server and any number of connections. A step is an accepted
  connection, a read of one connection, a message delivered to one, the end of one, or a turn
  of the task that removes expired keys. The reachable states are those of every schedule of
  such steps.
\<close>

record system =
  sys_server :: server
  sys_conns :: "nat \<Rightarrow> connection option"

definition cleanup_tick :: "env \<Rightarrow> server \<Rightarrow> server" where
  "cleanup_tick E sv = sv\<lparr>sv_storage := cs_cleanup_expired E (sv_storage sv)\<rparr>"

inductive system_step :: "(proto_error \<Rightarrow> bytes) \<Rightarrow> config \<Rightarrow> system \<Rightarrow> system \<Rightarrow> bool"
  for show_error cfg where
  accept_step: "sys_conns sys i = None \<Longrightarrow>
    system_step show_error cfg sys (sys\<lparr>sys_conns := (sys_conns sys)(i \<mapsto> connection_new)\<rparr>)"
| read_step: "sys_conns sys i = Some c \<Longrightarrow>
    on_read show_error cfg E n chunk (sys_server sys) c = (Conn_open, j, sv', c') \<Longrightarrow>
    system_step show_error cfg sys \<lparr>sys_server = sv', sys_conns = (sys_conns sys)(i \<mapsto> c')\<rparr>"
| end_step: "sys_conns sys i = Some c \<Longrightarrow>
    on_read show_error cfg E n chunk (sys_server sys) c = (e, j, sv', c') \<Longrightarrow> e \<noteq> Conn_open \<Longrightarrow>
    system_step show_error cfg sys \<lparr>sys_server = close_connection sv' c', sys_conns = (sys_conns sys)(i := None)\<rparr>"
| message_step: "sys_conns sys i = Some c \<Longrightarrow> on_message (sys_server sys) c = (sv', c') \<Longrightarrow>
    system_step show_error cfg sys \<lparr>sys_server = sv', sys_conns = (sys_conns sys)(i \<mapsto> c')\<rparr>"
| cleanup_step:
    "system_step show_error cfg sys (sys\<lparr>sys_server := cleanup_tick E (sys_server sys)\<rparr>)"

inductive reachable :: "(proto_error \<Rightarrow> bytes) \<Rightarrow> config \<Rightarrow> server \<Rightarrow> system \<Rightarrow> bool"
  for show_error cfg sv0 where
  reachable_start: "reachable show_error cfg sv0 \<lparr>sys_server = sv0, sys_conns = Map.empty\<rparr>"
| reachable_step: "reachable show_error cfg sv0 sys \<Longrightarrow> system_step show_error cfg sys sys' \<Longrightarrow>
    reachable show_error cfg sv0 sys'"

inductive_cases system_stepE: "system_step show_error cfg sys sys'"

subsection \<open>The shared invariant\<close>

definition server_inv :: "config \<Rightarrow> server \<Rightarrow> bool" where
  "server_inv cfg sv \<longleftrightarrow> sharded (cfg_hash cfg) (sv_storage sv) \<and> length (sv_versions sv) = SHARD_COUNT"

definition system_inv :: "config \<Rightarrow> system \<Rightarrow> bool" where
  "system_inv cfg sys \<longleftrightarrow> server_inv cfg (sys_server sys) \<and>
     (\<forall>i c. sys_conns sys i = Some c \<longrightarrow> tx_ok (cn_state c))"

lemma serve_all_sharded: "sharded h s \<Longrightarrow> sharded h (serve_all h ws s)"
  using served.run_inv by (simp add: serve_all_def list_all_iff)

lemma logged_inv: "logged cfg sv ws sv' \<Longrightarrow> server_inv cfg sv \<Longrightarrow> server_inv cfg sv'"
  by (simp add: server_inv_def logged_def logs_agree_def serve_all_sharded versions_log_all)

lemma execute_inv:
  assumes "tx_ok conn" "server_inv cfg sv"
  shows "server_inv cfg (fst (snd (execute_command cfg E cmd sv conn)))"
  using execute_logged [OF assms(1)] logged_inv assms(2) by blast

lemma answer_inv:
  assumes "tx_ok conn" "server_inv cfg sv" "answer show_error cfg E v sv conn = (r, sv', conn')"
  shows "tx_ok conn'" "server_inv cfg sv'"
  using tx_ok_execute [OF assms(1), of cfg E _ sv] execute_inv [OF assms(1,2), of E] assms
  by (auto simp: answer_def split: sum.splits) (metis fst_conv snd_conv)+

lemma hoist_tx_ok: "hoist_receiver conn rx = (conn', rx') \<Longrightarrow> tx_ok conn \<Longrightarrow> tx_ok conn'"
  by (auto simp: hoist_receiver_def tx_ok_def split: if_splits)

lemma drain_inv:
  "drain show_error cfg E i sv c = (e, j, sv', c') \<Longrightarrow> tx_ok (cn_state c) \<Longrightarrow> server_inv cfg sv \<Longrightarrow>
     tx_ok (cn_state c') \<and> server_inv cfg sv'"
proof (induction i sv c "(e, j, sv', c')" rule: drain_rule)
  case (crash sv c v st)
  then show ?case using answer_inv [of "cn_state c" cfg sv show_error "E j" v None sv' st] by auto
next
  case (step i sv c v rest r sv1 st st' rx)
  then show ?case
    using answer_inv [of "cn_state c" cfg sv show_error "E i" v "Some r" sv1 st] hoist_tx_ok [OF step(4)] by auto
qed auto

lemma on_read_inv:
  assumes "on_read show_error cfg E i chunk sv c = (e, j, sv', c')" "tx_ok (cn_state c)" "server_inv cfg sv"
  shows "tx_ok (cn_state c') \<and> server_inv cfg sv'"
  using assms drain_inv [of show_error cfg E i sv "c\<lparr>cn_buffer := cn_buffer c @ chunk\<rparr>"]
  by (auto simp: on_read_def split: if_splits prod.splits conn_end.splits)

lemma on_message_inv:
  assumes "on_message sv c = (sv', c')" "tx_ok (cn_state c)" "server_inv cfg sv"
  shows "tx_ok (cn_state c') \<and> server_inv cfg sv'"
  using assms by (auto simp: on_message_def server_inv_def split: option.splits prod.splits)

lemma cleanup_sharded: "sharded h s \<Longrightarrow> sharded h (cs_cleanup_expired E s)"
  by (auto simp: sharded_def cs_cleanup_expired_def distinct_map_filter)

lemma system_step_inv:
  assumes "system_step show_error cfg sys sys'" "system_inv cfg sys"
  shows "system_inv cfg sys'"
  using assms
proof (cases rule: system_step.cases)
  case (accept_step i)
  then show ?thesis using assms(2) by (auto simp: system_inv_def connection_new_def tx_ok_new)
next
  case (read_step i c E n chunk j sv' c')
  then show ?thesis using assms(2) on_read_inv [OF read_step(3)] by (auto simp: system_inv_def)
next
  case (end_step i c E n chunk e j sv' c')
  then show ?thesis using assms(2) on_read_inv [OF end_step(3)]
    by (auto simp: system_inv_def close_connection_def server_inv_def split: if_splits)
next
  case (message_step i c sv' c')
  then show ?thesis using assms(2) on_message_inv [OF message_step(3)] by (auto simp: system_inv_def)
next
  case (cleanup_step E)
  then show ?thesis using assms(2) by (auto simp: system_inv_def server_inv_def cleanup_tick_def cleanup_sharded)
qed

lemma reachable_inv:
  assumes "reachable show_error cfg sv0 sys" "server_inv cfg sv0"
  shows "system_inv cfg sys"
  using assms
proof (induction rule: reachable.induct)
  case reachable_start
  then show ?case by (simp add: system_inv_def)
next
  case (reachable_step sys sys')
  then show ?case using system_step_inv by blast
qed

text \<open>
  (C2) In every reachable state, whatever the clients send and in whatever order their reads,
  messages and disconnections and the cleanup interleave, every key is stored once, in the
  shard its hash selects; there is a version counter for each shard; and no connection's queue
  holds a transaction command.
\<close>

theorem reachable_states_well_formed:
  assumes "reachable show_error cfg sv0 sys" "server_inv cfg sv0"
  shows "system_inv cfg sys"
  using assms by (rule reachable_inv)

theorem reachable_states_well_formed_witness:
  "system_inv sample_cfg \<lparr>sys_server = server_new, sys_conns = [0 \<mapsto> connection_new]\<rparr>"
proof (rule reachable_states_well_formed)
  have "system_step (\<lambda>_. ''?'') sample_cfg \<lparr>sys_server = server_new, sys_conns = Map.empty\<rparr>
      (\<lparr>sys_server = server_new, sys_conns = Map.empty\<rparr>\<lparr>sys_conns := (sys_conns \<lparr>sys_server = server_new, sys_conns = Map.empty\<rparr>)(0 \<mapsto> connection_new)\<rparr>)"
    by (rule accept_step) simp
  then show "reachable (\<lambda>_. ''?'') sample_cfg server_new \<lparr>sys_server = server_new, sys_conns = [0 \<mapsto> connection_new]\<rparr>"
    using reachable_step [OF reachable_start] by simp
  show "server_inv sample_cfg server_new" by (simp add: server_inv_def server_new_def versions_new_def)
qed

subsection \<open>Messages\<close>

definition registered :: "server \<Rightarrow> bytes \<Rightarrow> nat list" where
  "registered sv ch =
     filter (\<lambda>tx. \<not> is_closed sv tx) (case map_of (sv_pubsub sv) ch of None \<Rightarrow> [] | Some l \<Rightarrow> l)"

definition mail_of :: "nat \<Rightarrow> (nat \<times> PubSubMessage) list \<Rightarrow> PubSubMessage list" where
  "mail_of t mail = map snd (filter (\<lambda>e. fst e = t) mail)"

lemma mail_of_append [simp]: "mail_of t (l @ l') = mail_of t l @ mail_of t l'"
  by (simp add: mail_of_def)

lemma mail_of_copies [simp]: "mail_of t (map (\<lambda>tx. (tx, m)) l) = replicate (count_list l t) m"
  by (induction l) (auto simp: mail_of_def)


text \<open>Taking a message: the oldest of the receiver, and nothing of the others.\<close>

lemma take_mail_oldest:
  "case take_mail rx mail of
     None \<Rightarrow> mail_of rx mail = []
   | Some (m, rest) \<Rightarrow> mail_of rx mail = m # mail_of rx rest \<and> (t \<noteq> rx \<longrightarrow> mail_of t rest = mail_of t mail)"
proof (induction rx mail rule: take_mail.induct)
  case (1 rx)
  then show ?case by (simp add: mail_of_def)
next
  case (2 rx tx m' ms)
  show ?case
  proof (cases "tx = rx")
    case True
    then show ?thesis by (simp add: mail_of_def)
  next
    case False
    then show ?thesis using "2.IH" by (cases "take_mail rx ms") (auto simp: mail_of_def)
  qed
qed

text \<open>\<open>n\<close> turns of the loop that find a message or nothing to do.\<close>

fun deliver :: "nat \<Rightarrow> server \<Rightarrow> connection \<Rightarrow> server \<times> connection" where
  "deliver 0 sv c = (sv, c)"
| "deliver (Suc n) sv c = (case on_message sv c of (sv', c') \<Rightarrow> deliver n sv' c')"

text \<open>
  (C22) Every message is delivered: a subscribed connection that is given as many turns as it has
  messages waiting writes them all to its socket, in the order they were published, each once;
  none is left, and the messages of the other connections are untouched.
\<close>

theorem mailbox_delivered:
  assumes "cn_rx c = Some rx"
  shows "case deliver (length (mail_of rx (sv_mail sv))) sv c of (sv', c') \<Rightarrow>
    cn_out c' = cn_out c @ concat (map format_pubsub_message (mail_of rx (sv_mail sv))) \<and>
    mail_of rx (sv_mail sv') = [] \<and> (t \<noteq> rx \<longrightarrow> mail_of t (sv_mail sv') = mail_of t (sv_mail sv))"
  using assms
proof (induction "length (mail_of rx (sv_mail sv))" arbitrary: sv c)
  case (Suc n)
  obtain m rest where t: "take_mail rx (sv_mail sv) = Some (m, rest)" "mail_of rx (sv_mail sv) = m # mail_of rx rest"
    "t \<noteq> rx \<longrightarrow> mail_of t rest = mail_of t (sv_mail sv)"
    using take_mail_oldest [of rx "sv_mail sv" t] Suc.hyps(2) by (cases "take_mail rx (sv_mail sv)") auto
  let ?sv = "sv\<lparr>sv_mail := rest\<rparr>" and ?c = "c\<lparr>cn_out := cn_out c @ format_pubsub_message m\<rparr>"
  have "on_message sv c = (?sv, ?c)" using Suc.prems t(1) by (simp add: on_message_def)
  moreover have "n = length (mail_of rx (sv_mail ?sv))" using Suc.hyps(2) t(2) by simp
  from Suc.hyps(1) [OF this, of ?c] Suc.prems t(2,3)
  have "case deliver (length (mail_of rx (sv_mail ?sv))) ?sv ?c of (sv', c') \<Rightarrow>
      cn_out c' = cn_out c @ format_pubsub_message m @ concat (map format_pubsub_message (mail_of rx rest)) \<and>
      mail_of rx (sv_mail sv') = [] \<and> (t \<noteq> rx \<longrightarrow> mail_of t (sv_mail sv') = mail_of t (sv_mail sv))"
    by (auto split: prod.splits)
  ultimately show ?case using t(2) by (simp split: prod.splits)
qed simp

theorem mailbox_delivered_witness:
  "cn_out (snd (deliver 1 (server_new\<lparr>sv_mail := [(4, \<lparr>pm_channel = ''c'', pm_payload = ''hi''\<rparr>)]\<rparr>)
     (connection_new\<lparr>cn_rx := Some 4\<rparr>))) = format_pubsub_message \<lparr>pm_channel = ''c'', pm_payload = ''hi''\<rparr>"
  using mailbox_delivered [of "connection_new\<lparr>cn_rx := Some 4\<rparr>" 4
      "server_new\<lparr>sv_mail := [(4, \<lparr>pm_channel = ''c'', pm_payload = ''hi''\<rparr>)]\<rparr>"]
  by (simp add: mail_of_def connection_new_def split_beta del: deliver.simps)

text \<open>
  UNSUBSCRIBE does not stop delivery: it forgets the channel on the connection and answers,
  but a later PUBLISH on the channel still sends to it, with the same count.
\<close>

theorem unsubscribe_keeps_delivering:
  "case unsubscribe_loop [ch] sv sub of (out, sv', sub') \<Rightarrow>
     ch \<notin> set (sub_channels sub') \<and> sub_tx sub' = sub_tx sub \<and>
     publish (is_closed sv') ch payload (sv_pubsub sv') = publish (is_closed sv) ch payload (sv_pubsub sv)"
proof -
  have "is_closed (sv\<lparr>sv_pubsub := reg\<rparr>) = is_closed sv" for reg by (simp add: is_closed_def fun_eq_iff)
  then show ?thesis by (simp add: Let_def publish_prune)
qed

end
