(* ===== verification/Client.thy ===== *)
theory Client
  imports Keys_Properties Protocol_Properties Server_Properties
begin

text \<open>
  The client library (client.rs). The socket is the list of reads still to come, each the bytes
  one read returns, an empty one at the end of the stream; \<open>cap\<close> is what the client can reserve.
  A call that waits for bytes that never come ends in \<open>Waiting\<close>.
\<close>

datatype client_end =
    Got Response
  | Parse_error proto_error
  | Closed_early
  | Waiting
  | Client_panic

fun read_response :: "nat \<Rightarrow> bytes list \<Rightarrow> bytes \<Rightarrow> client_end \<times> bytes \<times> bytes list" where
  "read_response cap reads buffer =
     (case (if buffer = [] then parsed.Failed (Msg []) else parse_resp cap buffer) of
        Panicked \<Rightarrow> (Client_panic, buffer, reads)
      | Parsed _ rest \<Rightarrow>
          (let consumed = length buffer - length rest;
               frame = take consumed buffer;
               left = drop consumed buffer
           in (case parse_response cap frame of
                 Parsed r _ \<Rightarrow> (Got r, left, reads)
               | parsed.Failed e \<Rightarrow> (Parse_error e, left, reads)
               | Panicked \<Rightarrow> (Client_panic, left, reads)))
      | parsed.Failed _ \<Rightarrow>
          (case reads of
             [] \<Rightarrow> (Waiting, buffer, [])
           | chunk # reads' \<Rightarrow>
               if chunk = [] then (Closed_early, buffer, reads')
               else read_response cap reads' (buffer @ chunk)))"

declare read_response.simps [simp del]

text \<open>What the calls make of a reply: an error is its text.\<close>

datatype client_error = Refused bytes | Ended client_end

definition Unexpected :: "bytes \<Rightarrow> client_error" where
  "Unexpected name = Refused (''Unexpected response for '' @ name)"

fun get_result :: "client_end \<Rightarrow> client_error + bytes option" where
  "get_result (Got r) =
     (case r of R_Value v \<Rightarrow> Inr (Some v) | R_NotFound \<Rightarrow> Inr None | R_Null \<Rightarrow> Inr None
      | R_Error e \<Rightarrow> Inl (Refused e) | _ \<Rightarrow> Inl (Unexpected ''GET''))"
| "get_result e = Inl (Ended e)"

fun set_result :: "client_end \<Rightarrow> client_error + unit" where
  "set_result (Got r) =
     (case r of R_Ok \<Rightarrow> Inr () | R_Error e \<Rightarrow> Inl (Refused e) | _ \<Rightarrow> Inl (Unexpected ''SET''))"
| "set_result e = Inl (Ended e)"

fun delete_result :: "client_end \<Rightarrow> client_error + bool" where
  "delete_result (Got r) =
     (case r of R_Integer n \<Rightarrow> Inr (n > 0) | R_Ok \<Rightarrow> Inr True | R_NotFound \<Rightarrow> Inr False | R_Null \<Rightarrow> Inr False
      | R_Error e \<Rightarrow> Inl (Refused e) | _ \<Rightarrow> Inl (Unexpected ''DELETE''))"
| "delete_result e = Inl (Ended e)"

text \<open>The commands the calls send; a TTL is a duration in nanoseconds.\<close>

definition get_command :: "bytes \<Rightarrow> Command" where
  "get_command key = C_String (Get key)"

definition set_with_ttl_command :: "bytes \<Rightarrow> bytes \<Rightarrow> nat option \<Rightarrow> Command" where
  "set_with_ttl_command key v ttl =
     C_String (Set key v (map_option (\<lambda>d. as_u32 (int (d div 1000000000))) ttl))"

definition delete_command :: "bytes \<Rightarrow> Command" where
  "delete_command key = C_String (Delete key)"

subsection \<open>One reply, however it arrives\<close>

lemma parse_prefix:
  assumes "parse_resp cap (buf @ later) = Parsed v []" "later \<noteq> []"
  shows "\<exists>e. parse_resp cap buf = parsed.Failed e"
proof (cases "parse_resp cap buf")
  case (Parsed w r)
  from parse_extend(1) [OF this, of later] show ?thesis using assms by simp
next
  case Panicked
  from parse_panic_extend(1) [OF this, of later] show ?thesis using assms by simp
qed simp

lemma read_response_frame:
  assumes "parse_resp cap (buf @ concat chunks) = Parsed v []" "[] \<notin> set chunks"
    and r: "parse_response cap (buf @ concat chunks) = Parsed r []"
  shows "read_response cap (chunks @ after) buf = (Got r, [], after)"
  using assms
proof (induction chunks arbitrary: buf)
  case Nil
  then show ?case by (auto simp: read_response.simps [of cap after])
next
  case (Cons chunk chunks)
  from Cons.prems(1,2) have "\<exists>e. parse_resp cap buf = parsed.Failed e"
    by (intro parse_prefix [of cap buf "chunk @ concat chunks"]) auto
  then have "read_response cap ((chunk # chunks) @ after) buf = read_response cap (chunks @ after) (buf @ chunk)"
    using Cons.prems(2) by (auto simp: read_response.simps [of cap "chunk # chunks @ after"])
  also have "\<dots> = (Got r, [], after)" using Cons.IH [of "buf @ chunk"] Cons.prems by simp
  finally show ?case .
qed

text \<open>The replies the client can be sent, and what it reads them as.\<close>

fun simple_reply :: "Response \<Rightarrow> bool" where
  "simple_reply (R_Value bs) \<longleftrightarrow> length bs < 2 ^ 63"
| "simple_reply R_Ok \<longleftrightarrow> True"
| "simple_reply R_NotFound \<longleftrightarrow> True"
| "simple_reply R_Null \<longleftrightarrow> True"
| "simple_reply (R_Integer n) \<longleftrightarrow> in_i64 n"
| "simple_reply (R_Error e) \<longleftrightarrow> line_ok e"
| "simple_reply _ \<longleftrightarrow> False"

definition as_read :: "Response \<Rightarrow> Response" where
  "as_read r = (if r = R_Null then R_NotFound else r)"

lemma line_ok_OK: "line_ok ''OK''"
  by (simp add: line_ok_def CRLF_def utf8_head_def)

lemma serialized_reply:
  assumes "simple_reply r"
  shows "parse_resp cap (serialize_response r) = Parsed (to_resp r) [] \<and>
    parse_response cap (serialize_response r) = Parsed (as_read r) []"
proof -
  have "resp_ok cap (to_resp r)" using assms by (cases r) (simp_all add: line_ok_OK)
  from write_resp_parses [OF this, of "[]"] have "parse_resp cap (serialize_response r) = Parsed (to_resp r) []"
    using assms by (cases r) (simp_all add: serialize_response_def serialize_resp_def)
  then show ?thesis using assms by (cases r) (simp_all add: parse_response_def as_read_def)
qed

lemma read_reply:
  assumes "simple_reply r" "concat chunks = serialize_response r" "[] \<notin> set chunks"
  shows "read_response cap (chunks @ after) [] = (Got (as_read r), [], after)"
  using read_response_frame [of cap "[]" chunks "to_resp r" "as_read r" after] serialized_reply [OF assms(1), of cap] assms(2,3)
  by simp

subsection \<open>A call over a connection\<close>

text \<open>
  The connection is quiet: nothing is half read, no transaction is open, and the command is not
  turned away because of the cluster or because of the user.
\<close>

definition admitted :: "config \<Rightarrow> env \<Rightarrow> Command \<Rightarrow> server \<Rightarrow> connection \<Rightarrow> bool" where
  "admitted cfg E cmd sv c \<longleftrightarrow> cn_buffer c = [] \<and> \<not> in_multi (conn_tx (cn_state c)) \<and>
     cluster_gate cfg cmd = None \<and> auth_gate E (sv_auth sv) (authed_user (cn_state c)) cmd = None"

definition served_on :: "config \<Rightarrow> env \<Rightarrow> Command \<Rightarrow> server \<Rightarrow> server" where
  "served_on cfg E cmd sv = (if is_write_command cmd then log_write cfg E cmd sv else sv)"

lemma answer_string:
  assumes "admitted cfg (E 0) (C_String cmd) sv c" "parse_command (E 0) v = Inr (C_String cmd)"
    and "exec_string (cfg_hash cfg) (E 0) cmd (sv_storage sv) = (r, s)"
  shows "answer show_error cfg E v sv (cn_state c) =
    (r, (served_on cfg (E 0) (C_String cmd) sv)\<lparr>sv_storage := s\<rparr>, cn_state c)"
  using assms
  by (simp add: answer_def execute_command_def execute_with_def admitted_def dispatch_def served_on_def)

lemma drain_empty: "cn_buffer c = [] \<Longrightarrow> drain show_error cfg E i sv c = (Conn_open, i, sv, c)"
  by (simp add: drain.simps)

lemma serve_command:
  assumes "admitted cfg (E i 0) (C_String cmd) sv c" "client_command cap (C_String cmd)"
    and cap: "capacity_limit (E i 0) = cap" "5 \<le> cap"
    and "exec_string (cfg_hash cfg) (E i 0) cmd (sv_storage sv) = (Some r, s)"
  shows "\<exists>c'. on_read show_error cfg E i (serialize_command (C_String cmd)) sv c =
      (Conn_open, Suc i, (served_on cfg (E i 0) (C_String cmd) sv)\<lparr>sv_storage := s\<rparr>, c') \<and>
    cn_buffer c' = [] \<and> cn_out c' = cn_out c @ serialize_response r \<and>
    conn_tx (cn_state c') = conn_tx (cn_state c) \<and> authed_user (cn_state c') = authed_user (cn_state c)"
proof -
  let ?cmd = "C_String cmd"
  let ?v = "command_to_resp ?cmd"
  have sent: "resp_ok cap ?v" by (rule command_to_resp_ok [OF assms(2) cap(2)])
  have frame: "parse_resp cap (serialize_command ?cmd) = Parsed ?v []"
    using write_resp_parses [OF sent, of "[]"] by (simp add: serialize_command_def serialize_resp_def)
  have ne: "serialize_command ?cmd \<noteq> []" using frame by auto
  have cmd: "parse_command (E i 0) ?v = Inr ?cmd" by (rule client_command_parses [OF assms(2) cap(2)])
  obtain st rx where h: "hoist_receiver (cn_state c) (cn_rx c) = (st, rx)" by (cases "hoist_receiver (cn_state c) (cn_rx c)")
  then have st: "conn_tx st = conn_tx (cn_state c)" "authed_user st = authed_user (cn_state c)"
    by (auto simp: hoist_receiver_def split: if_splits)
  have "drain show_error cfg E i sv (c\<lparr>cn_buffer := serialize_command ?cmd\<rparr>) =
     (Conn_open, Suc i, (served_on cfg (E i 0) ?cmd sv)\<lparr>sv_storage := s\<rparr>,
      c\<lparr>cn_buffer := [], cn_state := st, cn_rx := rx, cn_out := cn_out c @ serialize_response r\<rparr>)"
    using answer_string [where E = "E i", OF assms(1) cmd assms(5), of show_error] frame ne h cap(1)
    by (simp add: drain.simps [of _ _ _ _ _ "c\<lparr>cn_buffer := serialize_command ?cmd\<rparr>"] drain_empty)
  then show ?thesis
    using assms(1) ne st by (simp add: on_read_def admitted_def)
qed

text \<open>A call: the command goes to the server in one read, and \<open>segs\<close> is how the reply arrives.\<close>

definition call ::
    "(proto_error \<Rightarrow> bytes) \<Rightarrow> config \<Rightarrow> (nat \<Rightarrow> nat \<Rightarrow> env) \<Rightarrow> nat \<Rightarrow> (bytes \<Rightarrow> bytes list) \<Rightarrow> Command \<Rightarrow>
       server \<Rightarrow> connection \<Rightarrow> client_end \<times> nat \<times> server \<times> connection" where
  "call show_error cfg E i segs cmd sv c =
     (case on_read show_error cfg E i (serialize_command cmd) sv c of
        (_, j, sv', c') \<Rightarrow>
          (fst (read_response (capacity_limit (E i 0)) (segs (drop (length (cn_out c)) (cn_out c'))) []), j, sv', c'))"

definition cuts :: "(bytes \<Rightarrow> bytes list) \<Rightarrow> bool" where
  "cuts segs \<longleftrightarrow> (\<forall>bs. concat (segs bs) = bs \<and> [] \<notin> set (segs bs))"

lemma call_command:
  assumes "admitted cfg (E i 0) (C_String cmd) sv c" "client_command (capacity_limit (E i 0)) (C_String cmd)"
    and "5 \<le> capacity_limit (E i 0)" "cuts segs"
    and "exec_string (cfg_hash cfg) (E i 0) cmd (sv_storage sv) = (Some r, s)" "simple_reply r"
  shows "\<exists>c'. call show_error cfg E i segs (C_String cmd) sv c =
      (Got (as_read r), Suc i, (served_on cfg (E i 0) (C_String cmd) sv)\<lparr>sv_storage := s\<rparr>, c') \<and>
    cn_buffer c' = [] \<and> conn_tx (cn_state c') = conn_tx (cn_state c) \<and> authed_user (cn_state c') = authed_user (cn_state c)"
proof -
  obtain c' where c': "on_read show_error cfg E i (serialize_command (C_String cmd)) sv c =
      (Conn_open, Suc i, (served_on cfg (E i 0) (C_String cmd) sv)\<lparr>sv_storage := s\<rparr>, c')"
      "cn_buffer c' = []" "cn_out c' = cn_out c @ serialize_response r"
      "conn_tx (cn_state c') = conn_tx (cn_state c)" "authed_user (cn_state c') = authed_user (cn_state c)"
    using serve_command [where E = E and i = i, OF assms(1,2) refl assms(3,5)] by metis
  have "read_response (capacity_limit (E i 0)) (segs (serialize_response r)) [] = (Got (as_read r), [], [])"
    using read_reply [OF assms(6), of "segs (serialize_response r)" _ "[]"] assms(4) by (simp add: cuts_def)
  with c' show ?thesis by (simp add: call_def)
qed

lemma call_set:
  assumes "admitted cfg (E i 0) (set_with_ttl_command key v ttl) sv c" "5 \<le> capacity_limit (E i 0)" "cuts segs"
    and "length key < 2 ^ 63" "length v < 2 ^ 63"
  shows "\<exists>sv' c'. call show_error cfg E i segs (set_with_ttl_command key v ttl) sv c = (Got R_Ok, Suc i, sv', c') \<and>
    sv_storage sv' = snd (cs_set (cfg_hash cfg) (E i 0) key v
      (map_option (\<lambda>d. secs (as_u32 (int (d div 1000000000)))) ttl) (sv_storage sv)) \<and>
    sv_auth sv' = sv_auth sv \<and> cn_buffer c' = [] \<and>
    conn_tx (cn_state c') = conn_tx (cn_state c) \<and> authed_user (cn_state c') = authed_user (cn_state c)"
proof -
  let ?t = "map_option (\<lambda>d. as_u32 (int (d div 1000000000))) ttl"
  have "as_u32 x < 2 ^ 32" for x by (simp add: as_u32_def nat_less_iff)
  then have "client_command (capacity_limit (E i 0)) (C_String (Set key v ?t))"
    using assms(4,5) by (cases ttl) simp_all
  from call_command [where E = E and i = i, OF _ this assms(2,3), of cfg sv c R_Ok] assms(1)
  show ?thesis
    by (cases ttl) (fastforce simp: set_with_ttl_command_def as_read_def served_on_def)+
qed

lemma call_get:
  assumes "admitted cfg (E i 0) (get_command key) sv c" "5 \<le> capacity_limit (E i 0)" "cuts segs"
    and "length key < 2 ^ 63" "\<forall>v. cs_get (cfg_hash cfg) (E i 0) key (sv_storage sv) = Some v \<longrightarrow> length v < 2 ^ 63"
  shows "get_result (fst (call show_error cfg E i segs (get_command key) sv c)) =
    Inr (cs_get (cfg_hash cfg) (E i 0) key (sv_storage sv))"
proof -
  let ?v = "cs_get (cfg_hash cfg) (E i 0) key (sv_storage sv)"
  have "simple_reply (value_or_nil ?v)" using assms(5) by (cases ?v) (simp_all add: value_or_nil_def)
  from call_command [where E = E and i = i, OF _ _ assms(2,3) _ this, of cfg "Get key" sv c "sv_storage sv" show_error] assms(1,4)
  have "fst (call show_error cfg E i segs (get_command key) sv c) = Got (as_read (value_or_nil ?v))"
    by (auto simp: get_command_def)
  then show ?thesis by (cases ?v) (simp_all add: value_or_nil_def as_read_def)
qed

lemma call_delete:
  assumes "admitted cfg (E i 0) (delete_command key) sv c" "5 \<le> capacity_limit (E i 0)" "cuts segs"
    and "length key < 2 ^ 63"
  shows "delete_result (fst (call show_error cfg E i segs (delete_command key) sv c)) =
    Inr (fst (cs_delete (cfg_hash cfg) key (sv_storage sv)))"
proof -
  let ?r = "if fst (cs_delete (cfg_hash cfg) key (sv_storage sv)) then R_Ok else R_Integer 0"
  have "simple_reply ?r" by (simp add: in_i64_def)
  from call_command [where E = E and i = i, OF _ _ assms(2,3) _ this, of cfg "Delete key" sv c _ show_error] assms(1,4)
  have "fst (call show_error cfg E i segs (delete_command key) sv c) = Got (as_read ?r)"
    by (cases "cs_delete (cfg_hash cfg) key (sv_storage sv)") (auto simp: delete_command_def)
  then show ?thesis by (simp add: as_read_def)
qed

subsection \<open>Properties\<close>



end
