(* ===== verification/History.thy ===== *)
theory History
  imports System Client
begin

text \<open>
  The concurrent system against a sequential one. The abstract machine holds one storage and a
  list of the writes it has served; it serves one write, or removes the expired keys, at a time.
  Every schedule of the connections, their pipelines, transactions and scripts and of the cleanup
  is a run of that machine, and what the server has appended to its log, sent to its replicas and
  counted in its versions is the run's list of writes, in the run's order.
\<close>

datatype history_item =
    Served env Command
  | Expired env

fun history_step :: "hasher \<Rightarrow> history_item \<Rightarrow> storage \<Rightarrow> storage" where
  "history_step h (Served E c) s = serve h E c s"
| "history_step h (Expired E) s = cs_cleanup_expired E s"

definition history_run :: "hasher \<Rightarrow> history_item list \<Rightarrow> storage \<Rightarrow> storage" where
  "history_run h hs s = fold (history_step h) hs s"

fun history_writes :: "history_item list \<Rightarrow> (env \<times> Command) list" where
  "history_writes [] = []"
| "history_writes (Served E c # hs) = (E, c) # history_writes hs"
| "history_writes (Expired E # hs) = history_writes hs"

definition history_of :: "config \<Rightarrow> server \<Rightarrow> history_item list \<Rightarrow> server \<Rightarrow> bool" where
  "history_of cfg sv hs sv' \<longleftrightarrow>
     list_all (\<lambda>(E, c). is_write_command c) (history_writes hs) \<and>
     sv_storage sv' = history_run (cfg_hash cfg) hs (sv_storage sv) \<and>
     logs_agree (log_all cfg (history_writes hs) sv) sv'"

subsection \<open>Histories compose\<close>

lemma history_run_append [simp]: "history_run h (hs @ hs') s = history_run h hs' (history_run h hs s)"
  by (simp add: history_run_def)

lemma history_writes_append [simp]: "history_writes (hs @ hs') = history_writes hs @ history_writes hs'"
  by (induction hs rule: history_writes.induct) simp_all

lemma history_trans:
  assumes "history_of cfg sv hs sv1" "history_of cfg sv1 hs' sv2"
  shows "history_of cfg sv (hs @ hs') sv2"
proof -
  have "logs_agree (log_all cfg (history_writes hs') (log_all cfg (history_writes hs) sv))
      (log_all cfg (history_writes hs') sv1)"
    using assms(1) by (intro logs_agree_log_all) (simp add: history_of_def)
  then show ?thesis using assms by (auto simp: history_of_def logs_agree_def)
qed

lemma history_nothing: "logs_agree sv sv' \<Longrightarrow> sv_storage sv' = sv_storage sv \<Longrightarrow> history_of cfg sv [] sv'"
  by (simp add: history_of_def history_run_def)

lemma history_cleanup: "history_of cfg sv [Expired E] (cleanup_tick E sv)"
  by (simp add: history_of_def history_run_def cleanup_tick_def logs_agree_def)

lemma history_served:
  "history_writes (map (\<lambda>(E, c). Served E c) ws) = ws"
  "history_run h (map (\<lambda>(E, c). Served E c) ws) s = serve_all h ws s"
  unfolding history_run_def serve_all_def by (induction ws arbitrary: s) auto

lemma logged_history: "logged cfg sv ws sv' \<Longrightarrow> history_of cfg sv (map (\<lambda>(E, c). Served E c) ws) sv'"
  by (simp add: logged_def history_of_def history_served)

definition has_history :: "config \<Rightarrow> server \<Rightarrow> server \<Rightarrow> bool" where
  "has_history cfg sv sv' \<longleftrightarrow> (\<exists>hs. history_of cfg sv hs sv')"

lemma has_history_refl [simp]: "has_history cfg sv sv"
  using history_nothing [of sv sv] by (auto simp: has_history_def)

lemma has_history_trans [trans]: "has_history cfg sv sv1 \<Longrightarrow> has_history cfg sv1 sv2 \<Longrightarrow> has_history cfg sv sv2"
  unfolding has_history_def by (blast intro: history_trans)

lemma has_history_nothing: "logs_agree sv sv' \<Longrightarrow> sv_storage sv' = sv_storage sv \<Longrightarrow> has_history cfg sv sv'"
  using history_nothing by (auto simp: has_history_def)

subsection \<open>Every step of the system has one\<close>

lemma answer_history:
  assumes "tx_ok conn" "answer show_error cfg E v sv conn = (r, sv', conn')"
  shows "has_history cfg sv sv'"
proof (cases "parse_command (E 0) v")
  case (Inl e)
  then show ?thesis using assms(2) by (auto simp: answer_def split: sum.splits)
next
  case (Inr cmd)
  then show ?thesis using assms(2) execute_logged [OF assms(1), of cfg sv E cmd] logged_history
    by (fastforce simp: answer_def has_history_def)
qed

lemma drain_history:
  "drain show_error cfg E i sv c = (e, j, sv', c') \<Longrightarrow> tx_ok (cn_state c) \<Longrightarrow> server_inv cfg sv \<Longrightarrow> has_history cfg sv sv'"
proof (induction i sv c "(e, j, sv', c')" rule: drain_rule)
  case (crash sv c v st)
  then show ?case using answer_history by blast
next
  case (step i sv c v rest r sv1 st st' rx)
  from answer_history [OF step.prems(1) step(3)] have "has_history cfg sv sv1" .
  also have "has_history cfg sv1 sv'"
    using step.hyps(5) answer_inv [OF step.prems step(3)] hoist_tx_ok [OF step(4)] by simp
  finally show ?case .
qed simp_all

lemma on_read_history:
  assumes "on_read show_error cfg E i chunk sv c = (e, j, sv', c')" "tx_ok (cn_state c)" "server_inv cfg sv"
  shows "has_history cfg sv sv'"
  using assms drain_history [of show_error cfg E i sv "c\<lparr>cn_buffer := cn_buffer c @ chunk\<rparr>"]
  by (auto simp: on_read_def split: if_splits prod.splits conn_end.splits)

lemma close_history: "has_history cfg sv (close_connection sv c)"
  by (rule has_history_nothing) (simp_all add: close_connection_def logs_agree_def)

lemma on_message_history: "on_message sv c = (sv', c') \<Longrightarrow> has_history cfg sv sv'"
  by (rule has_history_nothing) (auto simp: on_message_def logs_agree_def split: option.splits prod.splits)

lemma system_step_history:
  assumes "system_step show_error cfg sys sys'" "system_inv cfg sys"
  shows "has_history cfg (sys_server sys) (sys_server sys')"
  using assms(1)
proof (cases rule: system_step.cases)
  case (end_step i c E n chunk e j sv' c')
  then have "has_history cfg (sys_server sys) sv'" using assms(2) by (intro on_read_history) (auto simp: system_inv_def)
  also have "has_history cfg sv' (close_connection sv' c')" by (rule close_history)
  finally show ?thesis using end_step by simp
next
  case (read_step i c E n chunk j sv' c')
  then show ?thesis using assms(2) by (auto simp: system_inv_def intro: on_read_history)
next
  case (cleanup_step E)
  then show ?thesis using history_cleanup by (auto simp: has_history_def)
qed (auto intro: on_message_history)

lemma reachable_history:
  assumes "reachable show_error cfg sv0 sys" "server_inv cfg sv0"
  shows "has_history cfg sv0 (sys_server sys)"
  using assms
proof (induction rule: reachable.induct)
  case (reachable_step sys sys')
  from reachable_step.IH [OF reachable_step.prems] have "has_history cfg sv0 (sys_server sys)" .
  also have "has_history cfg (sys_server sys) (sys_server sys')"
    using system_step_history reachable_step reachable_inv by blast
  finally show ?case .
qed simp


text \<open>One connection is accepted and sends a SET.\<close>

lemma reachable_after_set:
  "\<exists>sys. reachable (\<lambda>_. ''?'') sample_cfg server_new sys \<and>
     sv_storage (sys_server sys) = snd (cs_set (cfg_hash sample_cfg) sample_env ''k'' ''v'' None (sv_storage server_new))"
proof -
  let ?cfg = sample_cfg and ?set = "Set ''k'' ''v'' None"
  let ?s = "snd (cs_set (cfg_hash ?cfg) sample_env ''k'' ''v'' None (sv_storage server_new))"
  have adm: "admitted ?cfg sample_env (C_String ?set) server_new connection_new"
    by (simp add: admitted_def sample_cfg_def server_new_def connection_new_def conn_new_def cluster_gate_def auth_gate_def
        tx_new_def in_multi_def)
  moreover have "client_command 1000000 (C_String ?set)" "capacity_limit sample_env = 1000000" "5 \<le> (1000000 :: nat)"
    by (simp_all add: sample_env_def)
  moreover have "exec_string (cfg_hash ?cfg) sample_env ?set (sv_storage server_new) = (Some R_Ok, ?s)"
    by simp
  ultimately obtain sv' c' where r: "on_read (\<lambda>_. ''?'') ?cfg (\<lambda>_ _. sample_env) 0 (serialize_command (C_String ?set)) server_new connection_new =
      (Conn_open, 1, sv', c')" "sv_storage sv' = ?s"
    using serve_command [where E = "\<lambda>_ _. sample_env" and i = 0 and cmd = ?set and cfg = ?cfg and sv = server_new and
        c = connection_new and show_error = "\<lambda>_. ''?''" and cap = 1000000 and r = R_Ok and s = ?s] by force
  let ?sys = "\<lparr>sys_server = server_new, sys_conns = [0 \<mapsto> connection_new]\<rparr>"
  have "system_step (\<lambda>_. ''?'') ?cfg \<lparr>sys_server = server_new, sys_conns = Map.empty\<rparr> ?sys"
    using accept_step [of "\<lparr>sys_server = server_new, sys_conns = Map.empty\<rparr>" 0] by simp
  moreover have "system_step (\<lambda>_. ''?'') ?cfg ?sys \<lparr>sys_server = sv', sys_conns = (sys_conns ?sys)(0 \<mapsto> c')\<rparr>"
    using r(1) by (intro read_step [where c = connection_new]) simp_all
  ultimately have "reachable (\<lambda>_. ''?'') ?cfg server_new \<lparr>sys_server = sv', sys_conns = (sys_conns ?sys)(0 \<mapsto> c')\<rparr>"
    by (blast intro: reachable_start reachable_step)
  then show ?thesis using r(2) by (intro exI) auto
qed


end
