(* ===== verification/Tls_Connection.thy ===== *)
theory Tls_Connection
  imports History "HOL-Library.Sublist"
begin

text \<open>
  The handler of TLS connections (\<open>handle_tls_connection\<close> in server.rs). Its stream is a parameter: the
  stream of tokio-rustls, which is documented to behave as a buffered writer, so that what is
  written may stay in its buffer until it is flushed. The locale \<open>buffered_stream\<close> is that contract;
  the buffered writer of the log satisfies it as well.
\<close>

subsection \<open>Buffered streams\<close>

locale buffered_stream =
  fixes write_all :: "bytes \<Rightarrow> 's \<Rightarrow> 's"
    and flush :: "'s \<Rightarrow> 's"
    and written :: "'s \<Rightarrow> bytes"
    and sent :: "'s \<Rightarrow> bytes"
    and ok :: "'s \<Rightarrow> bool"
  assumes write_ok: "ok s \<Longrightarrow> ok (write_all bs s)"
    and flush_ok: "ok s \<Longrightarrow> ok (flush s)"
    and write_written: "ok s \<Longrightarrow> written (write_all bs s) = written s @ bs"
    and flush_written: "ok s \<Longrightarrow> written (flush s) = written s"
    and flush_sent: "ok s \<Longrightarrow> sent (flush s) = written s"
    and sent_prefix: "ok s \<Longrightarrow> prefix (sent s) (written s)"
    and sent_kept: "ok s \<Longrightarrow> prefix (sent s) (sent (write_all bs s))"

lemma wal_file_grows:
  assumes "at_end w"
  shows "prefix (file_content (wal_path w) (wal_files w)) (file_content (wal_path w) (wal_files (bw_write_all d w)))"
  using assms handle_write_end [OF assms] bw_flush_end(2) [OF assms] handle_write_end(1) [of "bw_flush w" d]
  by (auto simp: bw_write_all_def Let_def bw_flush_def)

interpretation wal_writer: buffered_stream bw_write_all bw_flush wal_stream
  "\<lambda>w. file_content (wal_path w) (wal_files w)" at_end
proof unfold_locales
  fix w :: WriteAheadLog and d
  assume w: "at_end w"
  show "file_content (wal_path (bw_flush w)) (wal_files (bw_flush w)) = wal_stream w"
    using bw_flush_end(1) [OF w] by (simp add: wal_stream_def)
  show "prefix (file_content (wal_path w) (wal_files w))
      (file_content (wal_path (bw_write_all d w)) (wal_files (bw_write_all d w)))"
    using wal_file_grows [OF w] by simp
qed (simp_all add: bw_write_end bw_flush_end, simp add: wal_stream_def)

subsection \<open>The handler\<close>

record 's tls_connection =
  tls_buffer :: bytes
  tls_state :: ConnState
  tls_rx :: "nat option"
  tls_stream :: 's

definition tls_connection_new :: "'s \<Rightarrow> 's tls_connection" where
  "tls_connection_new stream = \<lparr>tls_buffer = [], tls_state = conn_new, tls_rx = None, tls_stream = stream\<rparr>"

text \<open>The loop over the complete commands; \<open>out\<close> gathers the replies.\<close>

function tls_drain ::
    "(proto_error \<Rightarrow> bytes) \<Rightarrow> config \<Rightarrow> (nat \<Rightarrow> nat \<Rightarrow> env) \<Rightarrow> nat \<Rightarrow> server \<Rightarrow> bytes \<Rightarrow> ConnState \<Rightarrow> nat option \<Rightarrow> bytes \<Rightarrow>
       conn_end \<times> nat \<times> server \<times> bytes \<times> ConnState \<times> nat option \<times> bytes" where
  "tls_drain show_error cfg E i sv buffer conn rx out =
     (if buffer = [] then (Conn_open, i, sv, buffer, conn, rx, out)
      else (case parse_resp (capacity_limit (E i 0)) buffer of
          parsed.Failed _ \<Rightarrow> (Conn_open, i, sv, buffer, conn, rx, out)
        | Panicked \<Rightarrow> (Conn_panic, i, sv, buffer, conn, rx, out)
        | Parsed resp_value rest \<Rightarrow>
            (case (case parse_command (E i 0) resp_value of
                     Inr cmd \<Rightarrow> execute_command cfg (E i) cmd sv conn
                   | Inl e \<Rightarrow> (Some (R_Error (''ERR '' @ show_error e)), sv, conn)) of
               (None, sv', conn') \<Rightarrow> (Conn_panic, i, sv', buffer, conn', rx, out)
             | (Some response, sv', conn') \<Rightarrow>
                 if rx = None \<and> sub_rx (conn_sub conn') \<noteq> None
                 then tls_drain show_error cfg E (Suc i) sv' rest
                        (conn'\<lparr>conn_sub := (conn_sub conn')\<lparr>sub_rx := None\<rparr>\<rparr>) (sub_rx (conn_sub conn'))
                        (out @ serialize_response response)
                 else tls_drain show_error cfg E (Suc i) sv' rest conn' rx (out @ serialize_response response))))"
  by pat_completeness auto
termination
  by (relation "measure (\<lambda>(show_error, cfg, E, i, sv, buffer, conn, rx, out). length buffer)")
    (auto dest!: parse_resp_suffix)

declare tls_drain.simps [simp del]

definition tls_on_read ::
    "(bytes \<Rightarrow> 's \<Rightarrow> 's) \<Rightarrow> (proto_error \<Rightarrow> bytes) \<Rightarrow> config \<Rightarrow> (nat \<Rightarrow> nat \<Rightarrow> env) \<Rightarrow> nat \<Rightarrow> bytes \<Rightarrow> server \<Rightarrow>
       's tls_connection \<Rightarrow> conn_end \<times> nat \<times> server \<times> 's tls_connection" where
  "tls_on_read write_all show_error cfg E i chunk sv t =
     (if chunk = [] then (Conn_closed [], i, sv, t)
      else (case tls_drain show_error cfg E i sv (tls_buffer t @ chunk) (tls_state t) (tls_rx t) [] of
          (e, j, sv', buffer, conn, rx, out) \<Rightarrow>
            let t' = t\<lparr>tls_buffer := buffer, tls_state := conn, tls_rx := rx\<rparr>
            in if e = Conn_panic then (Conn_panic, j, sv', t')
               else let t'' = (if out \<noteq> [] then t'\<lparr>tls_stream := write_all out (tls_stream t)\<rparr> else t')
                 in if length buffer > 1024 * 1024 then (Conn_closed ''Buffer overflow'', j, sv', t'')
                    else (Conn_open, j, sv', t'')))"

definition tls_on_message ::
    "(bytes \<Rightarrow> 's \<Rightarrow> 's) \<Rightarrow> ('s \<Rightarrow> 's) \<Rightarrow> server \<Rightarrow> 's tls_connection \<Rightarrow> server \<times> 's tls_connection" where
  "tls_on_message write_all flush sv t =
     (case tls_rx t of
        None \<Rightarrow> (sv, t)
      | Some rx \<Rightarrow>
          (case take_mail rx (sv_mail sv) of
             None \<Rightarrow> (sv, t)
           | Some (msg, rest) \<Rightarrow>
               (sv\<lparr>sv_mail := rest\<rparr>,
                t\<lparr>tls_stream := flush (write_all (format_pubsub_message msg) (tls_stream t))\<rparr>)))"

subsection \<open>It is the handler of plain connections, up to what the stream has sent\<close>

definition plain_of :: "('s \<Rightarrow> bytes) \<Rightarrow> 's tls_connection \<Rightarrow> connection" where
  "plain_of written t =
     \<lparr>cn_buffer = tls_buffer t, cn_state = tls_state t, cn_rx = tls_rx t, cn_out = written (tls_stream t)\<rparr>"

lemma tls_drain_plain:
  assumes "tls_drain show_error cfg E i sv buffer conn rx out = (e, j, sv', buffer', conn', rx', out')"
  shows "\<exists>new. out' = out @ new \<and>
    drain show_error cfg E i sv \<lparr>cn_buffer = buffer, cn_state = conn, cn_rx = rx, cn_out = pre\<rparr> =
      (e, j, sv', \<lparr>cn_buffer = buffer', cn_state = conn', cn_rx = rx', cn_out = pre @ new\<rparr>)"
  using assms
proof (induction "length buffer" arbitrary: i sv buffer conn rx out pre rule: less_induct)
  case less
  note loops = tls_drain.simps [of _ _ _ _ _ buffer] drain.simps [of _ _ _ _ _ "\<lparr>cn_buffer = buffer, cn_state = conn, cn_rx = rx, cn_out = pre\<rparr>"]
  show ?case
  proof (cases "buffer = []")
    case True
    then show ?thesis using less.prems loops by simp
  next
    case False
    show ?thesis
    proof (cases "parse_resp (capacity_limit (E i 0)) buffer")
      case (Parsed v rest)
      obtain r sv1 conn1 where a: "answer show_error cfg (E i) v sv conn = (r, sv1, conn1)"
        by (cases "answer show_error cfg (E i) v sv conn")
      obtain conn2 rx2 where h: "hoist_receiver conn1 rx = (conn2, rx2)" by (cases "hoist_receiver conn1 rx")
      have step_tls: "tls_drain show_error cfg E i sv buffer conn rx out =
          (case r of None \<Rightarrow> (Conn_panic, i, sv1, buffer, conn1, rx, out)
           | Some x \<Rightarrow> tls_drain show_error cfg E (Suc i) sv1 rest conn2 rx2 (out @ serialize_response x))"
        using False Parsed a h by (auto simp: loops answer_def hoist_receiver_def split: option.splits if_splits)
      have step_plain: "drain show_error cfg E i sv \<lparr>cn_buffer = buffer, cn_state = conn, cn_rx = rx, cn_out = pre\<rparr> =
          (case r of None \<Rightarrow> (Conn_panic, i, sv1, \<lparr>cn_buffer = buffer, cn_state = conn1, cn_rx = rx, cn_out = pre\<rparr>)
           | Some x \<Rightarrow> drain show_error cfg E (Suc i) sv1
               \<lparr>cn_buffer = rest, cn_state = conn2, cn_rx = rx2, cn_out = pre @ serialize_response x\<rparr>)"
        using False Parsed a h by (simp add: loops split: option.splits)
      have shorter: "length rest < length buffer" using parse_resp_suffix [OF Parsed] by auto
      show ?thesis
      proof (cases r)
        case None
        then show ?thesis using step_tls step_plain less.prems by simp
      next
        case (Some x)
        then have "tls_drain show_error cfg E (Suc i) sv1 rest conn2 rx2 (out @ serialize_response x) =
            (e, j, sv', buffer', conn', rx', out')" using step_tls less.prems by simp
        from less.hyps [OF shorter this, of "pre @ serialize_response x"] Some step_plain show ?thesis by auto
      qed
    qed (use False less.prems in \<open>simp_all add: loops drain.simps\<close>)
  qed
qed

context buffered_stream
begin

lemma read_simulated:
  assumes "ok (tls_stream t)" "tls_on_read write_all show_error cfg E i chunk sv t = (e, j, sv', t')"
  shows "ok (tls_stream t')" "on_read show_error cfg E i chunk sv (plain_of written t) = (e, j, sv', plain_of written t')"
    "prefix (sent (tls_stream t)) (sent (tls_stream t'))"
proof -
  obtain e1 k sv1 b conn rx new where d: "tls_drain show_error cfg E i sv (tls_buffer t @ chunk) (tls_state t) (tls_rx t) [] =
      (e1, k, sv1, b, conn, rx, new)" by (metis prod_cases7)
  from tls_drain_plain [OF this, of "written (tls_stream t)"]
  have "drain show_error cfg E i sv ((plain_of written t)\<lparr>cn_buffer := cn_buffer (plain_of written t) @ chunk\<rparr>) =
      (e1, k, sv1, \<lparr>cn_buffer = b, cn_state = conn, cn_rx = rx, cn_out = written (tls_stream t) @ new\<rparr>)"
    (is "?drain = _") by (simp add: plain_of_def)
  moreover from this have "e1 \<noteq> Conn_closed x" for x using drain_not_closed by metis
  ultimately show "on_read show_error cfg E i chunk sv (plain_of written t) = (e, j, sv', plain_of written t')"
    using d assms
    by (cases e1) (auto simp: tls_on_read_def on_read_def plain_of_def Let_def write_written split: if_splits)
  from d assms show "ok (tls_stream t')" "prefix (sent (tls_stream t)) (sent (tls_stream t'))"
    by (auto simp: tls_on_read_def Let_def write_ok sent_kept split: if_splits)
qed

lemma message_simulated:
  assumes "ok (tls_stream t)" "tls_on_message write_all flush sv t = (sv', t')"
  shows "ok (tls_stream t')" "on_message sv (plain_of written t) = (sv', plain_of written t')"
    "sv' \<noteq> sv \<Longrightarrow> sent (tls_stream t') = written (tls_stream t')"
  using assms
  by (auto simp: tls_on_message_def on_message_def plain_of_def write_ok flush_ok flush_written write_written flush_sent
      split: option.splits prod.splits)

end

text \<open>
  (C20) A TLS connection is served as a plain one. Over any stream that keeps the contract of a
  buffered writer, a read of a TLS connection runs the same commands with the same outcome, leaves the
  same state in the server and in the connection, and writes the same bytes to its stream as the
  read of a plain connection; so does a message. What the stream had sent stays sent, and after a
  message all that was written has been sent.
\<close>

theorem tls_served_as_plain:
  assumes "buffered_stream write_all flush written sent ok" "ok (tls_stream t)"
  shows "(case tls_on_read write_all show_error cfg E i chunk sv t of (e, j, sv', t') \<Rightarrow>
      on_read show_error cfg E i chunk sv (plain_of written t) = (e, j, sv', plain_of written t') \<and>
      prefix (sent (tls_stream t)) (sent (tls_stream t')) \<and> ok (tls_stream t')) \<and>
    (case tls_on_message write_all flush sv t of (sv', t') \<Rightarrow>
      on_message sv (plain_of written t) = (sv', plain_of written t') \<and> ok (tls_stream t') \<and>
      (sv' = sv \<or> sent (tls_stream t') = written (tls_stream t')))"
proof -
  obtain e j sv1 t1 where r: "tls_on_read write_all show_error cfg E i chunk sv t = (e, j, sv1, t1)" by (metis prod_cases4)
  obtain sv2 t2 where m: "tls_on_message write_all flush sv t = (sv2, t2)" by (cases "tls_on_message write_all flush sv t")
  show ?thesis
    using buffered_stream.read_simulated [OF assms r] buffered_stream.message_simulated [OF assms m] r m by auto
qed

text \<open>A stream that sends nothing before it is flushed.\<close>

definition lazy_write :: "bytes \<Rightarrow> bytes \<times> bytes \<Rightarrow> bytes \<times> bytes" where
  "lazy_write bs s = (fst s, snd s @ bs)"

definition lazy_flush :: "bytes \<times> bytes \<Rightarrow> bytes \<times> bytes" where
  "lazy_flush s = (fst s @ snd s, [])"

lemma lazy_stream: "buffered_stream lazy_write lazy_flush (\<lambda>s. fst s @ snd s) fst (\<lambda>_. True)"
  by unfold_locales (simp_all add: lazy_write_def lazy_flush_def)

theorem tls_served_as_plain_witness:
  "case tls_on_read lazy_write (\<lambda>_. ''?'') sample_cfg (\<lambda>_ _. sample_env) 0 ''*1'' server_new (tls_connection_new ([], [])) of
     (e, j, sv', t') \<Rightarrow>
       on_read (\<lambda>_. ''?'') sample_cfg (\<lambda>_ _. sample_env) 0 ''*1'' server_new connection_new =
         (e, j, sv', plain_of (\<lambda>s. fst s @ snd s) t')"
proof -
  have "plain_of (\<lambda>s. fst s @ snd s) (tls_connection_new ([], [])) = connection_new"
    by (simp add: plain_of_def tls_connection_new_def connection_new_def)
  then show ?thesis
    using tls_served_as_plain [OF lazy_stream TrueI, where t = "tls_connection_new ([], [])" and show_error = "\<lambda>_. ''?''"
        and cfg = sample_cfg and E = "\<lambda>_ _. sample_env" and i = 0 and chunk = "''*1''" and sv = server_new]
    by (auto split: prod.splits)
qed

text \<open>
  The replies of a read are written and not flushed: over the stream that sends nothing before it is
  flushed, no read of the handler ever sends a byte, whatever commands it answers.
\<close>

theorem tls_replies_not_flushed:
  "fst (tls_stream (snd (snd (snd (tls_on_read lazy_write show_error cfg E i chunk sv t))))) = fst (tls_stream t)"
proof -
  obtain e k sv1 b conn rx new where "tls_drain show_error cfg E i sv (tls_buffer t @ chunk) (tls_state t) (tls_rx t) [] =
      (e, k, sv1, b, conn, rx, new)" by (metis prod_cases7)
  then show ?thesis by (simp add: tls_on_read_def lazy_write_def Let_def)
qed

end
