(* ===== verification/Snapshot.thy ===== *)
theory Snapshot
  imports Wal
begin

text \<open>
  Snapshots (persistence/snapshot.rs) and the restart of a server (\<open>load_from_persistence\<close> of
  server.rs). A snapshot is a list of records, one per key: the commands that rebuild the value
  and an absolute deadline. It is written to a temporary file that is renamed into place, and
  loaded by applying the commands. Parameters, in the record \<open>snap_codec\<close>: the encoding of the
  records by \<open>bincode\<close> and the CRC. The clocks do not move while a snapshot is taken, or while
  one is loaded: each of the two runs in one environment.
\<close>

record SnapshotRecord =
  rec_key :: bytes
  rec_commands :: "Command list"
  rec_expire_unix_ms :: "64 word option"

datatype SnapshotError = Snap_IoError bytes | Snap_SerializationError bytes | Snap_Corrupted bytes

record snap_codec =
  sn_encode :: "SnapshotRecord list \<Rightarrow> bytes result"
  sn_decode :: "bytes \<Rightarrow> SnapshotRecord list result"
  sn_crc :: "bytes \<Rightarrow> 32 word"

definition MAGIC_V2 :: bytes where "MAGIC_V2 = ''CACHESN2''"
definition MAGIC_V1 :: bytes where "MAGIC_V1 = ''CACHESNP''"
definition SNAPSHOT_VERSION :: nat where "SNAPSHOT_VERSION = 2"

subsection \<open>Taking a snapshot\<close>

definition to_unix_ms :: "env \<Rightarrow> instant \<Rightarrow> 64 word" where
  "to_unix_ms E expires_at = word_of_nat (unix_ms E) + word_of_nat ((expires_at - now E) div 1000000)"

text \<open>The commands that rebuild a value; \<open>None\<close> for an expired or empty one.\<close>

fun rebuild_commands :: "env \<Rightarrow> bytes \<Rightarrow> CacheValue \<Rightarrow> Command list option" where
  "rebuild_commands E key (String_v v expires_at) =
     (if (case expires_at of Some e \<Rightarrow> e \<le> now E | None \<Rightarrow> False) then None
      else Some [C_String (Set key v None)])"
| "rebuild_commands E key (Hash_v hs) =
     (if hash_is_expired (now E) hs then None
      else Some (map (\<lambda>(f, v). C_Hash (HSet key f v)) (hash_get_all (hash_order E) hs)))"
| "rebuild_commands E key (List_v l) =
     (if list_is_expired (now E) l \<or> l_items l = [] then None
      else Some [C_List (RPush key (l_items l))])"
| "rebuild_commands E key (Set_v st) =
     (if set_is_expired (now E) st \<or> set_get_all (hash_order E) st = [] then None
      else Some [C_Set (SAdd key (set_get_all (hash_order E) st))])"
| "rebuild_commands E key (SortedSet_v z) =
     (if zset_is_expired (now E) z then None
      else (let members = List.map_filter (\<lambda>(member, score). map_option (\<lambda>x. (x, member)) score)
                            (zset_get_range (hash_order E) 0 (2 ^ 64 - 1) True z)
            in if members = [] then None else Some [C_ZSet (ZAdd key members)]))"
| "rebuild_commands E key (Stream_v st) =
     (if stream_is_expired (now E) st \<or> bt_list (st_entries st) = [] then None
      else Some (map (\<lambda>(i, fvs). C_Stream (XAdd key (Some (stream_id_to_string i)) fvs))
                   (bt_list (st_entries st))))"

definition record_for :: "env \<Rightarrow> bytes \<Rightarrow> CacheValue \<Rightarrow> SnapshotRecord option" where
  "record_for E key v =
     (case rebuild_commands E key v of
        None \<Rightarrow> None
      | Some commands \<Rightarrow>
          if commands = [] then None
          else Some \<lparr>rec_key = key, rec_commands = commands,
                     rec_expire_unix_ms = map_option (to_unix_ms E) (expires_at_ref v)\<rparr>)"

definition create_snapshot :: "env \<Rightarrow> storage \<Rightarrow> SnapshotRecord list" where
  "create_snapshot E s = List.map_filter (\<lambda>(key, v). record_for E key v) (cs_get_all_entries E s)"

definition snapshot_bytes :: "snap_codec \<Rightarrow> env \<Rightarrow> nat \<Rightarrow> bytes \<Rightarrow> bytes" where
  "snapshot_bytes sc E n blob =
     MAGIC_V2 @ be_bytes 4 SNAPSHOT_VERSION @ be_bytes 8 (unix_ms E div 1000 mod 2 ^ 64) @
     be_bytes 8 (n mod 2 ^ 64) @ be_bytes 8 (length blob mod 2 ^ 64) @
     be_bytes 4 (unat (sn_crc sc blob)) @ blob"

text \<open>The temporary file takes the place of the old snapshot in one step.\<close>

definition save_snapshot_to_path ::
    "snap_codec \<Rightarrow> env \<Rightarrow> bytes \<Rightarrow> storage \<Rightarrow> bytes table \<Rightarrow> (SnapshotError + unit) \<times> bytes table" where
  "save_snapshot_to_path sc E path s fs =
     (let records = create_snapshot E s
      in case sn_encode sc records of
           Inl e \<Rightarrow> (Inl (Snap_SerializationError e), fs)
         | Inr blob \<Rightarrow>
             (let temp_path = path @ ''.tmp'';
                  fs = AList.update temp_path (snapshot_bytes sc E (length records) blob) fs;
                  fs = AList.update path (file_content temp_path fs) (AList.delete temp_path fs)
              in (Inr (), fs)))"

definition save_snapshot ::
    "snap_codec \<Rightarrow> env \<Rightarrow> bytes \<Rightarrow> storage \<Rightarrow> bytes table \<Rightarrow> WriteAheadLog option \<Rightarrow>
       (SnapshotError + unit) \<times> bytes table \<times> WriteAheadLog option" where
  "save_snapshot sc E path s fs wal =
     (case save_snapshot_to_path sc E path s fs of
        (Inl e, fs') \<Rightarrow> (Inl e, fs', wal)
      | (Inr _, fs') \<Rightarrow> (Inr (), fs', map_option truncate_after_snapshot wal))"

subsection \<open>Loading one\<close>

definition read_exact :: "nat \<Rightarrow> bytes \<Rightarrow> SnapshotError + bytes \<times> bytes" where
  "read_exact n data =
     (if length data < n then Inl (Snap_IoError ''failed to fill whole buffer'')
      else Inr (take n data, drop n data))"

text \<open>The header after the magic: the length of the blob, its checksum, and what follows.\<close>

definition read_header :: "bytes \<Rightarrow> SnapshotError + nat \<times> nat \<times> bytes" where
  "read_header data =
     rbind (read_exact 4 data) (\<lambda>(ver, data).
       if from_be ver \<noteq> SNAPSHOT_VERSION
       then Inl (Snap_Corrupted (''Unsupported version: '' @ nat_to_string (from_be ver)))
       else rbind (read_exact 8 data) (\<lambda>(_, data).
         rbind (read_exact 8 data) (\<lambda>(_, data).
           rbind (read_exact 8 data) (\<lambda>(blob_len, data).
             rbind (read_exact 4 data) (\<lambda>(crc, data).
               Inr (from_be blob_len, from_be crc, data))))))"

definition read_blob :: "snap_codec \<Rightarrow> nat \<Rightarrow> nat \<Rightarrow> bytes \<Rightarrow> SnapshotError + SnapshotRecord list" where
  "read_blob sc blob_len expected_checksum data =
     rbind (read_exact blob_len data) (\<lambda>(blob, _).
       if unat (sn_crc sc blob) \<noteq> expected_checksum then Inl (Snap_Corrupted ''Blob checksum mismatch'')
       else (case sn_decode sc blob of
           Inl e \<Rightarrow> Inl (Snap_Corrupted e)
         | Inr records \<Rightarrow> Inr records))"

text \<open>\<open>None\<close> when the buffer for the blob cannot be reserved. A file of version 1 holds nothing.\<close>

definition read_snapshot :: "snap_codec \<Rightarrow> env \<Rightarrow> bytes \<Rightarrow> (SnapshotError + SnapshotRecord list) option" where
  "read_snapshot sc E data =
     (case read_exact 8 data of
        Inl e \<Rightarrow> Some (Inl e)
      | Inr (magic, data) \<Rightarrow>
          if magic = MAGIC_V1 then Some (Inr [])
          else if magic \<noteq> MAGIC_V2 then Some (Inl (Snap_Corrupted ''Invalid magic number''))
          else (case read_header data of
              Inl e \<Rightarrow> Some (Inl e)
            | Inr (blob_len, crc, data) \<Rightarrow>
                if blob_len > capacity_limit E then None else Some (read_blob sc blob_len crc data)))"

fun apply_commands :: "hasher \<Rightarrow> env \<Rightarrow> Command list \<Rightarrow> storage \<Rightarrow> applied" where
  "apply_commands h E [] s = (Some (), s)"
| "apply_commands h E (c # cs) s =
     (case apply_write_command h E c s of
        (None, s') \<Rightarrow> (None, s')
      | (Some _, s') \<Rightarrow> apply_commands h E cs s')"

text \<open>One record: whether it is counted, \<open>None\<close> on a panic.\<close>

definition load_record :: "hasher \<Rightarrow> env \<Rightarrow> SnapshotRecord \<Rightarrow> storage \<Rightarrow> bool option \<times> storage" where
  "load_record h E r s =
     (let now_unix_ms = (word_of_nat (unix_ms E) :: 64 word)
      in case rec_expire_unix_ms r of
           None \<Rightarrow> (case apply_commands h E (rec_commands r) s of
               (a, s') \<Rightarrow> (map_option (\<lambda>_. True) a, s'))
         | Some expire_ms \<Rightarrow>
             if expire_ms \<le> now_unix_ms then (Some False, s)
             else (case apply_commands h E (rec_commands r) s of
                 (None, s') \<Rightarrow> (None, s')
               | (Some _, s') \<Rightarrow>
                   (case instant_add (now E) (millis (unat (expire_ms - now_unix_ms))) of
                      None \<Rightarrow> (None, s')
                    | Some at \<Rightarrow> (Some True, snd (cs_set_expiry h E (rec_key r) at s')))))"

fun load_records :: "hasher \<Rightarrow> env \<Rightarrow> SnapshotRecord list \<Rightarrow> storage \<Rightarrow> nat option \<times> storage" where
  "load_records h E [] s = (Some 0, s)"
| "load_records h E (r # rs) s =
     (case load_record h E r s of
        (None, s') \<Rightarrow> (None, s')
      | (Some counted, s') \<Rightarrow>
          (case load_records h E rs s' of
             (n, s'') \<Rightarrow> (map_option (\<lambda>n. if counted then Suc n else n) n, s'')))"

definition load_snapshot_from_path ::
    "snap_codec \<Rightarrow> hasher \<Rightarrow> env \<Rightarrow> bytes \<Rightarrow> bytes table \<Rightarrow> storage \<Rightarrow>
       (SnapshotError + nat) option \<times> storage" where
  "load_snapshot_from_path sc h E path fs s =
     (case map_of fs path of
        None \<Rightarrow> (Some (Inr 0), s)
      | Some data \<Rightarrow>
          (case read_snapshot sc E data of
             None \<Rightarrow> (None, s)
           | Some (Inl e) \<Rightarrow> (Some (Inl e), s)
           | Some (Inr records) \<Rightarrow>
               (case load_records h E records s of (n, s') \<Rightarrow> (map_option Inr n, s'))))"

subsection \<open>Restart\<close>

datatype RestartError = From_snapshot SnapshotError | From_wal WALError

text \<open>
  The snapshot, if there is a manager, then the log on top of it. The entries read before an
  error have been applied when it is reported.
\<close>

definition load_from_persistence ::
    "snap_codec \<Rightarrow> wal_codec \<Rightarrow> hasher \<Rightarrow> env \<Rightarrow> bytes option \<Rightarrow> bytes table \<Rightarrow>
       WriteAheadLog option \<Rightarrow> storage \<Rightarrow> (RestartError + unit) option \<times> storage" where
  "load_from_persistence sc cd h E snapshot fs wal s =
     (case (case snapshot of
              None \<Rightarrow> (Some (Inr 0), s)
            | Some path \<Rightarrow> load_snapshot_from_path sc h E path fs s) of
        (None, s') \<Rightarrow> (None, s')
      | (Some (Inl e), s') \<Rightarrow> (Some (Inl (From_snapshot e)), s')
      | (Some (Inr _), s') \<Rightarrow>
          (case wal of
             None \<Rightarrow> (Some (Inr ()), s')
           | Some w \<Rightarrow>
               (case wal_replay cd w of
                  (entries, err) \<Rightarrow>
                    (case apply_commands h E (map we_command entries) s' of
                       (None, s'') \<Rightarrow> (None, s'')
                     | (Some _, s'') \<Rightarrow>
                         (Some (case err of None \<Rightarrow> Inr () | Some e \<Rightarrow> Inl (From_wal e)), s'')))))"

subsection \<open>Reading back what was written\<close>

definition snap_codec_ok :: "snap_codec \<Rightarrow> env \<Rightarrow> SnapshotRecord list \<Rightarrow> bool" where
  "snap_codec_ok sc E' records \<longleftrightarrow>
     (\<exists>blob. sn_encode sc records = Inr blob \<and> sn_decode sc blob = Inr records \<and>
        length blob < 2 ^ 64 \<and> length blob \<le> capacity_limit E')"

lemma read_exact_append [simp]: "length a = n \<Longrightarrow> read_exact n (a @ b) = Inr (a, b)"
  by (simp add: read_exact_def)

lemma read_exact_all: "length a = n \<Longrightarrow> read_exact n a = Inr (a, [])"
  by (simp add: read_exact_def)

lemma read_snapshot_bytes:
  assumes "sn_decode sc blob = Inr records" "length blob < 2 ^ 64" "length blob \<le> capacity_limit E'"
  shows "read_snapshot sc E' (snapshot_bytes sc E n blob) = Some (Inr records)"
proof -
  have magic: "read_exact 8 (snapshot_bytes sc E n blob) = Inr (MAGIC_V2, drop 8 (snapshot_bytes sc E n blob))"
    "MAGIC_V2 \<noteq> MAGIC_V1"
    by (simp_all add: read_exact_def snapshot_bytes_def MAGIC_V2_def MAGIC_V1_def)
  have "read_header (drop 8 (snapshot_bytes sc E n blob)) = Inr (length blob, unat (sn_crc sc blob), blob)"
    using assms(2) by (simp add: read_header_def snapshot_bytes_def MAGIC_V2_def SNAPSHOT_VERSION_def from_be_bytes)
  then show ?thesis
    using magic assms by (simp add: read_snapshot_def read_blob_def read_exact_all)
qed

lemma save_then_read:
  assumes "snap_codec_ok sc E' (create_snapshot E s)"
  shows "load_snapshot_from_path sc h E' path (snd (save_snapshot_to_path sc E path s fs)) s0 =
     (case load_records h E' (create_snapshot E s) s0 of (n, s') \<Rightarrow> (map_option Inr n, s'))"
proof -
  obtain blob where b: "sn_encode sc (create_snapshot E s) = Inr blob"
    "sn_decode sc blob = Inr (create_snapshot E s)" "length blob < 2 ^ 64" "length blob \<le> capacity_limit E'"
    using assms by (auto simp: snap_codec_ok_def)
  show ?thesis
    using read_snapshot_bytes [OF b(2-4)]
    by (simp add: load_snapshot_from_path_def save_snapshot_to_path_def b(1) update_conv' file_content_def Let_def)
qed

lemma set_all_entries:
  assumes "sharded h s" "is_order (hash_order E)"
  shows "set (cs_get_all_entries E s) = {(k, v). lookup h s k = Some v}"
    and "distinct (map fst (cs_get_all_entries E s))"
proof -
  have d: "distinct (map fst g)" if "g \<in> set (shards s)" for g
    using that assms(1) by (metis distinct_shard in_set_conv_nth)
  have "set (cs_get_all_entries E s) = (\<Union>g \<in> set (shards s). set g)"
    by (auto simp: cs_get_all_entries_def set_table_iter [OF assms(2) d])
  then show "set (cs_get_all_entries E s) = {(k, v). lookup h s k = Some v}"
    by (auto simp: in_some_shard [OF assms(1)])
  have "map fst (cs_get_all_entries E s) = concat (map (\<lambda>g. hash_order E (map fst g)) (shards s))"
    by (simp add: cs_get_all_entries_def map_concat comp_def)
  moreover have "distinct (concat (map (\<lambda>g. hash_order E (map fst g)) (shards s)))"
    using assms(1) by (rule distinct_concat_shards)
      (simp add: distinct_order [OF assms(2)] set_order [OF assms(2)])
  ultimately show "distinct (map fst (cs_get_all_entries E s))" by simp
qed

subsection \<open>Rebuilding a value\<close>

text \<open>Two values hold the same, whatever their deadlines and the layout of their tables.\<close>

fun same_value :: "CacheValue \<Rightarrow> CacheValue \<Rightarrow> bool" where
  "same_value (String_v b _) (String_v b' _) \<longleftrightarrow> b = b'"
| "same_value (Hash_v hs) (Hash_v hs') \<longleftrightarrow> map_of (h_fields hs) = map_of (h_fields hs')"
| "same_value (List_v l) (List_v l') \<longleftrightarrow> l_items l = l_items l'"
| "same_value (Set_v st) (Set_v st') \<longleftrightarrow> set (s_members st) = set (s_members st')"
| "same_value (SortedSet_v z) (SortedSet_v z') \<longleftrightarrow>
     (\<lambda>m. map_option f64_rank (get_score m z)) = (\<lambda>m. map_option f64_rank (get_score m z'))"
| "same_value (Stream_v st) (Stream_v st') \<longleftrightarrow>
     bt_list (st_entries st) = bt_list (st_entries st') \<and> last_id st = last_id st'"
| "same_value _ _ \<longleftrightarrow> False"

fun empty_value :: "CacheValue \<Rightarrow> bool" where
  "empty_value (String_v _ _) \<longleftrightarrow> False"
| "empty_value (Hash_v hs) \<longleftrightarrow> h_fields hs = []"
| "empty_value (List_v l) \<longleftrightarrow> l_items l = []"
| "empty_value (Set_v st) \<longleftrightarrow> s_members st = []"
| "empty_value (SortedSet_v z) \<longleftrightarrow> member_scores z = []"
| "empty_value (Stream_v st) \<longleftrightarrow> bt_list (st_entries st) = []"

fun saved_expired :: "env \<Rightarrow> CacheValue \<Rightarrow> bool" where
  "saved_expired E (String_v _ e) \<longleftrightarrow> (case e of Some e \<Rightarrow> e \<le> now E | None \<Rightarrow> False)"
| "saved_expired E v \<longleftrightarrow> value_is_expired (now E) v"

fun size_fits :: "CacheValue \<Rightarrow> bool" where
  "size_fits (SortedSet_v z) \<longleftrightarrow> zset_len z < 2 ^ 64"
| "size_fits _ \<longleftrightarrow> True"

definition rebuilds :: "hasher \<Rightarrow> env \<Rightarrow> bytes \<Rightarrow> Command list \<Rightarrow> CacheValue \<Rightarrow> bool" where
  "rebuilds h E k cs v \<longleftrightarrow>
     (\<forall>s. sharded h s \<longrightarrow> lookup h s k = None \<longrightarrow>
        (\<exists>v' s'. apply_commands h E cs s = (Some (), s') \<and> sharded h s' \<and>
           lookup h s' = (lookup h s)(k \<mapsto> v') \<and> same_value v v' \<and> expires_at_ref v' = None))"

lemma rebuilds_one:
  assumes "\<And>s. apply_write_command h E c s = done_with (with_entry h k (f s) s)"
    and "\<And>s. snd (f s None) = Some v'" "same_value v v'" "expires_at_ref v' = None"
  shows "rebuilds h E k [c] v"
  unfolding rebuilds_def
proof (intro allI impI exI conjI)
  fix s
  assume s: "sharded h s" "lookup h s k = None"
  let ?s = "snd (with_entry h k (f s) s)"
  show "apply_commands h E [c] s = (Some (), ?s)" by (simp add: assms(1) done_with_def)
  show "sharded h ?s" using s(1) by (rule sharded_store.wf_entry)
  show "lookup h ?s = (lookup h s)(k \<mapsto> v')"
    using sharded_store.find_entry [OF s(1), of k "f s"] s(2) assms(2) by simp
qed (use assms(3,4) in simp_all)

lemma apply_commands_snoc:
  "apply_commands h E (cs @ [c]) s =
     (case apply_commands h E cs s of
        (None, s') \<Rightarrow> (None, s')
      | (Some _, s') \<Rightarrow> apply_write_command h E c s')"
  by (induction cs arbitrary: s) (auto split: prod.splits option.splits)

text \<open>A value built up by several commands: \<open>build xs\<close> is what the first ones leave.\<close>

lemma rebuilds_steps:
  assumes "\<And>x s. apply_write_command h E (cmd x) s = done_with (with_entry h k (f x) s)"
    and "xs \<noteq> []" "\<And>x zs. xs = x # zs \<Longrightarrow> snd (f x None) = Some (build [x])"
    and "\<And>ys x zs. xs = ys @ x # zs \<Longrightarrow> ys \<noteq> [] \<Longrightarrow> snd (f x (Some (build ys))) = Some (build (ys @ [x]))"
    and "same_value v (build xs)" "expires_at_ref (build xs) = None"
  shows "rebuilds h E k (map cmd xs) v"
  unfolding rebuilds_def
proof (intro allI impI)
  fix s
  assume s: "sharded h s" "lookup h s k = None"
  have "\<exists>s'. apply_commands h E (map cmd ys) s = (Some (), s') \<and> sharded h s' \<and>
      lookup h s' = (lookup h s)(k := (if ys = [] then None else Some (build ys)))"
    if "xs = ys @ zs" for ys zs
    using that
  proof (induction ys arbitrary: zs rule: rev_induct)
    case Nil
    then show ?case using s by (auto simp: fun_upd_idem)
  next
    case (snoc y ys)
    then have "xs = ys @ (y # zs)" by simp
    from snoc.IH [OF this]
    obtain s' where s': "apply_commands h E (map cmd ys) s = (Some (), s')" "sharded h s'"
      "lookup h s' = (lookup h s)(k := (if ys = [] then None else Some (build ys)))"
      by blast
    have "snd (f y (lookup h s' k)) = Some (build (ys @ [y]))"
      using assms(3) [of y zs] assms(4) [of ys y zs] snoc.prems s'(3) by (cases "ys = []") auto
    then show ?case
      using s' sharded_store.find_entry [OF s'(2), of k "f y"] sharded_store.wf_entry [OF s'(2), of k "f y"]
      by (auto simp: apply_commands_snoc assms(1) done_with_def)
  qed
  from this [of xs "[]"] show "\<exists>v' s'. apply_commands h E (map cmd xs) s = (Some (), s') \<and> sharded h s' \<and>
      lookup h s' = (lookup h s)(k \<mapsto> v') \<and> same_value v v' \<and> expires_at_ref v' = None"
    using assms(2,5,6) by auto
qed

lemma map_of_fold_update:
  "map_of (fold (\<lambda>(f, v). AList.update f v) ps t) = map_of t ++ map_of (rev ps)"
  by (induction ps arbitrary: t) (auto simp: update_conv' map_add_def fun_eq_iff split: option.splits)

lemma map_of_mset:
  assumes "mset xs = mset ys" "distinct (map fst ys)"
  shows "map_of xs = map_of ys"
proof -
  have "distinct (map fst xs)" using assms by (metis mset_eq_imp_distinct_iff mset_map)
  then show ?thesis using assms by (metis map_of_inject_set mset_eq_setD)
qed

lemma rebuilds_hash:
  assumes "hash_inv hs" "is_order ord" "h_fields hs \<noteq> []"
  shows "rebuilds h E k (map (\<lambda>(f, v). C_Hash (HSet k f v)) (hash_get_all ord hs)) (Hash_v hs)"
proof (rule rebuilds_steps [where build = "\<lambda>ps. Hash_v (hash_new\<lparr>h_fields := fold (\<lambda>(f, v). AList.update f v) ps []\<rparr>)"
      and f = "\<lambda>(f, v) e. case e of
         Some (Hash_v hs) \<Rightarrow> (case set_field f v hs of (old, hs') \<Rightarrow> (Inr (old = None), Some (Hash_v hs')))
       | Some _ \<Rightarrow> (Inl WRONGTYPE, e)
       | None \<Rightarrow> (Inr True, Some (Hash_v (snd (set_field f v hash_new))))"])
  let ?ps = "hash_get_all ord hs"
  have m: "mset ?ps = mset (h_fields hs)" using assms(1,2) by (simp add: hash_get_all_mset)
  then show "?ps \<noteq> []" using assms(3) by auto
  have "map_of (rev ?ps) = map_of (h_fields hs)"
    using m assms(1) by (intro map_of_mset) (simp_all add: hash_inv_def)
  then show "same_value (Hash_v hs) (Hash_v (hash_new\<lparr>h_fields := fold (\<lambda>(f, v). AList.update f v) ?ps []\<rparr>))"
    by (simp add: map_of_fold_update)
qed (auto simp: cs_hset_def set_field_def hash_new_def)

lemma rebuilds_list:
  "l_items l \<noteq> [] \<Longrightarrow> rebuilds h E k [C_List (RPush k (l_items l))] (List_v l)"
  by (rule rebuilds_one [where v' = "List_v (fold push_right (l_items l) list_new)"])
    (auto simp: cs_rpush_def Let_def fold_push_right list_new_def)

lemma rebuilds_set:
  assumes "is_order ord"
  shows "rebuilds h E k [C_Set (SAdd k (set_get_all ord st))] (Set_v st)"
  by (rule rebuilds_one [where v' = "Set_v (snd (add_all (set_get_all ord st) set_new))"])
    (auto simp: cs_sadd_def set_get_all_def set_order [OF assms] set_new_def split: prod.splits)

lemma rebuilds_string: "rebuilds h E k [C_String (Set k b None)] (String_v b e)"
  by (rule rebuilds_one [where v' = "String_v b None"]) (auto simp: cs_set_def)

lemma zset_whole_range:
  assumes "zset_len z < 2 ^ 64" "zset_inv z" "is_order ord"
  shows "List.map_filter (\<lambda>(member, score). map_option (\<lambda>x. (x, member)) score)
      (zset_get_range ord 0 (2 ^ 64 - 1) True z) = map prod.swap (zset_entries ord z)"
proof -
  have "range_loop 0 (2 ^ 64 - 1) 0 (zset_entries ord z) = zset_entries ord z"
    using assms zset_entries_members(3) [OF assms(2,3)] by (simp add: range_loop_slice)
  then show ?thesis
    by (simp add: zset_get_range_def with_score_def map_filter_def comp_def split_beta prod.swap_def)
qed

lemma rebuilds_zset:
  assumes "zset_inv z" "is_order ord"
  shows "rebuilds h E k [C_ZSet (ZAdd k (map prod.swap (zset_entries ord z)))] (SortedSet_v z)"
proof (rule rebuilds_one [where v' = "SortedSet_v (add_scores (map prod.swap (zset_entries ord z)) zset_new)"])
  have "map_option f64_rank (get_score m z) =
      map_option f64_rank (get_score m (add_scores (map prod.swap (zset_entries ord z)) zset_new))" for m
  proof -
    have d: "distinct (map fst (zset_entries ord z))" using zset_entries_members(1) [OF assms] .
    have mo: "map_of (rev (zset_entries ord z)) m = map_of (zset_entries ord z) m"
      using map_of_mset [of "rev (zset_entries ord z)" "zset_entries ord z"] d by simp
    have "map_option f64_rank (map_of (zset_entries ord z) m) = map_option f64_rank (get_score m z)"
      using zset_entries_iff [OF assms, of m] map_of_eq_Some_iff [OF d, of m]
      by (cases "get_score m z"; cases "map_of (zset_entries ord z) m") force+
    then show ?thesis
      by (cases "map_of (zset_entries ord z) m"; cases "get_score m z")
        (simp_all add: get_score_add_scores comp_def split_beta prod.swap_def mo)
  qed
  then show "same_value (SortedSet_v z) (SortedSet_v (add_scores (map prod.swap (zset_entries ord z)) zset_new))"
    by (simp add: fun_eq_iff)
qed (auto simp: cs_zadd_def zset_new_def)

lemma stream_inv_prefix:
  assumes "stream_inv st" "bt_list (st_entries st) = ys @ (i, fvs) # zs"
  shows "stream_id_min < i" "\<And>e. e \<in> set ys \<Longrightarrow> fst e < i" "bl_ordered (\<lambda>_. True) stream_id_rank ys"
  using assms by (auto simp: stream_inv_def bl_ordered_def sorted_wrt_append stream_id_rank_less)

lemma rebuilds_stream:
  assumes "stream_inv st" "bt_list (st_entries st) \<noteq> []"
  shows "rebuilds h E k (map (\<lambda>(i, fvs). C_Stream (XAdd k (Some (stream_id_to_string i)) fvs))
     (bt_list (st_entries st))) (Stream_v st)"
proof -
  define f where "f = (\<lambda>(i, fvs) e.
     let fresh = (case stream_add E (Some i) fvs stream_new of
                    (Inl err, _) \<Rightarrow> (Inl err, e)
                  | (Inr i, st) \<Rightarrow> (Inr i, Some (Stream_v st)))
     in case e of
          Some (Stream_v st) \<Rightarrow>
            if \<not> stream_is_expired (now E) st
            then (case stream_add E (Some i) fvs st of (r, st') \<Rightarrow> (r, Some (Stream_v st')))
            else fresh
        | None \<Rightarrow> fresh
        | Some _ \<Rightarrow> (Inl WRONGTYPE, e))"
  define build where "build = (\<lambda>ys. Stream_v \<lparr>st_entries = \<lparr>bt_rooted = True, bt_list = ys\<rparr>,
     last_id = fst (last ys), st_expires_at = None\<rparr>)"
  show ?thesis
  proof (rule rebuilds_steps [where f = f and build = build])
    show "snd (f x None) = Some (build [x])" if "bt_list (st_entries st) = x # zs" for x zs
      using stream_inv_prefix(1) [OF assms(1), of "[]" "fst x" "snd x" zs] that
      by (auto simp: f_def build_def stream_add_def stream_new_def bt_insert_def bt_new_def split: prod.splits)
    show "snd (f x (Some (build ys))) = Some (build (ys @ [x]))"
      if "bt_list (st_entries st) = ys @ x # zs" "ys \<noteq> []" for ys x zs
    proof -
      obtain i fvs where x: "x = (i, fvs)" by (cases x)
      note p = stream_inv_prefix [OF assms(1), of ys i fvs zs]
      have "bl_insert stream_id_cmp i fvs ys = ys @ [(i, fvs)]"
        using p that x by (intro id_order.insert_last) (auto simp: stream_id_rank_less)
      moreover have "fst (last ys) < i" using p(2) [of "last ys"] that x by simp
      ultimately show ?thesis
        by (auto simp: f_def build_def x stream_add_def bt_insert_def stream_is_expired_def Let_def)
    qed
    show "same_value (Stream_v st) (build (bt_list (st_entries st)))"
      using assms by (simp add: stream_inv_def build_def)
  qed (use assms in \<open>auto simp: cs_xadd_def f_def build_def stream_id_roundtrip\<close>)
qed

lemma zset_entries_empty: "zset_inv z \<Longrightarrow> is_order ord \<Longrightarrow> zset_entries ord z = [] \<longleftrightarrow> member_scores z = []"
  using zset_entries_members(2) [of z ord] by auto

lemma zset_commands:
  assumes "value_inv (SortedSet_v z)" "size_fits (SortedSet_v z)" "is_order (hash_order E)"
  shows "rebuild_commands E k (SortedSet_v z) =
    (if zset_is_expired (now E) z \<or> member_scores z = [] then None
     else Some [C_ZSet (ZAdd k (map prod.swap (zset_entries (hash_order E) z)))])"
proof -
  have z: "zset_len z < 2 ^ 64" "zset_inv z" using assms(1,2) by simp_all
  show ?thesis
    unfolding rebuild_commands.simps Let_def zset_whole_range [OF z assms(3)]
    using zset_entries_empty [OF z(2) assms(3)] by simp
qed

lemma hash_get_all_empty:
  "hash_inv hs \<Longrightarrow> is_order ord \<Longrightarrow> hash_get_all ord hs = [] \<longleftrightarrow> h_fields hs = []"
  using hash_get_all_mset [of ord hs] by (metis mset_zero_iff)

lemma set_get_all_empty: "is_order ord \<Longrightarrow> set_get_all ord st = [] \<longleftrightarrow> s_members st = []"
  using set_order [of ord "s_members st"] by (metis set_empty set_get_all_def)

lemma record_for_None:
  assumes "value_inv v" "size_fits v" "is_order (hash_order E)"
  shows "record_for E k v = None \<longleftrightarrow> empty_value v \<or> saved_expired E v"
proof (cases v)
  case (SortedSet_v z)
  then show ?thesis
    using zset_commands [of z E k] assms by (simp add: record_for_def del: rebuild_commands.simps)
qed (use assms in \<open>auto simp: record_for_def hash_get_all_empty set_get_all_empty\<close>)

lemma rebuild_commands_rebuild:
  assumes "value_inv v" "size_fits v" "is_order (hash_order E)" "rebuild_commands E k v = Some cs" "cs \<noteq> []"
  shows "rebuilds h E' k cs v"
proof (cases v)
  case (Hash_v hs)
  then have "cs = map (\<lambda>(f, v). C_Hash (HSet k f v)) (hash_get_all (hash_order E) hs)" "h_fields hs \<noteq> []"
    using assms by (auto simp: hash_get_all_empty split: if_splits)
  then show ?thesis using rebuilds_hash assms Hash_v by simp
next
  case (SortedSet_v z)
  then have "cs = [C_ZSet (ZAdd k (map prod.swap (zset_entries (hash_order E) z)))]"
    using zset_commands [of z E k] assms by (simp split: if_splits del: rebuild_commands.simps)
  then show ?thesis using rebuilds_zset assms SortedSet_v by simp
next
  case (Stream_v st)
  then show ?thesis using assms rebuilds_stream [of st h E' k] by (auto split: if_splits)
qed (use assms in \<open>auto simp: rebuilds_string rebuilds_list rebuilds_set split: if_splits\<close>)

subsection \<open>Loading the records\<close>

text \<open>
  The deadline a value has after the restart, from the deadline it had, and whether it is still
  to come: both through the wall clock, in milliseconds.
\<close>

definition reloaded_deadline :: "env \<Rightarrow> env \<Rightarrow> instant \<Rightarrow> instant" where
  "reloaded_deadline E E' e = now E' + millis (unat (to_unix_ms E e - word_of_nat (unix_ms E')))"

definition survives :: "env \<Rightarrow> env \<Rightarrow> CacheValue \<Rightarrow> bool" where
  "survives E E' v \<longleftrightarrow> \<not> empty_value v \<and> \<not> saved_expired E v \<and>
     (case expires_at_ref v of None \<Rightarrow> True | Some e \<Rightarrow> word_of_nat (unix_ms E') < to_unix_ms E e)"

definition restored :: "env \<Rightarrow> env \<Rightarrow> CacheValue option \<Rightarrow> CacheValue option \<Rightarrow> bool" where
  "restored E E' old new \<longleftrightarrow>
     (case old of
        None \<Rightarrow> new = None
      | Some v \<Rightarrow>
          if survives E E' v
          then (\<exists>v'. new = Some v' \<and> same_value v v' \<and>
                  expires_at_ref v' = map_option (reloaded_deadline E E') (expires_at_ref v))
          else new = None)"

definition deadline_fits :: "env \<Rightarrow> env \<Rightarrow> CacheValue \<Rightarrow> bool" where
  "deadline_fits E E' v \<longleftrightarrow>
     (case expires_at_ref v of None \<Rightarrow> True | Some e \<Rightarrow> reloaded_deadline E E' e div 1000000000 < 2 ^ 63)"

lemma same_value_expiry [simp]: "same_value v (expires_at_mut e v') \<longleftrightarrow> same_value v v'"
  by (cases v; cases v') (simp_all add: get_score_def)

lemma load_record_restores:
  assumes "value_inv v" "size_fits v" "is_order (hash_order E)" "deadline_fits E E' v"
    and "record_for E k v = Some r" "sharded h s" "lookup h s k = None"
  shows "\<exists>s' w. load_record h E' r s = (Some (survives E E' v), s') \<and> sharded h s' \<and>
     lookup h s' = (lookup h s)(k := w) \<and> restored E E' (Some v) w"
proof -
  obtain cs where cs: "rebuild_commands E k v = Some cs" "cs \<noteq> []"
    and r: "r = \<lparr>rec_key = k, rec_commands = cs, rec_expire_unix_ms = map_option (to_unix_ms E) (expires_at_ref v)\<rparr>"
    using assms(5) by (auto simp: record_for_def split: option.splits if_splits)
  have nd: "\<not> empty_value v" "\<not> saved_expired E v"
    using record_for_None [OF assms(1-3), of k] assms(5) by auto
  have "rebuilds h E' k cs v" using assms(1-3) cs by (rule rebuild_commands_rebuild)
  then obtain v' s' where s': "apply_commands h E' cs s = (Some (), s')" "sharded h s'"
    "lookup h s' = (lookup h s)(k \<mapsto> v')" "same_value v v'" "expires_at_ref v' = None"
    using assms(6,7) unfolding rebuilds_def by blast
  show ?thesis
  proof (cases "expires_at_ref v")
    case None
    then show ?thesis
      using s' nd by (auto simp: load_record_def r restored_def survives_def Let_def)
  next
    case (Some e)
    let ?at = "reloaded_deadline E E' e"
    show ?thesis
    proof (cases "survives E E' v")
      case True
      let ?s = "snd (cs_set_expiry h E' k ?at s')"
      have "\<not> value_is_expired (now E') v'" using s'(5) by (simp add: cache_expiry.expired_slot)
      then have "lookup h ?s = (lookup h s)(k \<mapsto> expires_at_mut (Some ?at) v')" "sharded h ?s"
        using s'(2,3) by (simp_all add: cs_set_expiry_def sharded_store.wf_entry sharded_store.find_entry)
      moreover have "load_record h E' r s = (Some True, ?s)"
        using True Some s'(1) assms(4)
        by (simp add: load_record_def r survives_def instant_add_def deadline_fits_def reloaded_deadline_def Let_def
            linorder_not_le)
      moreover have "restored E E' (Some v) (Some (expires_at_mut (Some ?at) v'))"
        using True Some s'(4) by (simp add: restored_def cache_expiry.slot_put)
      ultimately show ?thesis using True by (intro exI [of _ ?s] exI) auto
    next
      case False
      then have "load_record h E' r s = (Some False, s)"
        using Some nd by (simp add: load_record_def r survives_def Let_def linorder_not_less)
      moreover have "lookup h s = (lookup h s)(k := None)" using assms(7) by (simp add: fun_upd_idem)
      ultimately show ?thesis
        using False assms(6) by (auto simp: restored_def)
    qed
  qed
qed

lemma load_records_restores:
  assumes "distinct (map fst es)" "sharded h s" "\<And>k. k \<in> fst ` set es \<Longrightarrow> lookup h s k = None"
    and "is_order (hash_order E)" "\<And>k v. (k, v) \<in> set es \<Longrightarrow> value_inv v \<and> size_fits v \<and> deadline_fits E E' v"
  shows "\<exists>s'. load_records h E' (List.map_filter (\<lambda>(k, v). record_for E k v) es) s =
       (Some (length (filter (\<lambda>(k, v). survives E E' v) es)), s') \<and> sharded h s' \<and>
     (\<forall>k. case map_of es k of
        None \<Rightarrow> lookup h s' k = lookup h s k
      | Some v \<Rightarrow> restored E E' (Some v) (lookup h s' k))"
  using assms(1,2,3,5)
proof (induction es arbitrary: s)
  case Nil
  then show ?case by (simp add: map_filter_def)
next
  case (Cons e es)
  obtain k v where e: "e = (k, v)" by (cases e)
  have v: "value_inv v" "size_fits v" "deadline_fits E E' v" using Cons.prems(4) [of k v] e by auto
  have kn: "lookup h s k = None" "k \<notin> fst ` set es" using Cons.prems(1,3) e by auto
  have "\<exists>s1 w. (case record_for E k v of None \<Rightarrow> s1 = s \<and> \<not> survives E E' v
        | Some r \<Rightarrow> load_record h E' r s = (Some (survives E E' v), s1)) \<and> sharded h s1 \<and>
      lookup h s1 = (lookup h s)(k := w) \<and> restored E E' (Some v) w"
  proof (cases "record_for E k v")
    case None
    then have "\<not> survives E E' v" using record_for_None [OF v(1,2) assms(4)] by (auto simp: survives_def)
    then show ?thesis
      using None Cons.prems(2) kn(1) by (intro exI [of _ s] exI [of _ None]) (auto simp: restored_def fun_upd_idem)
  next
    case (Some r)
    from load_record_restores [OF v(1,2) assms(4) v(3) this Cons.prems(2) kn(1)] Some show ?thesis by auto
  qed
  then obtain s1 w where s1: "case record_for E k v of None \<Rightarrow> s1 = s \<and> \<not> survives E E' v
        | Some r \<Rightarrow> load_record h E' r s = (Some (survives E E' v), s1)"
      "sharded h s1" "lookup h s1 = (lookup h s)(k := w)" "restored E E' (Some v) w"
    by blast
  have "lookup h s1 j = None" if "j \<in> fst ` set es" for j
    using that kn(2) s1(3) Cons.prems(3) [of j] by auto
  from Cons.IH [OF _ s1(2) this] obtain s' where s': "load_records h E' (List.map_filter (\<lambda>(k, v). record_for E k v) es) s1 =
       (Some (length (filter (\<lambda>(k, v). survives E E' v) es)), s')" "sharded h s'"
     "\<And>k. case map_of es k of None \<Rightarrow> lookup h s' k = lookup h s1 k | Some v \<Rightarrow> restored E E' (Some v) (lookup h s' k)"
    using Cons.prems(1,4) by auto
  have "map_of es k = None" using kn(2) by (simp add: map_of_eq_None_iff)
  then have "lookup h s' k = w" using s'(3) [of k] s1(3) by simp
  moreover have "case map_of es j of None \<Rightarrow> lookup h s' j = lookup h s j | Some v \<Rightarrow> restored E E' (Some v) (lookup h s' j)"
    if "j \<noteq> k" for j using s'(3) [of j] s1(3) that by (simp split: option.splits)
  moreover have "load_records h E' (List.map_filter (\<lambda>(k, v). record_for E k v) (e # es)) s =
      (Some (length (filter (\<lambda>(k, v). survives E E' v) (e # es))), s')"
    using s1(1) s'(1) by (auto simp: e map_filter_simps split: option.splits)
  ultimately show ?case using s'(2) s1(4) by (intro exI [of _ s']) (auto simp: e)
qed

definition snapshot_ok :: "snap_codec \<Rightarrow> hasher \<Rightarrow> env \<Rightarrow> env \<Rightarrow> storage \<Rightarrow> bool" where
  "snapshot_ok sc h E E' s \<longleftrightarrow>
     storage_inv h s \<and> is_order (hash_order E) \<and> snap_codec_ok sc E' (create_snapshot E s) \<and>
     (\<forall>k v. lookup h s k = Some v \<longrightarrow> size_fits v \<and> deadline_fits E E' v)"

lemma snapshot_restores:
  assumes "snapshot_ok sc h E E' s"
  shows "\<exists>s'. load_snapshot_from_path sc h E' path (snd (save_snapshot_to_path sc E path s fs)) storage_new =
       (Some (Inr (card {k. \<exists>v. lookup h s k = Some v \<and> survives E E' v})), s') \<and>
     sharded h s' \<and> (\<forall>k. restored E E' (lookup h s k) (lookup h s' k))"
proof -
  let ?es = "cs_get_all_entries E s"
  have a: "sharded h s" "is_order (hash_order E)" "snap_codec_ok sc E' (create_snapshot E s)"
    using assms by (auto simp: snapshot_ok_def storage_inv_sharded)
  note es = set_all_entries [OF a(1,2)]
  have mo: "map_of ?es = lookup h s"
  proof
    fix k
    show "map_of ?es k = lookup h s k"
      using map_of_eq_Some_iff [OF es(2), of k] es(1) by (cases "lookup h s k"; cases "map_of ?es k") auto
  qed
  have v: "value_inv v \<and> size_fits v \<and> deadline_fits E E' v" if "(k, v) \<in> set ?es" for k v
    using that assms es(1) storage_inv_entry [of h s k] by (auto simp: snapshot_ok_def)
  have "\<exists>s'. load_records h E' (create_snapshot E s) storage_new =
       (Some (length (filter (\<lambda>(k, v). survives E E' v) ?es)), s') \<and> sharded h s' \<and>
     (\<forall>k. case map_of ?es k of None \<Rightarrow> lookup h s' k = lookup h storage_new k
        | Some v \<Rightarrow> restored E E' (Some v) (lookup h s' k))"
    unfolding create_snapshot_def
    by (rule load_records_restores [OF es(2) sharded_new lookup_new a(2)]) (use v in blast)
  then obtain s' where s': "load_records h E' (create_snapshot E s) storage_new =
       (Some (length (filter (\<lambda>(k, v). survives E E' v) ?es)), s')" "sharded h s'"
     "\<And>k. case map_of ?es k of None \<Rightarrow> lookup h s' k = lookup h storage_new k
        | Some v \<Rightarrow> restored E E' (Some v) (lookup h s' k)"
    by blast
  have "length (filter (\<lambda>(k, v). survives E E' v) ?es) = card (fst ` set (filter (\<lambda>(k, v). survives E E' v) ?es))"
    using es(2) distinct_card [of "map fst (filter (\<lambda>(k, v). survives E E' v) ?es)"] distinct_map_filter by fastforce
  also have "fst ` set (filter (\<lambda>(k, v). survives E E' v) ?es) = {k. \<exists>v. lookup h s k = Some v \<and> survives E E' v}"
    using es(1) by force
  finally have "load_snapshot_from_path sc h E' path (snd (save_snapshot_to_path sc E path s fs)) storage_new =
       (Some (Inr (card {k. \<exists>v. lookup h s k = Some v \<and> survives E E' v})), s')"
    using save_then_read [OF a(3), of h path fs storage_new] s'(1) by simp
  moreover have "restored E E' (lookup h s k) (lookup h s' k)" for k
    using s'(3) [of k] unfolding mo by (cases "lookup h s k") (simp_all add: restored_def)
  ultimately show ?thesis using s'(2) by blast
qed

end
