(* ===== verification/Durability_Properties.thy ===== *)
theory Durability_Properties
  imports Snapshot Server_Properties Keys_Properties
begin

text \<open>
  What survives a restart: the snapshot gives back every value, the log gives back the writes
  it kept, a script is logged as what it did, and serving a command is replaying it, with the
  exceptions the code has. The last section states how rotation, truncation and a torn tail
  behave.
\<close>

subsection \<open>Snapshots\<close>

text \<open>
  (C8) A snapshot loses nothing: saved and loaded into an empty server, every key that is
  neither empty nor expired comes back with the same contents, whatever its type, and with the
  deadline it had on the wall clock, to the millisecond; no other key appears; and the count
  reported is the number of keys restored.
\<close>

theorem snapshot_roundtrip:
  assumes "snapshot_ok sc h E E' s"
  shows "\<exists>s'. load_snapshot_from_path sc h E' path (snd (save_snapshot_to_path sc E path s fs)) storage_new =
       (Some (Inr (card {k. \<exists>v. lookup h s k = Some v \<and> survives E E' v})), s') \<and>
     sharded h s' \<and> (\<forall>k. restored E E' (lookup h s k) (lookup h s' k))"
  using assms by (rule snapshot_restores)

text \<open>An encoding of snapshots of one string under a key of one byte.\<close>

definition one_record :: "bytes \<Rightarrow> bytes \<Rightarrow> SnapshotRecord" where
  "one_record k v = \<lparr>rec_key = k, rec_commands = [C_String (Set k v None)], rec_expire_unix_ms = None\<rparr>"

definition sample_snap :: snap_codec where
  "sample_snap = \<lparr>
     sn_encode = (\<lambda>rs. case rs of
        [r] \<Rightarrow> (case rec_commands r of [C_String (Set k v t)] \<Rightarrow> Inr (k @ v) | _ \<Rightarrow> Inl ''unsupported'')
      | _ \<Rightarrow> Inl ''unsupported''),
     sn_decode = (\<lambda>b. Inr [one_record (take 1 b) (drop 1 b)]),
     sn_crc = (\<lambda>b. word_of_nat (length b))\<rparr>"

lemma one_string_lookup: "lookup (\<lambda>_. 5) (one_string k v) = [k \<mapsto> String_v v None]"
  by (simp add: one_string_def cs_set_def sharded_store.find_entry fun_eq_iff)

lemma singleton_list:
  assumes "set xs = {x}" "distinct xs"
  shows "xs = [x]"
proof -
  have "length xs = Suc 0" using distinct_card [OF assms(2)] assms(1) by simp
  then obtain y where "xs = [y]" by (cases xs) auto
  with assms(1) show ?thesis by simp
qed

lemma one_string_snapshot: "create_snapshot sample_env (one_string k v) = [one_record k v]"
proof -
  have o: "is_order (hash_order sample_env)" by (simp add: sample_env_def)
  note es = set_all_entries [OF one_string_facts(1) o, of k v]
  have "cs_get_all_entries sample_env (one_string k v) = [(k, String_v v None)]"
  proof -
    have "set (cs_get_all_entries sample_env (one_string k v)) = {(k, String_v v None)}"
      using es(1) by (auto simp: one_string_lookup split: if_splits)
    moreover have "distinct (cs_get_all_entries sample_env (one_string k v))"
      using es(2) by (simp add: distinct_map)
    ultimately show ?thesis by (rule singleton_list)
  qed
  then show ?thesis by (simp add: create_snapshot_def map_filter_simps record_for_def one_record_def)
qed

lemma one_string_ok: "snapshot_ok sample_snap (\<lambda>_. 5) sample_env sample_env (one_string ''k'' ''v'')"
  unfolding snapshot_ok_def
proof (intro conjI)
  show "storage_inv (\<lambda>_. 5) (one_string ''k'' ''v'')"
    by (simp add: one_string_def cs_set_inv)
  show "is_order (hash_order sample_env)" by (simp add: sample_env_def)
  show "snap_codec_ok sample_snap sample_env (create_snapshot sample_env (one_string ''k'' ''v''))"
    unfolding one_string_snapshot
    by (simp add: snap_codec_ok_def sample_snap_def one_record_def sample_env_def)
qed (simp add: one_string_lookup deadline_fits_def split: if_splits)

theorem snapshot_roundtrip_witness:
  "\<exists>s'. load_snapshot_from_path sample_snap (\<lambda>_. 5) sample_env ''f''
        (snd (save_snapshot_to_path sample_snap sample_env ''f'' (one_string ''k'' ''v'') [])) storage_new =
       (Some (Inr (card {k. \<exists>v. lookup (\<lambda>_. 5) (one_string ''k'' ''v'') k = Some v \<and> survives sample_env sample_env v})), s') \<and>
     sharded (\<lambda>_. 5) s' \<and>
     (\<forall>k. restored sample_env sample_env (lookup (\<lambda>_. 5) (one_string ''k'' ''v'') k) (lookup (\<lambda>_. 5) s' k))"
  using one_string_ok by (rule snapshot_roundtrip)

subsection \<open>The log\<close>

definition entry_len :: "wal_codec \<Rightarrow> Command \<Rightarrow> nat" where
  "entry_len cd c = (case wc_encode cd c of Inr b \<Rightarrow> 24 + length b | Inl _ \<Rightarrow> 0)"

abbreviation log_writes :: "wal_codec \<Rightarrow> (env \<times> Command) list \<Rightarrow> WriteAheadLog \<Rightarrow> WriteAheadLog" where
  "log_writes cd ws w \<equiv> fold (\<lambda>(E, c) w. snd (append_command cd E c w)) ws w"

lemma length_entry_bytes: "codec_ok cd (we_command e) \<Longrightarrow> length (entry_bytes cd e) = entry_len cd (we_command e)"
  by (auto simp: entry_bytes_def entry_serialize_def entry_len_def Let_def elim!: codec_okE)

lemma append_kept:
  fixes E :: env
  assumes "wal_holds cd segs active w" "codec_ok cd c" "wal_size w + entry_len cd c < wal_max w"
  defines "w' \<equiv> snd (append_command cd E c w)"
  shows "wal_holds cd segs (active @ [entry_new E (wal_seq w) c]) w'"
    "wal_size w' = wal_size w + entry_len cd c" "wal_max w' = wal_max w"
proof -
  let ?e = "entry_new E (wal_seq w) c"
  have ok: "codec_ok cd (we_command ?e)" using assms(2) by (simp add: entry_new_def)
  then have ser: "entry_serialize cd ?e = Inr (entry_bytes cd ?e)"
    by (auto simp: entry_bytes_def elim: entry_framed)
  let ?w1 = "bw_write_all (entry_bytes cd ?e) (w\<lparr>wal_seq := wal_seq w + 1\<rparr>)"
  let ?w2 = "if wal_sync ?w1 = Sync_Always then bw_flush ?w1 else ?w1"
  let ?w3 = "?w2\<lparr>wal_size := wal_size ?w2 + length (entry_bytes cd ?e)\<rparr>"
  have size: "length (entry_bytes cd ?e) = entry_len cd c"
    using length_entry_bytes [OF ok] by (simp add: entry_new_def)
  have "w' = ?w3"
    using assms(3) size by (simp add: w'_def append_command_def ser Let_def should_rotate_def)
  moreover have "wal_holds cd segs active (w\<lparr>wal_seq := wal_seq w + 1\<rparr>)"
    by (rule wal_holds_fields [OF assms(1)]) simp_all
  then have "wal_holds cd segs (active @ [?e]) ?w2" using wal_holds_write [OF _ ok] wal_holds_flush by simp
  then have "wal_holds cd segs (active @ [?e]) ?w3" by (rule wal_holds_fields) simp_all
  ultimately show "wal_holds cd segs (active @ [?e]) w'" "wal_size w' = wal_size w + entry_len cd c"
    "wal_max w' = wal_max w" using size by simp_all
qed

lemma log_writes_kept:
  assumes "wal_holds cd segs active w" "list_all (\<lambda>(E, c). codec_ok cd c) ws"
    "wal_size w + sum_list (map (\<lambda>(E, c). entry_len cd c) ws) < wal_max w"
  shows "\<exists>es. wal_holds cd segs (active @ es) (log_writes cd ws w) \<and> map we_command es = map snd ws"
  using assms
proof (induction ws arbitrary: w active)
  case Nil
  then show ?case by auto
next
  case (Cons x ws)
  obtain E c where x: "x = (E, c)" by (cases x)
  let ?w = "snd (append_command cd E c w)"
  have c: "codec_ok cd c" "wal_size w + entry_len cd c < wal_max w" using Cons.prems x by auto
  note k = append_kept [OF Cons.prems(1) c, of E]
  have "\<exists>es. wal_holds cd segs ((active @ [entry_new E (wal_seq w) c]) @ es) (log_writes cd ws ?w) \<and>
      map we_command es = map snd ws"
    using Cons.prems(2,3) k x by (intro Cons.IH) (auto simp: ac_simps)
  then obtain es where "wal_holds cd segs (active @ (entry_new E (wal_seq w) c # es)) (log_writes cd ws ?w)"
    "map we_command es = map snd ws" by auto
  then show ?case
    by (intro exI [of _ "entry_new E (wal_seq w) c # es"]) (simp add: x entry_new_def)
qed

text \<open>
  Until a rotation, the log is exact: what a restart replays after a sync is what the log
  held before, followed by every command appended since, in order, whatever the buffer and the
  sync policy did in between.
\<close>

theorem wal_exact_until_rotation:
  assumes "wal_inv cd w" "list_all (\<lambda>(E, c). codec_ok cd c) ws"
    and "wal_size w + sum_list (map (\<lambda>(E, c). entry_len cd c) ws) < wal_max w"
  shows "map we_command (wal_log cd (log_writes cd ws w)) = map we_command (wal_log cd w) @ map snd ws"
proof -
  obtain segs active where h: "wal_holds cd segs active w" using assms(1) by (auto simp: wal_inv_def)
  obtain es where "wal_holds cd segs (active @ es) (log_writes cd ws w)" "map we_command es = map snd ws"
    using log_writes_kept [OF h assms(2,3)] by blast
  then show ?thesis using wal_log_holds [OF h] by (simp add: wal_log_holds)
qed

definition fresh_wal :: WriteAheadLog where
  "fresh_wal = projr (wal_open ''w'' Sync_EverySecond 1000 1 [])"

lemma fresh_wal_holds: "wal_holds cd [] [] fresh_wal" "wal_log cd fresh_wal = []" "wal_size fresh_wal = 0"
    "wal_max fresh_wal = 1000" "wal_buf fresh_wal = []" "wal_append fresh_wal" "wal_path fresh_wal = ''w''"
proof -
  show "wal_holds cd [] [] fresh_wal"
    by (auto simp: fresh_wal_def wal_open_empty wal_holds_def wal_stream_def at_end_def file_content_def)
  then show "wal_log cd fresh_wal = []" by (simp add: wal_log_holds)
qed (simp_all add: fresh_wal_def wal_open_empty)

definition sample_codec :: wal_codec where
  "sample_codec = cfg_codec sample_cfg"

lemma sample_codec_ok: "length k < 2 ^ 32 \<Longrightarrow> codec_ok sample_codec (C_String (Delete k))"
  by (simp add: sample_codec_def sample_cfg_def codec_ok_def)

lemma sample_codec_len: "entry_len sample_codec (C_String (Delete k)) = 24 + length k"
  by (simp add: sample_codec_def sample_cfg_def entry_len_def)

theorem wal_exact_until_rotation_witness:
  "map we_command (wal_log sample_codec (log_writes sample_codec
     [(sample_env, C_String (Delete ''a'')), (sample_env, C_String (Delete ''b''))] fresh_wal)) =
   [C_String (Delete ''a''), C_String (Delete ''b'')]"
proof -
  let ?ws = "[(sample_env, C_String (Delete ''a'')), (sample_env, C_String (Delete ''b''))]"
  have "wal_inv sample_codec fresh_wal" using fresh_wal_holds(1) by (auto simp: wal_inv_def)
  moreover have "list_all (\<lambda>(E, c). codec_ok sample_codec c) ?ws" by (simp add: sample_codec_ok)
  moreover have "wal_size fresh_wal + sum_list (map (\<lambda>(E, c). entry_len sample_codec c) ?ws) < wal_max fresh_wal"
    by (simp add: fresh_wal_holds sample_codec_len)
  ultimately show ?thesis using wal_exact_until_rotation [of sample_codec fresh_wal ?ws] by (simp add: fresh_wal_holds)
qed

text \<open>
  Rotation keeps the newest segments only: what is replayed afterwards is the active file
  and the newest segments, as many as \<open>max(backup_count, 1)\<close>, in the order they were written.
  With a backup count of one, every command logged before the current file was started is gone,
  snapshot or not.
\<close>

theorem rotation_keeps_newest:
  assumes "wal_holds cd segs active w"
  shows "wal_log cd (rotate_wal w) = concat (rev (take (max (wal_backup_count w) 1) (active # segs)))"
  using wal_log_holds [OF wal_holds_rotate [OF assms]] by (simp add: segments_to_keep_def)

theorem rotation_keeps_newest_witness:
  "wal_log sample_codec (rotate_wal (rotate_wal (snd (append_command sample_codec sample_env (C_String (Delete ''a'')) fresh_wal)))) = []"
proof -
  let ?c = "C_String (Delete ''a'')"
  let ?w = "rotate_wal (snd (append_command sample_codec sample_env ?c fresh_wal))"
  have "wal_holds sample_codec [] ([] @ [entry_new sample_env (wal_seq fresh_wal) ?c]) (snd (append_command sample_codec sample_env ?c fresh_wal))"
    by (rule append_kept) (simp_all add: fresh_wal_holds sample_codec_ok sample_codec_len)
  note r = wal_holds_rotate [OF this]
  have one: "wal_backup_count (snd (append_command sample_codec sample_env ?c fresh_wal)) = 1"
    by (simp add: append_command_def Let_def fresh_wal_def wal_open_empty split: sum.split)
  show ?thesis
    using rotation_keeps_newest [OF r] one by (simp add: segments_to_keep_def)
qed

subsection \<open>Restart\<close>

lemma truncate_holds:
  assumes "wal_holds cd segs active w" "wal_buf w = []"
  shows "wal_holds cd segs [] (truncate_after_snapshot w)"
  using assms
  by (auto simp: wal_holds_def truncate_after_snapshot_def Let_def segments_to_keep_def wal_stream_def at_end_def
      bw_flush_def handle_write_def update_conv' write_at_def file_content_def)

lemma truncate_fields [simp]:
  "wal_size (truncate_after_snapshot w) = 0" "wal_max (truncate_after_snapshot w) = wal_max w"
  by (simp_all add: truncate_after_snapshot_def Let_def)

text \<open>
  (C7) A restart recovers the state: after a snapshot, with nothing in the log's buffer and no
  rotated segments, and any writes logged since (short of a rotation), loading gives the
  storage of the snapshot with exactly those writes applied on top, in order.
\<close>

theorem restart_recovers:
  assumes "snapshot_ok sc h E E' s" "wal_holds cd [] active w" "wal_buf w = []"
    and "list_all (\<lambda>(E, c). codec_ok cd c) ws" "sum_list (map (\<lambda>(E, c). entry_len cd c) ws) < wal_max w"
    and "save_snapshot sc E path s fs (Some w) = (r, fs', Some w')"
  shows "\<exists>s'. (\<forall>k. restored E E' (lookup h s k) (lookup h s' k)) \<and>
    load_from_persistence sc cd h E' (Some path) fs' (Some (sync_wal (log_writes cd ws w'))) storage_new =
      (case apply_commands h E' (map snd ws) s' of
         (None, t) \<Rightarrow> (None, t) | (Some _, t) \<Rightarrow> (Some (Inr ()), t))"
proof -
  have ok: "fst (save_snapshot_to_path sc E path s fs) = Inr ()"
    using assms(1) by (auto simp: snapshot_ok_def snap_codec_ok_def save_snapshot_to_path_def Let_def)
  then have f: "fs' = snd (save_snapshot_to_path sc E path s fs)" "w' = truncate_after_snapshot w"
    using assms(6) by (auto simp: save_snapshot_def split: prod.splits sum.splits)
  obtain s' n where s': "load_snapshot_from_path sc h E' path fs' storage_new = (Some (Inr n), s')"
    "\<forall>k. restored E E' (lookup h s k) (lookup h s' k)"
    using snapshot_restores [OF assms(1), of path fs] f(1) by auto
  have "wal_holds cd [] [] w'" using truncate_holds [OF assms(2,3)] f(2) by simp
  then obtain es where es: "wal_holds cd [] es (log_writes cd ws w')" "map we_command es = map snd ws"
    using log_writes_kept [OF _ assms(4), of "[]" "[]" w'] assms(5) f(2) by auto
  have "wal_replay cd (sync_wal (log_writes cd ws w')) = (es, None)"
    using wal_holds_replay [OF wal_holds_flush [OF es(1)]] by (simp add: sync_wal_def)
  then have "load_from_persistence sc cd h E' (Some path) fs' (Some (sync_wal (log_writes cd ws w'))) storage_new =
      (case apply_commands h E' (map snd ws) s' of
         (None, t) \<Rightarrow> (None, t) | (Some _, t) \<Rightarrow> (Some (Inr ()), t))"
    using s'(1) es(2) by (simp add: load_from_persistence_def split: prod.splits option.splits)
  with s'(2) show ?thesis by blast
qed

theorem restart_recovers_witness:
  "\<exists>s'. (\<forall>k. restored sample_env sample_env (lookup (\<lambda>_. 5) (one_string ''k'' ''v'') k) (lookup (\<lambda>_. 5) s' k)) \<and>
    load_from_persistence sample_snap sample_codec (\<lambda>_. 5) sample_env (Some ''f'')
      (snd (save_snapshot_to_path sample_snap sample_env ''f'' (one_string ''k'' ''v'') []))
      (Some (sync_wal (log_writes sample_codec [(sample_env, C_String (Delete ''k''))] (truncate_after_snapshot fresh_wal))))
      storage_new =
      (Some (Inr ()), snd (cs_delete (\<lambda>_. 5) ''k'' s'))"
proof -
  let ?ws = "[(sample_env, C_String (Delete ''k''))]"
  have "sn_encode sample_snap (create_snapshot sample_env (one_string ''k'' ''v'')) = Inr ''kv''"
    unfolding one_string_snapshot by (simp add: sample_snap_def one_record_def)
  then have "save_snapshot sample_snap sample_env ''f'' (one_string ''k'' ''v'') [] (Some fresh_wal) =
      (Inr (), snd (save_snapshot_to_path sample_snap sample_env ''f'' (one_string ''k'' ''v'') []),
       Some (truncate_after_snapshot fresh_wal))"
    by (simp add: save_snapshot_def save_snapshot_to_path_def Let_def)
  from restart_recovers [OF one_string_ok fresh_wal_holds(1,5) _ _ this, of sample_codec ?ws]
  show ?thesis by (simp add: sample_codec_ok sample_codec_len fresh_wal_holds done_with_def)
qed

text \<open>
  A snapshot does not clear the rotated segments: after it, a restart replays them over
  the snapshot, although it already holds what they did.
\<close>

theorem truncation_keeps_segments:
  assumes "wal_holds cd segs active w" "wal_buf w = []"
  shows "wal_log cd (truncate_after_snapshot w) = concat (rev segs)"
  using wal_log_holds [OF truncate_holds [OF assms]] by simp

theorem truncation_keeps_segments_witness:
  "map we_command (wal_log sample_codec (truncate_after_snapshot (rotate_wal (snd (append_command sample_codec sample_env
     (C_String (Delete ''a'')) fresh_wal))))) = [C_String (Delete ''a'')]"
proof -
  let ?c = "C_String (Delete ''a'')"
  have "wal_holds sample_codec [] ([] @ [entry_new sample_env (wal_seq fresh_wal) ?c]) (snd (append_command sample_codec sample_env ?c fresh_wal))"
    by (rule append_kept) (simp_all add: fresh_wal_holds sample_codec_ok sample_codec_len)
  note r = wal_holds_rotate [OF this]
  have "0 < segments_to_keep (snd (append_command sample_codec sample_env ?c fresh_wal))"
    by (simp add: segments_to_keep_def)
  then show ?thesis
    using truncation_keeps_segments [OF r] by (simp add: take_Cons' entry_new_def)
qed

text \<open>
  What the log's buffer still holds when a snapshot truncates the file is written into the
  emptied file, and the next write starts over it at position zero: the file then holds the new
  bytes followed by the end of the stale ones.
\<close>

theorem truncation_writes_stale_buffer:
  assumes "wal_append w"
  shows "file_content (wal_path w) (wal_files (handle_write data (truncate_after_snapshot w))) =
    data @ drop (length data) (wal_buf w)"
  using assms
  by (simp add: truncate_after_snapshot_def Let_def handle_write_def bw_flush_def file_content_def
      update_conv' write_at_def)

theorem truncation_writes_stale_buffer_witness:
  "file_content ''w'' (wal_files (handle_write ''new'' (truncate_after_snapshot (fresh_wal\<lparr>wal_buf := ''stale entry''\<rparr>)))) =
     ''newle entry''"
  using truncation_writes_stale_buffer [of "fresh_wal\<lparr>wal_buf := ''stale entry''\<rparr>" "''new''"]
  by (simp add: fresh_wal_holds)

subsection \<open>A torn tail\<close>

lemma replay_file_append:
  "list_all (\<lambda>e. codec_ok cd (we_command e)) es \<Longrightarrow>
     replay_file cd (log_bytes cd es @ tail) = apfst ((@) es) (replay_file cd tail)"
proof (induction es)
  case Nil
  then show ?case by (cases "replay_file cd tail") simp
next
  case (Cons e es)
  then show ?case
    using replay_file_entry [of cd e "log_bytes cd es @ tail"] by (cases "replay_file cd tail") simp
qed

lemma read_torn:
  assumes "codec_ok cd (we_command e)" "entry_bytes cd e = a @ b" "b \<noteq> []" "20 \<le> length a"
  shows "read_frame a = Frame_torn"
proof -
  obtain header body where f: "entry_serialize cd e = Inr (header @ body)" "length header = 20"
    "length body = from_be (take 4 (drop 16 header)) + 4"
    using assms(1) by (rule entry_framed)
  then have ab: "a @ b = header @ body" using assms(2) by (simp add: entry_bytes_def)
  have "take 20 (a @ b) = take 20 a" using assms(4) by simp
  with ab f(2) have "take 20 a = header" by simp
  then have "take 4 (drop 16 a) = take 4 (drop 16 header)"
    by (auto simp: drop_take)
  moreover have "length a < length header + length body"
  proof -
    have "length a + length b = length header + length body" using ab by (metis length_append)
    then show ?thesis using assms(3) by (cases b) auto
  qed
  ultimately show ?thesis using f(2,3) assms(4) by (simp add: read_frame_def Let_def)
qed

lemma scan_log:
  "list_all (\<lambda>e. codec_ok cd (we_command e)) es \<Longrightarrow>
     scan_sequences (log_bytes cd es @ tail) = rbind (scan_sequences tail) (\<lambda>qs. Inr (map we_sequence es @ qs))"
proof (induction es)
  case Nil
  then show ?case by (cases "scan_sequences tail") simp_all
next
  case (Cons e es)
  then obtain header body where f: "entry_serialize cd e = Inr (header @ body)" "length header = 20"
    "length body = from_be (take 4 (drop 16 header)) + 4" "entry_deserialize cd (header @ body) = Inr e"
    by (auto elim: entry_framed)
  have "read_frame (entry_bytes cd e @ log_bytes cd es @ tail) = Frame header body (log_bytes cd es @ tail)"
    using f by (simp add: read_frame_def entry_bytes_def Let_def)
  moreover have "word_of_nat (from_be (take 8 header)) = we_sequence e"
    using f by (auto simp: entry_deserialize_def Let_def split: if_splits sum.splits)
  ultimately show ?case
    using Cons by (subst scan_sequences.simps) (cases "scan_sequences tail"; simp)
qed



subsection \<open>Serving and replaying\<close>

text \<open>
  (C14) Serving a command refines replaying it: apart from an \<open>EXPIREAT\<close> before the epoch and an
  \<open>XADD\<close> whose id does not parse, the storage a served command leaves, and whether it panics,
  is what applying the same command gives; a command that is not logged leaves the storage
  alone.
\<close>

theorem serving_refines_replaying:
  assumes "exec_storage h E cmd s = Some x" "\<not> replay_differs cmd"
  shows "snd x = snd (apply_write_command h E cmd s) \<and>
    (if is_write_command cmd then (fst x = None \<longleftrightarrow> fst (apply_write_command h E cmd s) = None)
     else snd x = s)"
  using exec_storage_effect [OF assms] exec_storage_applies [OF assms(1) _ assms(2)] exec_storage_reads [OF assms(1)]
  by (auto simp: served_as_def)

theorem serving_refines_replaying_witness:
  "snd (exec_list (\<lambda>_. 5) sample_env (LPush ''l'' [''a'']) storage_new) =
     snd (apply_write_command (\<lambda>_. 5) sample_env (C_List (LPush ''l'' [''a''])) storage_new)"
  using serving_refines_replaying [of "\<lambda>_. 5" sample_env "C_List (LPush ''l'' [''a''])" storage_new
      "exec_list (\<lambda>_. 5) sample_env (LPush ''l'' [''a'']) storage_new"]
  by (simp del: exec_list.simps)

text \<open>
  The two exceptions lose or invent data on a restart or on a replica: an \<open>EXPIREAT\<close> with a
  negative time deletes the key where it is served, and leaves it where it is replayed; an
  \<open>XADD\<close> with an unparsable id is refused where it is served, and appends an entry under an
  automatic id where it is replayed.
\<close>

theorem replay_diverges:
  assumes "sharded h s" "n < 0" "stream_id_parse t False = Inl err"
  shows "lookup h (snd (exec_key h E (ExpireAt k n) s)) k = None \<and>
    snd (apply_write_command h E (C_Key (ExpireAt k n)) s) = s \<and>
    snd (exec_stream h E (XAdd k' (Some t) fvs) s) = s \<and>
    snd (apply_write_command h E (C_Stream (XAdd k' (Some t) fvs)) s) = snd (cs_xadd h E k' None fvs s)"
proof -
  have "n \<le> int (unix_ms E div 1000)" using assms(2) by linarith
  then show ?thesis
    using assms sharded_store.find_entry [OF assms(1)]
    by (auto simp: Let_def cs_delete_def split_beta)
qed

theorem replay_diverges_witness:
  "lookup (\<lambda>_. 5) (snd (exec_key (\<lambda>_. 5) sample_env (ExpireAt ''k'' (- 1)) (one_string ''k'' ''v''))) ''k'' = None \<and>
    snd (apply_write_command (\<lambda>_. 5) sample_env (C_Key (ExpireAt ''k'' (- 1))) (one_string ''k'' ''v'')) =
      one_string ''k'' ''v'' \<and>
    snd (exec_stream (\<lambda>_. 5) sample_env (XAdd ''q'' (Some ''x'') []) (one_string ''k'' ''v'')) = one_string ''k'' ''v'' \<and>
    snd (apply_write_command (\<lambda>_. 5) sample_env (C_Stream (XAdd ''q'' (Some ''x'') [])) (one_string ''k'' ''v'')) =
      snd (cs_xadd (\<lambda>_. 5) sample_env ''q'' None [] (one_string ''k'' ''v''))"
proof (rule replay_diverges)
  show "sharded (\<lambda>_. 5) (one_string ''k'' ''v'')" by (rule one_string_facts)
  show "stream_id_parse ''x'' False = Inl ''invalid stream id: x''" by code_simp
qed simp

text \<open>
  (C30) A script is logged as what it did: whatever the interpreter computes and however it ends,
  an error or a refused call included, the writes recorded for the log and the replicas, applied
  in any environment, give the storage the script left.
\<close>

theorem script_recorded_exactly:
  "case run_script lua h E source keys argv acl s of (resp, s', script_writes) \<Rightarrow>
     replay h E' script_writes s = s'"
  using run_script_replays [of h E' s lua E source keys argv acl] by (simp add: replays_def split_beta)

end
