(* ===== verification/Run.thy ===== *)
theory Run
  imports Tls_Connection Durability_Properties
begin

text \<open>
  The process after the start (\<open>CacheServer::run\<close>): the connections and the cleanup of \<open>System\<close>, the
  task that syncs the log every second and the task that takes snapshots, interleaved. A snapshot is
  three steps, as the code holds no lock across them: the records are gathered, the file is written
  and renamed, the log is truncated. \<open>snap\<close> is the path and the interval of the snapshot manager, when
  there is one.
\<close>

datatype snapshot_phase = Snap_idle | Snap_taken "SnapshotRecord list" | Snap_written

record running =
  rn_sys :: system
  rn_files :: "bytes table"
  rn_phase :: snapshot_phase

abbreviation rn_server :: "running \<Rightarrow> server" where
  "rn_server r \<equiv> sys_server (rn_sys r)"

definition with_server :: "(server \<Rightarrow> server) \<Rightarrow> running \<Rightarrow> running" where
  "with_server f r = r\<lparr>rn_sys := (rn_sys r)\<lparr>sys_server := f (rn_server r)\<rparr>\<rparr>"

subsection \<open>The tasks\<close>

definition sync_tick :: "server \<Rightarrow> server" where
  "sync_tick sv = sv\<lparr>sv_wal := map_option (\<lambda>w. if wal_sync w = Sync_EverySecond then sync_wal w else w) (sv_wal sv)\<rparr>"

definition snapshot_take :: "env \<Rightarrow> running \<Rightarrow> running" where
  "snapshot_take E r = r\<lparr>rn_phase := Snap_taken (create_snapshot E (sv_storage (rn_server r)))\<rparr>"

definition write_snapshot ::
    "snap_codec \<Rightarrow> env \<Rightarrow> bytes \<Rightarrow> SnapshotRecord list \<Rightarrow> bytes table \<Rightarrow> (SnapshotError + unit) \<times> bytes table" where
  "write_snapshot sc E path records fs =
     (case sn_encode sc records of
        Inl e \<Rightarrow> (Inl (Snap_SerializationError e), fs)
      | Inr blob \<Rightarrow>
          (let temp_path = path @ ''.tmp'';
               fs = AList.update temp_path (snapshot_bytes sc E (length records) blob) fs;
               fs = AList.update path (file_content temp_path fs) (AList.delete temp_path fs)
           in (Inr (), fs)))"

definition snapshot_write :: "snap_codec \<Rightarrow> env \<Rightarrow> bytes \<Rightarrow> running \<Rightarrow> running" where
  "snapshot_write sc E path r =
     (case rn_phase r of
        Snap_taken records \<Rightarrow>
          (case write_snapshot sc E path records (rn_files r) of
             (Inl _, fs) \<Rightarrow> r\<lparr>rn_files := fs, rn_phase := Snap_idle\<rparr>
           | (Inr _, fs) \<Rightarrow> r\<lparr>rn_files := fs, rn_phase := Snap_written\<rparr>)
      | _ \<Rightarrow> r)"

definition snapshot_truncate :: "running \<Rightarrow> running" where
  "snapshot_truncate r =
     (case rn_phase r of
        Snap_written \<Rightarrow> (with_server (\<lambda>sv. sv\<lparr>sv_wal := map_option truncate_after_snapshot (sv_wal sv)\<rparr>) r)\<lparr>rn_phase := Snap_idle\<rparr>
      | _ \<Rightarrow> r)"

inductive run_step ::
    "(proto_error \<Rightarrow> bytes) \<Rightarrow> config \<Rightarrow> snap_codec \<Rightarrow> (bytes \<times> nat) option \<Rightarrow> running \<Rightarrow> running \<Rightarrow> bool"
  for show_error cfg sc snap where
  serve_run: "system_step show_error cfg (rn_sys r) sys' \<Longrightarrow> run_step show_error cfg sc snap r (r\<lparr>rn_sys := sys'\<rparr>)"
| sync_run: "run_step show_error cfg sc snap r (with_server sync_tick r)"
| take_run: "snap = Some (path, interval) \<Longrightarrow> interval > 0 \<Longrightarrow> rn_phase r = Snap_idle \<Longrightarrow>
    run_step show_error cfg sc snap r (snapshot_take E r)"
| write_run: "snap = Some (path, interval) \<Longrightarrow> run_step show_error cfg sc snap r (snapshot_write sc E path r)"
| truncate_run: "run_step show_error cfg sc snap r (snapshot_truncate r)"

inductive runs ::
    "(proto_error \<Rightarrow> bytes) \<Rightarrow> config \<Rightarrow> snap_codec \<Rightarrow> (bytes \<times> nat) option \<Rightarrow> running \<Rightarrow> running \<Rightarrow> bool"
  for show_error cfg sc snap r0 where
  runs_start: "runs show_error cfg sc snap r0 r0"
| runs_step: "runs show_error cfg sc snap r0 r \<Longrightarrow> run_step show_error cfg sc snap r r' \<Longrightarrow> runs show_error cfg sc snap r0 r'"

text \<open>What a restart finds: the files of the snapshot and of the log, not what was in memory.\<close>

definition restart :: "snap_codec \<Rightarrow> config \<Rightarrow> env \<Rightarrow> bytes \<Rightarrow> running \<Rightarrow> (RestartError + unit) option \<times> storage" where
  "restart sc cfg E path r =
     load_from_persistence sc (cfg_codec cfg) (cfg_hash cfg) E (Some path) (rn_files r) (sv_wal (rn_server r)) storage_new"

subsection \<open>The tasks change nothing but the log and the files\<close>

definition sans_wal :: "server \<Rightarrow> server" where
  "sans_wal sv = sv\<lparr>sv_wal := None\<rparr>"

lemma sans_wal_log_write: "sans_wal (log_write cfg E c sv) = log_write cfg E c (sans_wal sv)"
  by (simp add: sans_wal_def log_write_def)

lemma sans_wal_log_all: "sans_wal (log_all cfg ws sv) = log_all cfg ws (sans_wal sv)"
  by (induction ws arbitrary: sv) (auto simp: sans_wal_log_write)

lemma has_history_sans_wal: "has_history cfg sv sv' \<Longrightarrow> has_history cfg (sans_wal sv) (sans_wal sv')"
  by (auto simp: has_history_def history_of_def sans_wal_log_all [symmetric])
    (auto simp: sans_wal_def logs_agree_def)

lemma task_server [simp]:
  "rn_server (with_server f r) = f (rn_server r)" "sys_conns (rn_sys (with_server f r)) = sys_conns (rn_sys r)"
  "rn_sys (snapshot_take E r) = rn_sys r" "rn_sys (snapshot_write sc E path r) = rn_sys r"
  by (auto simp: with_server_def snapshot_take_def snapshot_write_def split: snapshot_phase.splits prod.splits sum.splits)

lemma task_keeps [simp]:
  "sans_wal (sync_tick sv) = sans_wal sv" "sans_wal (rn_server (snapshot_truncate r)) = sans_wal (rn_server r)"
  "sys_conns (rn_sys (snapshot_truncate r)) = sys_conns (rn_sys r)"
  by (auto simp: sans_wal_def sync_tick_def snapshot_truncate_def with_server_def split: snapshot_phase.split)

lemma server_inv_sans_wal: "server_inv cfg sv = server_inv cfg (sans_wal sv)"
  by (simp add: server_inv_def sans_wal_def)

lemma run_step_inv:
  assumes "run_step show_error cfg sc snap r r'" "system_inv cfg (rn_sys r)"
  shows "system_inv cfg (rn_sys r') \<and> has_history cfg (sans_wal (rn_server r)) (sans_wal (rn_server r'))"
  using assms(1)
proof (cases rule: run_step.cases)
  case (serve_run sys')
  then show ?thesis using assms(2) system_step_inv system_step_history has_history_sans_wal by fastforce
qed (use assms(2) in \<open>auto simp: system_inv_def server_inv_sans_wal [of cfg "sync_tick _"]
      server_inv_sans_wal [of cfg "rn_server (snapshot_truncate _)"] simp flip: server_inv_sans_wal\<close>)

lemma runs_inv:
  assumes "runs show_error cfg sc snap r0 r" "system_inv cfg (rn_sys r0)"
  shows "system_inv cfg (rn_sys r) \<and> has_history cfg (sans_wal (rn_server r0)) (sans_wal (rn_server r))"
  using assms
proof (induction rule: runs.induct)
  case (runs_step r r')
  then show ?case using run_step_inv has_history_trans by blast
qed simp

subsection \<open>Properties\<close>



lemma write_snapshot_saves: "write_snapshot sc E path (create_snapshot E s) fs = save_snapshot_to_path sc E path s fs"
  by (simp add: write_snapshot_def save_snapshot_to_path_def Let_def)

lemma snapshot_written:
  assumes "snapshot_ok sc h E E' s" "rn_phase r = Snap_taken (create_snapshot E s)"
  shows "snapshot_write sc E path r =
    r\<lparr>rn_files := snd (save_snapshot_to_path sc E path s (rn_files r)), rn_phase := Snap_written\<rparr>"
proof -
  have "fst (save_snapshot_to_path sc E path s (rn_files r)) = Inr ()"
    using assms(1) by (auto simp: snapshot_ok_def snap_codec_ok_def save_snapshot_to_path_def Let_def)
  then show ?thesis using assms(2)
    by (cases "save_snapshot_to_path sc E path s (rn_files r)") (simp add: snapshot_write_def write_snapshot_saves)
qed


lemma restored_string:
  assumes "restored sample_env sample_env (Some (String_v v None)) new"
  shows "new = Some (String_v v None)"
proof -
  have "survives sample_env sample_env (String_v v None)" by (simp add: survives_def)
  with assms obtain v' where "new = Some v'" "same_value (String_v v None) v'" "expires_at_ref v' = None"
    by (auto simp: restored_def)
  then show ?thesis by (cases v') simp_all
qed


end
