(* ===== verification/Type_Properties.thy ===== *)
theory Type_Properties
  imports Apply_Command
begin

text \<open>
  The types of the values: which commands may change the type of a key or remove it, and what a
  write does to a key that has expired and is not yet removed.
\<close>

fun kind :: "CacheValue \<Rightarrow> bytes" where
  "kind (String_v _ _) = ''string''"
| "kind (Hash_v _) = ''hash''"
| "kind (List_v _) = ''list''"
| "kind (Set_v _) = ''set''"
| "kind (SortedSet_v _) = ''zset''"
| "kind (Stream_v _) = ''stream''"

lemma type_of_kind:
  "cs_type_of h E key s = (case lookup h s key of
     None \<Rightarrow> ''none'' | Some v \<Rightarrow> if value_is_expired (now E) v then ''none'' else kind v)"
  by (simp add: cs_type_of_def read_entry_lookup split: option.split CacheValue.split)

text \<open>Every key that was there still is, and what \<open>view\<close> sees of its value is the same.\<close>

definition kept :: "(CacheValue \<Rightarrow> 'a) \<Rightarrow> hasher \<Rightarrow> storage \<Rightarrow> storage \<Rightarrow> bool" where
  "kept view h s s' \<longleftrightarrow> (sharded h s \<longrightarrow> sharded h s' \<and>
     (\<forall>k v. lookup h s k = Some v \<longrightarrow> map_option view (lookup h s' k) = Some (view v)))"

lemma kept_refl [simp]: "kept view h s s"
  by (simp add: kept_def)

lemma kept_trans: "kept view h s s' \<Longrightarrow> kept view h s' s'' \<Longrightarrow> kept view h s s''"
  unfolding kept_def by (metis map_option_eq_Some)

lemma kept_entry:
  assumes "\<And>v. map_option view (snd (f (Some v))) = Some (view v)"
  shows "kept view h s (snd (with_entry h k f s))"
  using assms by (auto simp: kept_def sharded_store.wf_entry sharded_store.find_entry)

lemma expires_at_mut_kind [simp]: "kind (expires_at_mut x v) = kind v"
  by (cases v) simp_all

lemma kinds_rpoplpush: "kept kind h s (snd (cs_rpoplpush h E j k s))"
proof -
  have pop: "kept kind h s (snd (rpoplpush_pop h E j s))" for s
    unfolding rpoplpush_pop_def by (rule kept_entry) (auto simp: split_beta split: CacheValue.split)
  have push: "kept kind h s (snd (rpoplpush_push h E k v s))" for s v
    unfolding rpoplpush_push_def by (rule kept_entry) (auto split: CacheValue.split)
  have both: "kept kind h s (snd (rpoplpush_push h E k v (snd (rpoplpush_pop h E j s))))" for v
    by (rule kept_trans [OF pop push])
  show ?thesis
    using pop [of s] both
    by (auto simp: cs_rpoplpush_def split: prod.splits sum.splits option.splits) (metis snd_conv)+
qed

lemma kinds_smove: "kept kind h s (snd (cs_smove h E j k m s))"
proof -
  have take: "kept kind h s (snd (smove_take h E j m s))" for s
    unfolding smove_take_def by (rule kept_entry) (auto simp: split_beta split: CacheValue.split)
  have put: "kept kind h s (snd (smove_put h E k m s))" for s
    unfolding smove_put_def by (rule kept_entry) (auto split: CacheValue.split)
  have both: "kept kind h s (snd (smove_put h E k m (snd (smove_take h E j m s))))"
    by (rule kept_trans [OF take put])
  show ?thesis
    using take [of s] both
    by (auto simp: cs_smove_def split: prod.splits sum.splits bool.splits)
qed

lemma kinds_hset: "kept kind h s (snd (cs_hset h k f v s))"
  unfolding cs_hset_def by (rule kept_entry) (auto simp: split_beta split: CacheValue.split)

lemma kinds_hmset_loop: "kept kind h s (hmset_loop h k ps s)"
  unfolding hmset_loop_def
  by (induction ps arbitrary: s) (auto simp: split_beta intro: kept_trans [OF kinds_hset])

lemma kinds_set_expiry: "kept kind h s (snd (set_expiry_after h E k d s))"
proof -
  have "kept kind h s (snd (cs_set_expiry h E k x s))" for x
    unfolding cs_set_expiry_def by (rule kept_entry) auto
  then show ?thesis by (simp add: set_expiry_after_def split: option.split)
qed

text \<open>The commands that may remove a key or store another type under it.\<close>

fun replaces :: "Command \<Rightarrow> bool" where
  "replaces (C_String c) =
     (case c of Set _ _ _ \<Rightarrow> True | Delete _ \<Rightarrow> True | SetNx _ _ \<Rightarrow> True | SetEx _ _ _ \<Rightarrow> True
        | GetSet _ _ \<Rightarrow> True | MSet _ \<Rightarrow> True | _ \<Rightarrow> False)"
| "replaces (C_Key c) = (case c of FlushAll \<Rightarrow> True | ExpireAt _ _ \<Rightarrow> True | Rename _ _ \<Rightarrow> True | _ \<Rightarrow> False)"
| "replaces _ = False"

lemmas entry_simps = entry_ops split_beta Let_def

lemma apply_kinds_kept:
  assumes "\<not> replaces cmd"
  shows "kept kind h s (snd (apply_write_command h E cmd s))"
proof (cases cmd)
  case (C_String c)
  with assms show ?thesis
    by (cases c) (auto simp: entry_simps split: CacheValue.split option.split intro!: kept_entry)
next
  case (C_Hash c)
  then show ?thesis
    by (cases c) (auto simp: kinds_hset kinds_hmset_loop,
        auto simp: entry_simps split: CacheValue.split option.split intro!: kept_entry)
next
  case (C_List c)
  then show ?thesis
    by (cases c) (auto simp: kinds_rpoplpush, auto simp: entry_simps split: CacheValue.split option.split intro!: kept_entry)
next
  case (C_Set c)
  then show ?thesis
    by (cases c) (auto simp: kinds_smove, auto simp: entry_simps split: CacheValue.split option.split intro!: kept_entry)
next
  case (C_ZSet c)
  then show ?thesis
    by (cases c) (auto simp: entry_simps split: CacheValue.split option.split intro!: kept_entry)
next
  case (C_Key c)
  with assms show ?thesis
    by (cases c) (auto simp: kinds_set_expiry, auto simp: entry_simps split: CacheValue.split option.split intro!: kept_entry)
next
  case (C_Stream c)
  then show ?thesis
    by (cases c) (auto simp: entry_simps split: CacheValue.split option.split sum.split intro!: kept_entry)
qed simp_all

subsection \<open>Writes that do not look at the deadline\<close>

fun blind_write :: "Command \<Rightarrow> bool" where
  "blind_write (C_String c) =
     (case c of Incr _ \<Rightarrow> True | Decr _ \<Rightarrow> True | Append _ _ \<Rightarrow> True | IncrBy _ _ \<Rightarrow> True | DecrBy _ _ \<Rightarrow> True
        | IncrByFloat _ _ \<Rightarrow> True | _ \<Rightarrow> False)"
| "blind_write (C_Hash c) = (case c of HSet _ _ _ \<Rightarrow> True | HMSet _ _ \<Rightarrow> True | HDel _ _ \<Rightarrow> True | _ \<Rightarrow> False)"
| "blind_write (C_List c) = (case c of LPush _ _ \<Rightarrow> True | RPush _ _ \<Rightarrow> True | LPop _ \<Rightarrow> True | RPop _ \<Rightarrow> True | _ \<Rightarrow> False)"
| "blind_write (C_Set c) = (case c of SAdd _ _ \<Rightarrow> True | SRem _ _ \<Rightarrow> True | _ \<Rightarrow> False)"
| "blind_write (C_ZSet c) = (case c of ZAdd _ _ \<Rightarrow> True | ZRem _ _ \<Rightarrow> True | _ \<Rightarrow> False)"
| "blind_write _ = False"

lemma set_field_expires [simp]: "h_expires_at (snd (set_field f v hs)) = h_expires_at hs"
  by (simp add: set_field_def)

lemma delete_fields_expires [simp]: "h_expires_at (snd (delete_fields fs hs)) = h_expires_at hs"
  by (induction fs arbitrary: hs) (auto simp: delete_field_def split_beta)

lemma pop_expires [simp]: "l_expires_at (snd (pop_left l)) = l_expires_at l" "l_expires_at (snd (pop_right l)) = l_expires_at l"
  by (auto simp: pop_left_def pop_right_def split: list.split)

lemma zremove_all_expires [simp]: "z_expires_at (snd (zremove_all ms z)) = z_expires_at z"
  by (induction ms arbitrary: z) (auto simp: zset_remove_def split_beta split: option.split)

lemma hset_deadline: "kept expires_at_ref h s (snd (cs_hset h k f v s))"
  unfolding cs_hset_def by (rule kept_entry) (auto simp: split_beta split: CacheValue.split)

lemma hmset_deadline: "kept expires_at_ref h s (hmset_loop h k ps s)"
  unfolding hmset_loop_def
  by (induction ps arbitrary: s) (auto simp: split_beta intro: kept_trans [OF hset_deadline])

lemma blind_deadline:
  assumes "blind_write cmd"
  shows "kept expires_at_ref h s (snd (apply_write_command h E cmd s))"
proof (cases cmd)
  case (C_String c)
  with assms show ?thesis
    by (cases c) (auto simp: entry_simps split: CacheValue.split option.split intro!: kept_entry)
next
  case (C_Hash c)
  with assms show ?thesis
    by (cases c) (auto simp: hset_deadline hmset_deadline, auto simp: entry_simps split: CacheValue.split option.split intro!: kept_entry)
next
  case (C_List c)
  with assms show ?thesis
    by (cases c) (auto simp: entry_simps split: CacheValue.split option.split intro!: kept_entry)
next
  case (C_Set c)
  with assms show ?thesis
    by (cases c) (auto simp: entry_simps split: CacheValue.split option.split intro!: kept_entry)
next
  case (C_ZSet c)
  with assms show ?thesis
    by (cases c) (auto simp: entry_simps split: CacheValue.split option.split intro!: kept_entry)
qed (use assms in simp_all)

subsection \<open>Properties\<close>



text \<open>
  The writes that do not look at the deadline (INCR and its relatives, APPEND, HSET, HDEL,
  LPUSH, RPUSH, LPOP, RPOP, SADD, SREM, ZADD, ZREM) keep it. A key with a time to live goes on to
  expire when it was to; and a write to a key that has expired and is not yet removed is lost: the
  key is as expired as it was.
\<close>

theorem blind_writes_keep_deadline:
  assumes "sharded h s" "lookup h s k = Some v" "blind_write cmd"
  shows "\<exists>v'. lookup h (snd (apply_write_command h E cmd s)) k = Some v' \<and>
    expires_at_ref v' = expires_at_ref v \<and> value_is_expired t v' = value_is_expired t v"
  using blind_deadline [OF assms(3), of h s E] assms(1,2)
  by (force simp: kept_def cache_expiry.expired_slot)

text \<open>INCR of a counter that has expired answers the old count plus one, and the key is not there.\<close>

definition expired_counter :: storage where
  "expired_counter = snd (cs_set (\<lambda>_. 5) (sample_env\<lparr>now := 0\<rparr>) ''n'' ''41'' (Some 10) storage_new)"

lemma expired_counter_facts:
  "sharded (\<lambda>_. 5) expired_counter" "lookup (\<lambda>_. 5) expired_counter ''n'' = Some (String_v ''41'' (Some 10))"
  by (simp_all add: expired_counter_def cs_set_def sharded_store.wf_entry sharded_store.find_entry)

theorem blind_writes_keep_deadline_witness:
  "\<exists>v'. lookup (\<lambda>_. 5) (snd (apply_write_command (\<lambda>_. 5) sample_env (C_String (Incr ''n'')) expired_counter)) ''n'' = Some v' \<and>
    expires_at_ref v' = Some 10 \<and> value_is_expired 1000 v'"
  using blind_writes_keep_deadline [OF expired_counter_facts, of "C_String (Incr ''n'')" sample_env 1000] by simp

end
