(* ===== verification/Replication_Link.thy ===== *)
theory Replication_Link
  imports Server_Properties
begin

text \<open>
  A master and one of its replicas over a connection that may fail (replication/master.rs and
  replica.rs): the handshake on the wire, the channel between them, the loss of the connection
  and the replica's next attempt. What was on the channel when the connection failed is lost.
\<close>

record link_codec =
  lc_commands :: repl_codec
  lc_encode :: "ReplicationResponse \<Rightarrow> bytes"
  lc_decode :: "bytes \<Rightarrow> ReplicationResponse result"

text \<open>\<open>read_u32\<close> and \<open>read_exact\<close>: the content of the first frame, once it is there.\<close>

definition read_message :: "bytes \<Rightarrow> bytes option" where
  "read_message data =
     (if length data < 4 then None
      else (let len = from_be (take 4 data)
            in if length data < 4 + len then None else Some (take len (drop 4 data))))"

definition response_frame :: "link_codec \<Rightarrow> ReplicationResponse \<Rightarrow> bytes" where
  "response_frame lc r = (let d = lc_encode lc r in be_bytes 4 (length d mod 2 ^ 32) @ d)"

text \<open>The master's end of a new connection: the bytes it answers with, or an error.\<close>

definition accept_replica :: "link_codec \<Rightarrow> bytes \<Rightarrow> MasterReplicator \<Rightarrow> bytes result \<times> MasterReplicator" where
  "accept_replica lc data m =
     (case read_message data of
        None \<Rightarrow> (Inl ''early eof'', m)
      | Some buf \<Rightarrow>
          (case rc_decode (lc_commands lc) buf of
             Inl e \<Rightarrow> (Inl e, m)
           | Inr cmd \<Rightarrow>
               (case handle_replica_connection cmd m of
                  (Inl e, m') \<Rightarrow> (Inl e, m')
                | (Inr r, m') \<Rightarrow> (Inr (response_frame lc r), m'))))"

text \<open>The replica's end: what it sends, and what it does with the answer.\<close>

definition connect_frame :: "link_codec \<Rightarrow> ReplicaClient \<Rightarrow> bytes" where
  "connect_frame lc r = repl_frame (lc_commands lc) (Connect (replica_id r))"

definition connected_with :: "link_codec \<Rightarrow> bytes \<Rightarrow> ReplicaClient \<Rightarrow> bytes option \<times> ReplicaClient" where
  "connected_with lc data r =
     (case read_message data of
        None \<Rightarrow> (Some ''early eof'', r)
      | Some buf \<Rightarrow>
          (case lc_decode lc buf of
             Inl e \<Rightarrow> (Some e, r)
           | Inr response \<Rightarrow> replica_handshake response r))"

datatype link_status = Down | Up | Dead

record link =
  ln_master :: MasterReplicator
  ln_replica :: ReplicaClient
  ln_status :: link_status
  ln_taken :: nat

definition channel :: "link \<Rightarrow> ReplicationCommand list" where
  "channel L = (case map_of (replicas (ln_master L)) (replica_id (ln_replica L)) of None \<Rightarrow> [] | Some sent \<Rightarrow> sent)"

datatype link_event =
    Attempt
  | Served Command
  | Arrives env
  | Lost

definition attempt :: "link_codec \<Rightarrow> link \<Rightarrow> link" where
  "attempt lc L =
     (case accept_replica lc (connect_frame lc (ln_replica L)) (ln_master L) of
        (Inl e, m) \<Rightarrow> L\<lparr>ln_master := m\<rparr>
      | (Inr reply_bytes, m) \<Rightarrow>
          (case connected_with lc reply_bytes (ln_replica L) of
             (Some e, r) \<Rightarrow> L\<lparr>ln_master := m, ln_replica := r\<rparr>
           | (None, r) \<Rightarrow> L\<lparr>ln_master := m, ln_replica := r, ln_status := Up, ln_taken := 0\<rparr>))"

definition arrives :: "link_codec \<Rightarrow> hasher \<Rightarrow> env \<Rightarrow> link \<Rightarrow> link" where
  "arrives lc h E L =
     (if ln_status L = Up \<and> ln_taken L < length (channel L) then
        (case replica_receive (lc_commands lc) h (\<lambda>_. E) 0
                (repl_frame (lc_commands lc) (channel L ! ln_taken L)) (ln_replica L) of
           (ended, r) \<Rightarrow>
             L\<lparr>ln_replica := r, ln_taken := ln_taken L + 1,
               ln_status := (case ended of Waiting \<Rightarrow> Up | Decode_error _ \<Rightarrow> Down | Apply_panic \<Rightarrow> Dead)\<rparr>)
      else L)"

fun link_step :: "link_codec \<Rightarrow> hasher \<Rightarrow> link_event \<Rightarrow> link \<Rightarrow> link" where
  "link_step lc h Attempt L = (if ln_status L = Down then attempt lc L else L)"
| "link_step lc h (Served cmd) L = L\<lparr>ln_master := replicate_write cmd (ln_master L)\<rparr>"
| "link_step lc h (Arrives E) L = arrives lc h E L"
| "link_step lc h Lost L = (if ln_status L = Up then L\<lparr>ln_status := Down\<rparr> else L)"

definition link_run :: "link_codec \<Rightarrow> hasher \<Rightarrow> link_event list \<Rightarrow> link \<Rightarrow> link" where
  "link_run lc h es L = fold (link_step lc h) es L"

text \<open>What is assumed of the encodings: the messages of this link decode to themselves and fit their length.\<close>

definition handshake_ok :: "link_codec \<Rightarrow> link \<Rightarrow> bool" where
  "handshake_ok lc L \<longleftrightarrow> repl_codec_ok (lc_commands lc) (Connect (replica_id (ln_replica L))) \<and>
     (\<forall>off. let r = Connected (master_id (ln_master L)) off
            in lc_decode lc (lc_encode lc r) = Inr r \<and> length (lc_encode lc r) < 2 ^ 32)"

definition writes_ok :: "link_codec \<Rightarrow> Command list \<Rightarrow> bool" where
  "writes_ok lc cs \<longleftrightarrow> list_all (\<lambda>c. repl_codec_ok (lc_commands lc) (Write c)) cs"

subsection \<open>The handshake\<close>

lemma read_message_frame: "length d < 2 ^ 32 \<Longrightarrow> read_message (be_bytes 4 (length d mod 2 ^ 32) @ d) = Some d"
  using from_be_bytes [of "length d" 4] by (simp add: read_message_def Let_def)

lemma attempt_connects:
  assumes "handshake_ok lc L"
  shows "attempt lc L = L\<lparr>ln_master := (ln_master L)\<lparr>replicas :=
        AList.update (replica_id (ln_replica L)) [] (replicas (ln_master L))\<rparr>,
      ln_replica := (ln_replica L)\<lparr>rp_offset := replication_offset (ln_master L)\<rparr>,
      ln_status := Up, ln_taken := 0\<rparr>"
proof -
  let ?c = "Connect (replica_id (ln_replica L))"
  have "read_message (connect_frame lc (ln_replica L)) = Some (rc_encode (lc_commands lc) ?c)"
    using assms read_message_frame by (simp add: connect_frame_def repl_frame_def Let_def handshake_ok_def repl_codec_ok_def)
  moreover have "read_message (response_frame lc (Connected (master_id (ln_master L)) off)) =
      Some (lc_encode lc (Connected (master_id (ln_master L)) off))" for off
    using assms read_message_frame by (simp add: response_frame_def Let_def handshake_ok_def)
  ultimately show ?thesis using assms
    by (simp add: attempt_def accept_replica_def connected_with_def handshake_ok_def repl_codec_ok_def Let_def
        handle_replica_connection_def replica_handshake_def)
qed

subsection \<open>Between two attempts\<close>

fun served :: "link_event list \<Rightarrow> Command list" where
  "served [] = []"
| "served (Served c # es) = c # served es"
| "served (_ # es) = served es"

fun quiet :: "link_event \<Rightarrow> bool" where
  "quiet (Served _) \<longleftrightarrow> True"
| "quiet (Arrives _) \<longleftrightarrow> True"
| "quiet _ \<longleftrightarrow> False"

text \<open>
  The replica is that much behind: of the writes \<open>cs\<close> since it connected with the storage \<open>base\<close> it
  has applied a first part, in environments of its own, and its offset says how many are left.
\<close>

definition follows :: "hasher \<Rightarrow> storage \<Rightarrow> Command list \<Rightarrow> link \<Rightarrow> bool" where
  "follows h base cs L \<longleftrightarrow>
     map_of (replicas (ln_master L)) (replica_id (ln_replica L)) = Some (map Write cs) \<and>
     ln_taken L \<le> length cs \<and> ln_status L \<noteq> Down \<and>
     (ln_status L = Up \<longrightarrow>
        (\<exists>Es. length Es = ln_taken L \<and>
           rp_storage (ln_replica L) = apply_all h (zip Es (take (ln_taken L) cs)) base) \<and>
        rp_offset (ln_replica L) + word_of_nat (length cs - ln_taken L) = replication_offset (ln_master L))"

lemma follows_attempt:
  assumes "handshake_ok lc L"
  shows "follows h (rp_storage (ln_replica L)) [] (attempt lc L)"
  by (simp add: attempt_connects [OF assms] follows_def update_conv' apply_all_def)

lemma replica_receive_one:
  assumes "repl_codec_ok rc (Write c)"
  shows "replica_receive rc h (\<lambda>_. E) 0 (repl_frame rc (Write c)) r =
    (case apply_write_command h E c (rp_storage r) of
       (None, s) \<Rightarrow> (Apply_panic, r\<lparr>rp_storage := s\<rparr>)
     | (Some _, s) \<Rightarrow> (Waiting, r\<lparr>rp_storage := s, rp_offset := rp_offset r + 1\<rparr>))"
proof -
  let ?d = "rc_encode rc (Write c)"
  have "from_be (be_bytes 4 (length ?d)) = length ?d"
    using assms by (intro from_be_bytes) (simp add: repl_codec_ok_def)
  moreover have "replica_receive rc h E' i [] r' = (Waiting, r')" for E' i r'
    by (subst replica_receive.simps) simp
  ultimately show ?thesis using assms
    by (subst replica_receive.simps)
      (auto simp: repl_frame_def repl_codec_ok_def Let_def replica_apply_def split: prod.split option.split)
qed

lemma follows_served:
  assumes "follows h base cs L"
  shows "follows h base (cs @ [c]) (link_step lc h (Served c) L)"
proof -
  have "word_of_nat (Suc (length cs) - ln_taken L) = (word_of_nat (length cs - ln_taken L) + 1 :: 64 word)"
    using assms by (simp add: follows_def Suc_diff_le)
  then show ?thesis using assms
    by (auto simp: follows_def map_of_replicate_write) (auto simp: replicate_write_def add.assoc [symmetric])
qed

lemma follows_arrives:
  assumes ok: "writes_ok lc cs" and f: "follows h base cs L"
  shows "follows h base cs (arrives lc h E L)"
proof (cases "ln_status L = Up \<and> ln_taken L < length cs")
  case True
  let ?n = "ln_taken L" and ?r = "ln_replica L"
  have ch: "channel L = map Write cs" using f by (simp add: follows_def channel_def)
  obtain a s where a: "apply_write_command h E (cs ! ?n) (rp_storage ?r) = (a, s)" by (cases "apply_write_command h E (cs ! ?n) (rp_storage ?r)")
  obtain Es where Es: "length Es = ?n" "rp_storage ?r = apply_all h (zip Es (take ?n cs)) base"
    using f True by (auto simp: follows_def)
  have "apply_all h (zip (Es @ [E]) (take (Suc ?n) cs)) base = s"
    using Es a True by (simp add: take_Suc_conv_app_nth apply_all_def)
  then have applied: "\<exists>Es. length Es = Suc ?n \<and> s = apply_all h (zip Es (take (Suc ?n) cs)) base"
    using Es(1) by (intro exI [of _ "Es @ [E]"]) simp
  have left: "word_of_nat (length cs - ?n) = (1 + word_of_nat (length cs - Suc ?n) :: 64 word)"
    using True by (metis Suc_diff_Suc of_nat_Suc)
  have "repl_codec_ok (lc_commands lc) (Write (cs ! ?n))" using ok True by (simp add: writes_ok_def list_all_length)
  note one = replica_receive_one [OF this, of h E ?r]
  show ?thesis
    using f True a applied left one
    by (cases a) (auto simp: follows_def arrives_def ch add.assoc)
next
  case False
  then have "arrives lc h E L = L" using f by (auto simp: arrives_def channel_def follows_def)
  then show ?thesis using f by simp
qed

lemma follows_run:
  assumes "writes_ok lc (cs @ served es)" "list_all quiet es" "follows h base cs L"
  shows "follows h base (cs @ served es) (link_run lc h es L)"
  using assms
proof (induction es arbitrary: cs L)
  case (Cons e es)
  have "follows h base (cs @ served [e]) (link_step lc h e L)"
    using Cons.prems follows_served follows_arrives by (cases e) (auto simp: writes_ok_def)
  from Cons.IH [OF _ _ this] Cons.prems show ?case by (cases e) (simp_all add: link_run_def)
qed (simp add: link_run_def)

subsection \<open>Properties\<close>


text \<open>
  A reconnection forgets what it missed: after a connection was lost, the writes served before the
  next attempt never reach the replica, and yet its offset is the master's.
\<close>

theorem reconnection_skips_writes:
  assumes "handshake_ok lc L" "ln_status L = Up"
  shows "let L' = link_run lc h (Lost # map Served cs @ [Attempt]) L
    in rp_storage (ln_replica L') = rp_storage (ln_replica L) \<and> channel L' = [] \<and> ln_status L' = Up \<and>
       rp_offset (ln_replica L') = replication_offset (ln_master L')"
proof -
  have run: "link_run lc h (map Served cs) K = K\<lparr>ln_master := fold replicate_write cs (ln_master K)\<rparr>" for K
    by (induction cs arbitrary: K) (simp_all add: link_run_def)
  let ?K = "L\<lparr>ln_status := Down, ln_master := fold replicate_write cs (ln_master L)\<rparr>"
  have "master_id (fold replicate_write cs m) = master_id m" for m
    by (induction cs arbitrary: m) (simp_all add: replicate_write_def)
  then have "handshake_ok lc ?K" using assms(1) by (simp add: handshake_ok_def)
  from attempt_connects [OF this] show ?thesis
    using run [of "L\<lparr>ln_status := Down\<rparr>"] assms(2) by (simp add: link_run_def channel_def Let_def update_conv')
qed

subsection \<open>An example\<close>

definition sample_link_codec :: link_codec where
  "sample_link_codec =
     \<lparr>lc_commands =
        \<lparr>rc_encode = (\<lambda>c. case c of Connect rid \<Rightarrow> CHR ''c'' # rid | Write (C_String (Delete k)) \<Rightarrow> CHR ''d'' # k | _ \<Rightarrow> []),
         rc_decode = (\<lambda>b. case b of
             [] \<Rightarrow> Inl ''empty''
           | t # k \<Rightarrow> Inr (if t = CHR ''c'' then Connect k else Write (C_String (Delete k))))\<rparr>,
      lc_encode = (\<lambda>r. case r of Connected mid off \<Rightarrow> be_bytes 8 (unat off) @ mid | _ \<Rightarrow> []),
      lc_decode = (\<lambda>b. Inr (Connected (drop 8 b) (word_of_nat (from_be (take 8 b)))))\<rparr>"

definition sample_link :: link where
  "sample_link = \<lparr>ln_master = master_new ''m'', ln_replica = replica_new ''r'' storage_new, ln_status = Down, ln_taken = 0\<rparr>"

lemma sample_handshake: "handshake_ok sample_link_codec sample_link"
proof -
  have "from_be (be_bytes 8 (unat off)) = unat off" for off :: "64 word"
    using unsigned_less [of off] by (intro from_be_bytes) simp
  then show ?thesis
    by (simp add: handshake_ok_def repl_codec_ok_def sample_link_codec_def sample_link_def master_new_def replica_new_def Let_def)
qed

lemma sample_writes: "writes_ok sample_link_codec [C_String (Delete ''k'')]"
  by (simp add: writes_ok_def repl_codec_ok_def sample_link_codec_def)


end
