(* ===== verification/Gossip.thy ===== *)
theory Gossip
  imports Cluster_Ring Event_System
begin

text \<open>
  The gossip protocol (cluster/gossip.rs): what a node does on a tick, on a message and on a
  health check, and a network of such nodes. A datagram is a message with the address it is sent
  to; datagrams may be lost, repeated and reordered. The JSON encoding delivers a message as it
  was sent, except that a received node was last seen when it is received.
\<close>

definition SUSPICIOUS_TIMEOUT :: nat where "SUSPICIOUS_TIMEOUT = secs 5"
definition FAILED_TIMEOUT :: nat where "FAILED_TIMEOUT = secs 10"
definition GOSSIP_FANOUT :: nat where "GOSSIP_FANOUT = 3"

datatype GossipMessage =
    G_Ping bytes "64 word"
  | G_Pong bytes "64 word"
  | NodeState Node
  | NodeList "Node list"

record GossipProtocol =
  gp_local :: Node
  gp_ring :: ConsistentHashRing
  gp_known :: "Node table"

type_synonym datagrams = "(bytes \<times> GossipMessage) list"

definition gossip_new :: "Node \<Rightarrow> ConsistentHashRing \<Rightarrow> GossipProtocol" where
  "gossip_new local_node r = \<lparr>gp_local = local_node, gp_ring = r, gp_known = []\<rparr>"

definition local_ping :: "GossipProtocol \<Rightarrow> GossipMessage" where
  "local_ping g = G_Ping (node_id (gp_local g)) (node_version (gp_local g))"

definition gossip_round :: "env \<Rightarrow> GossipProtocol \<Rightarrow> datagrams" where
  "gossip_round E g =
     (if gp_known g = [] then []
      else
        (let target_nodes = filter is_alive (map snd (table_iter (hash_order E) (gp_known g)));
             shuffled = map ((!) target_nodes) (shuffle E [0..<length target_nodes])
         in map (\<lambda>n. (cluster_addr n, local_ping g)) (take GOSSIP_FANOUT shuffled)))"

definition node_deserialize :: "env \<Rightarrow> Node \<Rightarrow> Node" where
  "node_deserialize E n = n\<lparr>last_seen := now E\<rparr>"

fun message_deserialize :: "env \<Rightarrow> GossipMessage \<Rightarrow> GossipMessage" where
  "message_deserialize E (NodeState n) = NodeState (node_deserialize E n)"
| "message_deserialize E (NodeList ns) = NodeList (map (node_deserialize E) ns)"
| "message_deserialize E m = m"

definition seen :: "env \<Rightarrow> bytes \<Rightarrow> 64 word \<Rightarrow> GossipProtocol \<Rightarrow> GossipProtocol" where
  "seen E from ver g =
     (case map_of (gp_known g) from of
        Some n \<Rightarrow> g\<lparr>gp_known := AList.update from ((update_last_seen E n)\<lparr>node_version := ver\<rparr>) (gp_known g)\<rparr>
      | None \<Rightarrow> g)"

definition merge_node :: "hasher \<Rightarrow> Node \<Rightarrow> GossipProtocol \<Rightarrow> GossipProtocol" where
  "merge_node h n g =
     (case map_of (gp_known g) (node_id n) of
        Some old \<Rightarrow>
          if node_version old < node_version n
          then g\<lparr>gp_known := AList.update (node_id n) n (gp_known g), gp_ring := add_node h n (gp_ring g)\<rparr>
          else g
      | None \<Rightarrow>
          g\<lparr>gp_known := AList.update (node_id n) n (gp_known g), gp_ring := add_node h n (gp_ring g)\<rparr>)"

fun handle_message ::
    "hasher \<Rightarrow> env \<Rightarrow> GossipMessage \<Rightarrow> bytes \<Rightarrow> GossipProtocol \<Rightarrow> datagrams \<times> GossipProtocol" where
  "handle_message h E (G_Ping from ver) from_addr g =
     ([(from_addr, G_Pong (node_id (gp_local g)) (node_version (gp_local g)))], seen E from ver g)"
| "handle_message h E (G_Pong from ver) from_addr g = ([], seen E from ver g)"
| "handle_message h E (NodeState n) from_addr g = ([], merge_node h n g)"
| "handle_message h E (NodeList ns) from_addr g = ([], fold (merge_node h) ns g)"

definition receive_message ::
    "hasher \<Rightarrow> env \<Rightarrow> GossipMessage \<Rightarrow> bytes \<Rightarrow> GossipProtocol \<Rightarrow> datagrams \<times> GossipProtocol" where
  "receive_message h E msg = handle_message h E (message_deserialize E msg)"

definition check_node :: "env \<Rightarrow> Node \<Rightarrow> bool \<times> Node" where
  "check_node E n =
     (let elapsed = time_since_last_seen E n
      in if elapsed > FAILED_TIMEOUT \<and> node_status n \<noteq> NodeStatus.Failed then (True, mark_failed n)
         else if elapsed > SUSPICIOUS_TIMEOUT \<and> node_status n = Active then (False, mark_suspicious n)
         else (False, n))"

definition health_check :: "env \<Rightarrow> GossipProtocol \<Rightarrow> GossipProtocol" where
  "health_check E g =
     (let failed_nodes = map fst (filter (\<lambda>(nid, n). fst (check_node E n)) (gp_known g))
      in g\<lparr>gp_known := map (\<lambda>(nid, n). (nid, snd (check_node E n))) (gp_known g),
           gp_ring := fold remove_node failed_nodes (gp_ring g)\<rparr>)"

definition join_cluster :: "bytes \<Rightarrow> GossipProtocol \<Rightarrow> datagrams" where
  "join_cluster seed_addr g = [(seed_addr, NodeState (gp_local g)), (seed_addr, local_ping g)]"

definition get_cluster_nodes :: "env \<Rightarrow> GossipProtocol \<Rightarrow> Node list" where
  "get_cluster_nodes E g = map snd (table_iter (hash_order E) (gp_known g)) @ [gp_local g]"

subsection \<open>The members on the ring\<close>

definition ring_ids :: "ConsistentHashRing \<Rightarrow> bytes set" where
  "ring_ids r = snd ` set (bt_list (ring r))"

lemma ring_ids_add: "ring_inv r \<Longrightarrow> ring_ids (add_node h n r) \<subseteq> insert (node_id n) (ring_ids r)"
  using ring_step_ids [of "ring r" h "node_id n" "[0..<virtual_nodes r]"]
  by (simp add: ring_ids_def ring_inv_def ring_add_node)

lemma ring_ids_remove [simp]: "ring_ids (remove_node nid r) = ring_ids r - {nid}"
  by (auto simp: ring_ids_def remove_node_def)

lemma ring_ids_remove_all [simp]: "ring_ids (fold remove_node ns r) = ring_ids r - set ns"
  by (induction ns arbitrary: r) auto

lemma remove_all_inv: "ring_inv r \<Longrightarrow> ring_inv (fold remove_node ns r)"
  by (induction ns arbitrary: r) (simp_all add: remove_node_inv)

definition known_ok :: "Node table \<Rightarrow> bool" where
  "known_ok t \<longleftrightarrow> distinct (map fst t) \<and> (\<forall>nid n. map_of t nid = Some n \<longrightarrow> node_id n = nid)"

lemma known_ok_update: "known_ok t \<Longrightarrow> known_ok (AList.update (node_id n) n t)"
  unfolding known_ok_def
  by (auto simp: update_conv' distinct_update simp del: map_of_eq_Some_iff)

definition gossip_inv :: "GossipProtocol \<Rightarrow> bool" where
  "gossip_inv g \<longleftrightarrow> ring_inv (gp_ring g) \<and> known_ok (gp_known g) \<and>
     ring_ids (gp_ring g) \<subseteq> insert (node_id (gp_local g)) (fst ` set (gp_known g))"

lemma seen_local [simp]: "gp_local (seen E a v g) = gp_local g" "gp_ring (seen E a v g) = gp_ring g"
  by (simp_all add: seen_def split: option.split)

lemma seen_inv:
  assumes "gossip_inv g"
  shows "gossip_inv (seen E a v g)"
proof (cases "map_of (gp_known g) a")
  case (Some n)
  then have "node_id n = a" using assms by (simp add: gossip_inv_def known_ok_def del: map_of_eq_Some_iff)
  then have "known_ok (AList.update a ((update_last_seen E n)\<lparr>node_version := v\<rparr>) (gp_known g))"
    using known_ok_update [of "gp_known g" "(update_last_seen E n)\<lparr>node_version := v\<rparr>"] assms
    by (simp add: gossip_inv_def update_last_seen_def)
  then show ?thesis using assms Some by (auto simp: seen_def gossip_inv_def dom_update simp del: map_of_eq_Some_iff)
qed (use assms in \<open>simp add: seen_def\<close>)

lemma merge_local [simp]: "gp_local (merge_node h n g) = gp_local g"
  by (simp add: merge_node_def split: option.split)

lemma merge_inv:
  assumes "gossip_inv g"
  shows "gossip_inv (merge_node h n g)"
proof -
  have "gossip_inv (g\<lparr>gp_known := AList.update (node_id n) n (gp_known g), gp_ring := add_node h n (gp_ring g)\<rparr>)"
    using assms ring_ids_add [of "gp_ring g" h n]
    by (auto simp: gossip_inv_def known_ok_update add_node_inv dom_update)
  then show ?thesis using assms by (auto simp: merge_node_def split: option.split)
qed

lemma merge_all_local [simp]: "gp_local (fold (merge_node h) ns g) = gp_local g"
  by (induction ns arbitrary: g) simp_all

lemma merge_all_inv: "gossip_inv g \<Longrightarrow> gossip_inv (fold (merge_node h) ns g)"
  by (induction ns arbitrary: g) (simp_all add: merge_inv)

lemma handle_local [simp]: "gp_local (snd (handle_message h E m a g)) = gp_local g"
  by (cases m) simp_all

lemma handle_inv: "gossip_inv g \<Longrightarrow> gossip_inv (snd (handle_message h E m a g))"
  by (cases m) (simp_all add: seen_inv merge_inv merge_all_inv)

lemma receive_local [simp]: "gp_local (snd (receive_message h E m a g)) = gp_local g"
  by (simp add: receive_message_def)

lemma receive_inv: "gossip_inv g \<Longrightarrow> gossip_inv (snd (receive_message h E m a g))"
  by (simp add: receive_message_def handle_inv)

lemma check_node_id [simp]:
  "node_id (snd (check_node E n)) = node_id n" "node_version (snd (check_node E n)) = node_version n"
  by (simp_all add: check_node_def mark_failed_def mark_suspicious_def Let_def)

lemma health_known:
  "map_of (gp_known (health_check E g)) nid = map_option (snd \<circ> check_node E) (map_of (gp_known g) nid)"
  by (simp add: health_check_def Let_def map_of_map comp_def)

lemma health_keys [simp]: "map fst (gp_known (health_check E g)) = map fst (gp_known g)"
  by (simp add: health_check_def Let_def comp_def split_def)

lemma health_local [simp]: "gp_local (health_check E g) = gp_local g"
  by (simp add: health_check_def Let_def)

lemma health_ring_ids:
  "ring_ids (gp_ring (health_check E g)) =
     ring_ids (gp_ring g) - fst ` {(nid, n) \<in> set (gp_known g). fst (check_node E n)}"
  by (simp add: health_check_def Let_def) (simp add: split_def)

lemma health_inv:
  assumes "gossip_inv g"
  shows "gossip_inv (health_check E g)"
proof -
  have "fst ` set (gp_known (health_check E g)) = fst ` set (gp_known g)"
    using health_keys [of E g] by (metis set_map)
  moreover have "known_ok (gp_known (health_check E g))"
    using assms by (auto simp: gossip_inv_def known_ok_def health_known simp del: map_of_eq_Some_iff)
  moreover have "ring_inv (gp_ring (health_check E g))"
    using assms by (simp add: gossip_inv_def health_check_def Let_def remove_all_inv)
  ultimately show ?thesis
    using assms by (auto simp: gossip_inv_def health_ring_ids)
qed

subsection \<open>The network\<close>

text \<open>
  The members by their cluster address, and every datagram that has been sent: where it came
  from, where it goes and what it says. A datagram stays on the wire, so it may arrive again, and
  late; one that is never delivered is lost.
\<close>

record network =
  members :: "bytes \<rightharpoonup> GossipProtocol"
  wire :: "(bytes \<times> bytes \<times> GossipMessage) list"

datatype net_event =
    Tick env bytes
  | Deliver env nat
  | Health env bytes
  | Join bytes bytes

definition send_from :: "bytes \<Rightarrow> datagrams \<Rightarrow> network \<Rightarrow> network" where
  "send_from a ds N = N\<lparr>wire := wire N @ map (Pair a) ds\<rparr>"

fun net_step :: "hasher \<Rightarrow> net_event \<Rightarrow> network \<Rightarrow> network" where
  "net_step h (Tick E a) N =
     (case members N a of None \<Rightarrow> N | Some g \<Rightarrow> send_from a (gossip_round E g) N)"
| "net_step h (Deliver E i) N =
     (if i < length (wire N) then
        (case wire N ! i of
           (from_addr, a, msg) \<Rightarrow>
             (case members N a of
                None \<Rightarrow> N
              | Some g \<Rightarrow>
                  (case receive_message h E msg from_addr g of
                     (ds, g') \<Rightarrow> send_from a ds (N\<lparr>members := (members N)(a \<mapsto> g')\<rparr>))))
      else N)"
| "net_step h (Health E a) N =
     (case members N a of
        None \<Rightarrow> N
      | Some g \<Rightarrow> N\<lparr>members := (members N)(a \<mapsto> health_check E g)\<rparr>)"
| "net_step h (Join a seed) N =
     (case members N a of None \<Rightarrow> N | Some g \<Rightarrow> send_from a (join_cluster seed g) N)"

definition net_run :: "hasher \<Rightarrow> net_event list \<Rightarrow> network \<Rightarrow> network" where
  "net_run h es N = fold (net_step h) es N"

definition started :: "hasher \<Rightarrow> env \<Rightarrow> nat \<Rightarrow> bytes \<times> bytes \<times> bytes \<Rightarrow> GossipProtocol" where
  "started h E vn m =
     (case m of (nid, addr, caddr) \<Rightarrow>
        (let local_node = node_new E nid addr caddr
         in gossip_new local_node (add_node h local_node (with_virtual_nodes vn))))"

definition net_start :: "hasher \<Rightarrow> env \<Rightarrow> nat \<Rightarrow> (bytes \<times> bytes \<times> bytes) list \<Rightarrow> network" where
  "net_start h E vn ms =
     \<lparr>members = map_of (map (\<lambda>(nid, addr, caddr). (caddr, started h E vn (nid, addr, caddr))) ms), wire = []\<rparr>"

lemma net_run_Nil [simp]: "net_run h [] N = N"
  and net_run_Cons [simp]: "net_run h (e # es) N = net_run h es (net_step h e N)"
  and net_run_append [simp]: "net_run h (es @ fs) N = net_run h fs (net_run h es N)"
  by (simp_all add: net_run_def)

lemma send_from_fields [simp]:
  "members (send_from a ds N) = members N" "wire (send_from a ds N) = wire N @ map (Pair a) ds"
  by (simp_all add: send_from_def)

lemma started_inv: "gossip_inv (started h E vn m)"
proof -
  obtain nid addr caddr where m: "m = (nid, addr, caddr)" by (cases m)
  let ?n = "node_new E nid addr caddr" and ?r = "with_virtual_nodes vn"
  have "ring_ids (add_node h ?n ?r) \<subseteq> {node_id ?n}"
    using ring_ids_add [OF ring_new_inv, of h ?n vn] by (simp add: ring_ids_def with_virtual_nodes_def bt_new_def)
  then show ?thesis
    by (simp add: m started_def gossip_new_def gossip_inv_def known_ok_def Let_def add_node_inv ring_new_inv)
qed

text \<open>What a member may know, and what a message may tell it, when only the ids in J joined it.\<close>

definition member_ok :: "bytes set \<Rightarrow> GossipProtocol \<Rightarrow> bool" where
  "member_ok J g \<longleftrightarrow> gossip_inv g \<and> node_version (gp_local g) = 0 \<and>
     (\<forall>nid n. map_of (gp_known g) nid = Some n \<longrightarrow> node_version n = 0 \<and> nid \<in> J)"

fun msg_ok :: "bytes set \<Rightarrow> GossipMessage \<Rightarrow> bool" where
  "msg_ok J (G_Ping _ v) \<longleftrightarrow> v = 0"
| "msg_ok J (G_Pong _ v) \<longleftrightarrow> v = 0"
| "msg_ok J (NodeState n) \<longleftrightarrow> node_version n = 0 \<and> node_id n \<in> J"
| "msg_ok J (NodeList _) \<longleftrightarrow> False"

lemma seen_known:
  "map_of (gp_known (seen E a v g)) nid =
     (if nid = a then map_option (\<lambda>n. (update_last_seen E n)\<lparr>node_version := v\<rparr>) (map_of (gp_known g) a)
      else map_of (gp_known g) nid)"
  by (simp add: seen_def update_conv' split: option.split)

lemma merge_known:
  "map_of (gp_known (merge_node h n g)) nid =
     (if nid = node_id n \<and> (case map_of (gp_known g) nid of None \<Rightarrow> True | Some old \<Rightarrow> node_version old < node_version n)
      then Some n else map_of (gp_known g) nid)"
  by (auto simp: merge_node_def update_conv' split: option.split)

lemma receive_ok:
  assumes "member_ok J g" "msg_ok J m"
  shows "member_ok J (snd (receive_message h E m a g))"
proof (cases m)
  case (NodeState n)
  then show ?thesis using assms
    by (auto simp: receive_message_def member_ok_def merge_inv merge_known node_deserialize_def
        simp del: map_of_eq_Some_iff split: if_splits)
qed (use assms in \<open>auto simp: receive_message_def member_ok_def seen_inv seen_known
        simp del: map_of_eq_Some_iff split: if_splits\<close>)

lemma receive_replies:
  assumes "member_ok J g" "msg_ok J m" "(d, r) \<in> set (fst (receive_message h E m a g))"
  shows "msg_ok K r"
  using assms by (cases m) (auto simp: receive_message_def member_ok_def)

lemma health_ok:
  assumes "member_ok J g"
  shows "member_ok J (health_check E g)"
  using assms by (auto simp: member_ok_def health_inv health_known simp del: map_of_eq_Some_iff)

lemma round_messages:
  assumes "member_ok J g" "(d, r) \<in> set (gossip_round E g)"
  shows "msg_ok K r"
  using assms by (auto simp: gossip_round_def local_ping_def member_ok_def Let_def split: if_splits dest: in_set_takeD)

definition net_ok :: "(bytes \<rightharpoonup> bytes) \<Rightarrow> (bytes \<Rightarrow> bytes set) \<Rightarrow> network \<Rightarrow> bool" where
  "net_ok names J N \<longleftrightarrow>
     (\<forall>a. names a = map_option (node_id \<circ> gp_local) (members N a)) \<and>
     (\<forall>a g. members N a = Some g \<longrightarrow> member_ok (J a) g) \<and>
     (\<forall>(src, d, m) \<in> set (wire N). msg_ok (J d) m)"

lemma net_okD: "net_ok names J N \<Longrightarrow> members N a = Some g \<Longrightarrow> member_ok (J a) g"
  by (simp add: net_ok_def)

lemma net_ok_send:
  assumes "net_ok names J N" "\<And>d m. (d, m) \<in> set ds \<Longrightarrow> msg_ok (J d) m"
  shows "net_ok names J (send_from a ds N)"
  using assms by (auto simp: net_ok_def)

lemma net_ok_member:
  assumes "net_ok names J N" "members N a = Some g" "member_ok (J a) g'" "gp_local g' = gp_local g"
  shows "net_ok names J (N\<lparr>members := (members N)(a \<mapsto> g')\<rparr>)"
  using assms by (auto simp: net_ok_def)

text \<open>The joins of a run: a member's id is sent only to the addresses it joins through.\<close>

fun join_ok :: "(bytes \<rightharpoonup> bytes) \<Rightarrow> (bytes \<Rightarrow> bytes set) \<Rightarrow> net_event \<Rightarrow> bool" where
  "join_ok names J (Join a seed) \<longleftrightarrow> (case names a of None \<Rightarrow> True | Some nid \<Rightarrow> nid \<in> J seed)"
| "join_ok names J _ \<longleftrightarrow> True"

lemma net_step_ok:
  assumes N: "net_ok names J N" and e: "join_ok names J e"
  shows "net_ok names J (net_step h e N)"
proof (cases e)
  case (Tick E a)
  then show ?thesis using N by (auto split: option.split intro!: net_ok_send dest: net_okD round_messages)
next
  case (Deliver E i)
  show ?thesis
  proof (cases "i < length (wire N)")
    case True
    obtain f a m where w: "wire N ! i = (f, a, m)" by (cases "wire N ! i") auto
    have m: "msg_ok (J a) m" using N True w nth_mem [OF True] by (auto simp: net_ok_def)
    show ?thesis
    proof (cases "members N a")
      case (Some g)
      note g = net_okD [OF N Some]
      obtain ds g' where r: "receive_message h E m f g = (ds, g')" by (cases "receive_message h E m f g")
      have "net_ok names J (N\<lparr>members := (members N)(a \<mapsto> g')\<rparr>)"
        using net_ok_member [OF N Some, of g'] receive_ok [OF g m, of h E f] receive_local [of h E m f g] r by simp
      then have "net_ok names J (send_from a ds (N\<lparr>members := (members N)(a \<mapsto> g')\<rparr>))"
        by (rule net_ok_send) (use receive_replies [OF g m, of _ _ h E f] r in auto)
      then show ?thesis by (simp add: Deliver True w Some r)
    qed (simp add: Deliver True w N)
  qed (simp add: Deliver N)
next
  case (Health E a)
  then show ?thesis using N by (auto split: option.split intro!: net_ok_member health_ok dest: net_okD)
next
  case (Join a seed)
  then show ?thesis using N e
    by (auto split: option.splits intro!: net_ok_send
        simp: join_cluster_def local_ping_def net_ok_def member_ok_def)
qed

interpretation net_events: event_system "net_step h" "join_ok names J" "net_ok names J" for h names J
  by unfold_locales (rule net_step_ok)

lemma net_run_ok:
  assumes "net_ok names J N" "\<forall>e \<in> set es. join_ok names J e"
  shows "net_ok names J (net_run h es N)"
  using net_events.run_inv assms by (simp add: net_run_def list_all_iff)

definition names_of :: "network \<Rightarrow> bytes \<rightharpoonup> bytes" where
  "names_of N a = map_option (node_id \<circ> gp_local) (members N a)"

definition joiners :: "net_event list \<Rightarrow> network \<Rightarrow> bytes \<Rightarrow> bytes set" where
  "joiners es N seed = {nid. \<exists>a. Join a seed \<in> set es \<and> names_of N a = Some nid}"

lemma net_start_ok: "net_ok (names_of (net_start h E vn ms)) J (net_start h E vn ms)"
proof -
  have "member_ok (J a) g" if "members (net_start h E vn ms) a = Some g" for a g
  proof -
    have "\<exists>m. g = started h E vn m" using that
      by (auto simp: net_start_def simp del: split_paired_Ex dest!: map_of_SomeD)
    then obtain m where "g = started h E vn m" ..
    then show ?thesis
      using started_inv [of h E vn m]
      by (auto simp: member_ok_def started_def gossip_new_def node_new_def Let_def split: prod.splits)
  qed
  then show ?thesis by (auto simp: net_ok_def names_of_def) (simp add: net_start_def)
qed

lemma network_ok:
  "net_ok (names_of (net_start h E vn ms)) (joiners es (net_start h E vn ms))
     (net_run h es (net_start h E vn ms))"
proof (rule net_run_ok [OF net_start_ok], rule ballI)
  fix e assume e: "e \<in> set es"
  show "join_ok (names_of (net_start h E vn ms)) (joiners es (net_start h E vn ms)) e"
    by (cases e) (use e in \<open>auto simp: joiners_def split: option.split\<close>)
qed

text \<open>A member that was struck off the ring stays off it while no message has a newer version.\<close>

definition off_ring :: "bytes \<Rightarrow> GossipProtocol \<Rightarrow> bool" where
  "off_ring nid g \<longleftrightarrow> nid \<in> fst ` set (gp_known g) \<and> nid \<notin> ring_ids (gp_ring g)"

lemma off_ring_iff:
  "off_ring nid g \<longleftrightarrow> (\<exists>n. map_of (gp_known g) nid = Some n) \<and> nid \<notin> ring_ids (gp_ring g)"
  using map_of_eq_None_iff [of "gp_known g" nid] by (auto simp: off_ring_def simp del: map_of_eq_Some_iff)

lemma receive_off_ring:
  assumes g: "member_ok J g" and m: "msg_ok J m" and off: "off_ring nid g"
  shows "off_ring nid (snd (receive_message h E m a g))"
proof (cases m)
  case (NodeState n)
  let ?n = "node_deserialize E n"
  have "ring_ids (gp_ring (merge_node h ?n g)) \<subseteq>
      (if map_of (gp_known g) (node_id n) = None then insert (node_id n) (ring_ids (gp_ring g)) else ring_ids (gp_ring g))"
    using g m NodeState ring_ids_add [of "gp_ring g" h ?n]
    by (auto simp: merge_node_def member_ok_def gossip_inv_def node_deserialize_def
        simp del: map_of_eq_Some_iff split: option.split)
  then show ?thesis using off
    by (auto simp: NodeState receive_message_def off_ring_iff merge_known simp del: map_of_eq_Some_iff split: if_splits)
qed (use assms in \<open>auto simp: receive_message_def off_ring_iff seen_known simp del: map_of_eq_Some_iff\<close>)

lemma health_off_ring: "off_ring nid g \<Longrightarrow> off_ring nid (health_check E g)"
  by (auto simp: off_ring_iff health_known health_ring_ids simp del: map_of_eq_Some_iff)

lemma step_off_ring:
  assumes N: "net_ok names J N" and off: "\<forall>g. members N a = Some g \<longrightarrow> off_ring nid g"
  shows "\<forall>g. members (net_step h e N) a = Some g \<longrightarrow> off_ring nid g"
proof (cases e)
  case (Deliver E i)
  show ?thesis
  proof (cases "i < length (wire N)")
    case True
    obtain f d m where w: "wire N ! i = (f, d, m)" by (cases "wire N ! i") auto
    have "msg_ok (J d) m" using N True w nth_mem [OF True] by (auto simp: net_ok_def)
    then have "off_ring nid (snd (receive_message h E m f g))" if "members N a = Some g" "d = a" for g
      using receive_off_ring net_okD [OF N] off that by blast
    then show ?thesis using off
      by (auto simp: Deliver True w split: option.splits prod.splits)
  qed (use off in \<open>simp add: Deliver\<close>)
qed (use off in \<open>auto simp: health_off_ring split: option.splits\<close>)

interpretation struck_off: event_system "net_step h" "join_ok names J"
    "\<lambda>N. net_ok names J N \<and> (\<forall>g. members N a = Some g \<longrightarrow> off_ring nid g)" for h names J a nid
  by unfold_locales (use net_step_ok step_off_ring in blast)

lemma run_off_ring:
  assumes "net_ok names J N" "\<forall>e \<in> set es. join_ok names J e" "\<forall>g. members N a = Some g \<longrightarrow> off_ring nid g"
  shows "\<forall>g. members (net_run h es N) a = Some g \<longrightarrow> off_ring nid g"
  using struck_off.run_inv [of names J N a nid es h] assms by (simp add: net_run_def list_all_iff)

lemma get_node_on_ring:
  assumes "get_node h key r = Some nid"
  shows "nid \<in> ring_ids r"
proof -
  have "set (bt_range_from u64_cmp (h key) (ring r)) \<subseteq> set (bt_list (ring r))"
    by (auto simp: bt_range_from_def dest: set_dropWhileD)
  then show ?thesis using assms
    by (auto simp: get_node_def ring_ids_def split: if_splits list.splits intro: rev_image_eqI)
qed

subsection \<open>Properties\<close>

text \<open>
  The members of a network keep their invariant: the ring is in order, every known node is filed
  under its own id, and the ring holds no id but the member's own and those it knows.
\<close>

theorem gossip_keeps_invariant:
  assumes "members (net_run h es (net_start h E vn ms)) a = Some g"
  shows "gossip_inv g"
  using net_okD [OF network_ok assms] by (simp add: member_ok_def)

text \<open>
  Membership travels one hop. Whatever is delivered, repeated, lost or reordered, a member
  knows only the nodes that joined through its own address, and its ring holds only those and
  itself: no member ever passes on what it knows, so a node that joins a cluster does not learn
  of it.
\<close>

theorem membership_travels_one_hop:
  assumes "members (net_run h es (net_start h E vn ms)) a = Some g"
  shows "fst ` set (gp_known g) \<subseteq> joiners es (net_start h E vn ms) a"
    and "ring_ids (gp_ring g) \<subseteq> insert (node_id (gp_local g)) (joiners es (net_start h E vn ms) a)"
proof -
  let ?J = "joiners es (net_start h E vn ms) a"
  have ok: "member_ok ?J g" by (rule net_okD [OF network_ok assms])
  then show known: "fst ` set (gp_known g) \<subseteq> ?J"
    by (force simp: member_ok_def gossip_inv_def known_ok_def)
  show "ring_ids (gp_ring g) \<subseteq> insert (node_id (gp_local g)) ?J"
    using ok known unfolding member_ok_def gossip_inv_def by blast
qed

definition two_members :: network where
  "two_members = net_start sample_hash sample_env 2 [(''a'', ''ha:1'', ''ha:2''), (''b'', ''hb:1'', ''hb:2'')]"

definition joined :: "net_event list" where
  "joined = [Join ''ha:2'' ''hb:2'', Deliver sample_env 0, Deliver sample_env 1, Deliver sample_env 2]"

lemmas gossip_defs = net_start_def started_def gossip_new_def node_new_def
  join_cluster_def local_ping_def receive_message_def node_deserialize_def merge_node_def seen_def
  send_from_def update_last_seen_def sample_env_def Let_def

lemma joined_network:
  "map_option gp_known (members (net_run sample_hash joined two_members) ''ha:2'') = Some []"
  "map_option (map fst \<circ> gp_known) (members (net_run sample_hash joined two_members) ''hb:2'') = Some [''a'']"
  by (simp_all add: gossip_defs joined_def two_members_def)

theorem membership_travels_one_hop_witness:
  "fst ` set (gp_known (the (members (net_run sample_hash joined two_members) ''hb:2''))) \<subseteq>
     joiners joined two_members ''hb:2''"
proof -
  obtain g where "members (net_run sample_hash joined two_members) ''hb:2'' = Some g"
    using joined_network(2) by auto
  then show ?thesis
    using membership_travels_one_hop(1) [of sample_hash joined sample_env 2 _ "''hb:2''" g]
    by (simp add: two_members_def)
qed

text \<open>
  (C40) A failed member never returns. Once a health check has struck a node off a member's
  ring, that member never routes a key to it again, whatever messages the node sends when it is
  back: versions stay at 0, so what it says of itself is never newer than what is known.
\<close>

theorem failed_member_never_returns:
  assumes "N = net_run h es (net_start h E vn ms)" "members N a = Some g"
    and "map_of (gp_known g) nid = Some n" "time_since_last_seen F n > FAILED_TIMEOUT" "node_status n \<noteq> NodeStatus.Failed"
    and "members (net_run h (Health F a # later) N) a = Some g'"
  shows "get_node h key (gp_ring g') \<noteq> Some nid"
proof -
  let ?S = "net_start h E vn ms" and ?es = "es @ Health F a # later"
  let ?J = "joiners ?es ?S"
  have joins: "join_ok (names_of ?S) ?J e" if "e \<in> set ?es" for e
    by (cases e) (use that in \<open>auto simp: joiners_def split: option.split\<close>)
  have ok: "net_ok (names_of ?S) ?J (net_step h (Health F a) N)"
    using net_run_ok [OF net_start_ok, of "es @ [Health F a]" h E vn ms ?J] joins by (simp add: assms(1))
  have "(nid, n) \<in> set (gp_known g)" using assms(3) by (rule map_of_SomeD)
  then have "off_ring nid (health_check F g)"
    using assms(3-5) by (force simp: off_ring_iff health_known health_ring_ids check_node_def Let_def simp del: map_of_eq_Some_iff)
  then have off: "\<forall>g'. members (net_step h (Health F a) N) a = Some g' \<longrightarrow> off_ring nid g'"
    by (simp add: assms(2))
  have "\<forall>e \<in> set later. join_ok (names_of ?S) ?J e" using joins by simp
  then have "off_ring nid g'" using run_off_ring [OF ok _ off] assms(6) unfolding net_run_Cons by blast
  then show ?thesis using get_node_on_ring by (auto simp: off_ring_def)
qed

text \<open>The node is heard of again, and is marked active, yet it is not on the ring.\<close>

definition later_env :: env where
  "later_env = sample_env\<lparr>now := 11000001000\<rparr>"

definition back_again :: "net_event list" where
  "back_again = [Join ''ha:2'' ''hb:2'', Deliver later_env 3, Deliver later_env 4]"

lemma back_again_network:
  "map_option (map (node_status \<circ> snd) \<circ> gp_known)
     (members (net_run sample_hash (Health later_env ''hb:2'' # back_again) (net_run sample_hash joined two_members)) ''hb:2'')
     = Some [Active]"
  by (simp add: gossip_defs joined_def two_members_def back_again_def later_env_def
      health_check_def check_node_def time_since_last_seen_def FAILED_TIMEOUT_def secs_def mark_failed_def)

theorem failed_member_never_returns_witness:
  "get_node sample_hash ''k'' (gp_ring (the (members
     (net_run sample_hash (Health later_env ''hb:2'' # back_again) (net_run sample_hash joined two_members)) ''hb:2'')))
   \<noteq> Some ''a''"
proof -
  let ?N = "net_run sample_hash joined two_members"
  obtain g n where g: "members ?N ''hb:2'' = Some g" "map_of (gp_known g) ''a'' = Some n" "last_seen n = 1000" "node_status n = Active"
    by (simp add: gossip_defs joined_def two_members_def)
  moreover obtain g' where "members (net_run sample_hash (Health later_env ''hb:2'' # back_again) ?N) ''hb:2'' = Some g'"
    using back_again_network by auto
  ultimately show ?thesis
    using failed_member_never_returns [OF _ g(1,2), of sample_hash joined sample_env 2 _ later_env back_again g' "''k''"]
    by (simp add: two_members_def later_env_def time_since_last_seen_def FAILED_TIMEOUT_def secs_def)
qed

end
