(* ===== verification/Tls.thy ===== *)
theory Tls
  imports Value_Types
begin

text \<open>
  The TLS acceptor (tls/mod.rs). What rustls and its PEM reader answer is the record \<open>tls_lib\<close>: the
  certificates and the keys in a file's content, whether a certificate can be a root, whether a
  verifier can be built and whether a key goes with its certificates. Files are a table.
\<close>

record TlsConfig =
  tls_enabled :: bool
  tls_cert_file :: "bytes option"
  tls_key_file :: "bytes option"
  tls_ca_file :: "bytes option"
  tls_require_client_cert :: bool
  tls_cluster :: bool

datatype PrivateKey = Pkcs8 bytes | Pkcs1 bytes

record tls_lib =
  pem_certs :: "bytes \<Rightarrow> bytes list result"
  pem_pkcs8 :: "bytes \<Rightarrow> bytes list result"
  pem_rsa :: "bytes \<Rightarrow> bytes list result"
  root_ok :: "bytes \<Rightarrow> bool"
  verifier_ok :: "bytes list \<Rightarrow> bool"
  single_cert_ok :: "bytes list \<Rightarrow> PrivateKey \<Rightarrow> bool"

record TlsAcceptor =
  acc_certs :: "bytes list"
  acc_key :: PrivateKey
  acc_client_roots :: "bytes list option"

definition open_file :: "bytes table \<Rightarrow> bytes \<Rightarrow> bytes result" where
  "open_file fs path = (case map_of fs path of None \<Rightarrow> Inl ''No such file or directory'' | Some c \<Rightarrow> Inr c)"

definition load_certs :: "tls_lib \<Rightarrow> bytes table \<Rightarrow> bytes \<Rightarrow> bytes list result" where
  "load_certs rl fs path = (case open_file fs path of Inl e \<Rightarrow> Inl e | Inr c \<Rightarrow> pem_certs rl c)"

definition load_private_key :: "tls_lib \<Rightarrow> bytes table \<Rightarrow> bytes \<Rightarrow> PrivateKey result" where
  "load_private_key rl fs path =
     (case open_file fs path of
        Inl e \<Rightarrow> Inl e
      | Inr c \<Rightarrow>
          (case pem_pkcs8 rl c of
             Inl e \<Rightarrow> Inl e
           | Inr (k # _) \<Rightarrow> Inr (Pkcs8 k)
           | Inr [] \<Rightarrow>
               (case pem_rsa rl c of
                  Inl e \<Rightarrow> Inl e
                | Inr (k # _) \<Rightarrow> Inr (Pkcs1 k)
                | Inr [] \<Rightarrow> Inl ''Could not load private key from file'')))"

text \<open>The certificates a client must be signed by: \<open>None\<close> when none is asked for.\<close>

definition client_roots :: "tls_lib \<Rightarrow> bytes table \<Rightarrow> TlsConfig \<Rightarrow> bytes list option result" where
  "client_roots rl fs c =
     (if tls_require_client_cert c then
        (case tls_ca_file c of
           None \<Rightarrow> Inl ''CA file required when client certificate verification is enabled''
         | Some ca_file \<Rightarrow>
             (case load_certs rl fs ca_file of
                Inl e \<Rightarrow> Inl e
              | Inr ca_certs \<Rightarrow>
                  if \<not> list_all (root_ok rl) ca_certs then Inl ''invalid root certificate''
                  else if \<not> verifier_ok rl ca_certs then Inl ''no verifier''
                  else Inr (Some ca_certs)))
      else Inr None)"

definition create_tls_acceptor :: "tls_lib \<Rightarrow> bytes table \<Rightarrow> TlsConfig \<Rightarrow> TlsAcceptor result" where
  "create_tls_acceptor rl fs c =
     (if \<not> tls_enabled c then Inl ''TLS is not enabled in configuration''
      else (case (tls_cert_file c, tls_key_file c) of
          (None, _) \<Rightarrow> Inl ''TLS cert_file is required when TLS is enabled''
        | (Some _, None) \<Rightarrow> Inl ''TLS key_file is required when TLS is enabled''
        | (Some cert_file, Some key_file) \<Rightarrow>
            (case load_certs rl fs cert_file of
               Inl e \<Rightarrow> Inl e
             | Inr certs \<Rightarrow>
                 (case load_private_key rl fs key_file of
                    Inl e \<Rightarrow> Inl e
                  | Inr key \<Rightarrow>
                      (case client_roots rl fs c of
                         Inl e \<Rightarrow> Inl e
                       | Inr roots \<Rightarrow>
                           if single_cert_ok rl certs key
                           then Inr \<lparr>acc_certs = certs, acc_key = key, acc_client_roots = roots\<rparr>
                           else Inl ''invalid certificate'')))))"

text \<open>
  A client certificate is verified exactly when the configuration asks for it, and against the
  certificates of the configured file: a missing file never turns the verification off.
\<close>

theorem client_certificates_verified:
  assumes "create_tls_acceptor rl fs c = Inr a"
  shows "tls_enabled c \<and>
    (case acc_client_roots a of
       None \<Rightarrow> \<not> tls_require_client_cert c
     | Some roots \<Rightarrow> tls_require_client_cert c \<and> (\<exists>ca_file. tls_ca_file c = Some ca_file \<and> load_certs rl fs ca_file = Inr roots))"
  using assms
  by (auto simp: create_tls_acceptor_def client_roots_def split: if_splits option.splits sum.splits)

theorem client_certificates_verified_witness:
  "(case acc_client_roots \<lparr>acc_certs = [''x''], acc_key = Pkcs8 ''x'', acc_client_roots = Some [''x'']\<rparr> of
      None \<Rightarrow> False | Some roots \<Rightarrow> roots = [''x''])"
proof -
  let ?rl = "\<lparr>pem_certs = (\<lambda>c. Inr [c]), pem_pkcs8 = (\<lambda>c. Inr [c]), pem_rsa = (\<lambda>_. Inr []), root_ok = (\<lambda>_. True),
     verifier_ok = (\<lambda>_. True), single_cert_ok = (\<lambda>_ _. True)\<rparr>"
  let ?c = "\<lparr>tls_enabled = True, tls_cert_file = Some ''f'', tls_key_file = Some ''f'', tls_ca_file = Some ''f'',
     tls_require_client_cert = True, tls_cluster = False\<rparr>"
  have "create_tls_acceptor ?rl [(''f'', ''x'')] ?c =
      Inr \<lparr>acc_certs = [''x''], acc_key = Pkcs8 ''x'', acc_client_roots = Some [''x'']\<rparr>"
    by (simp add: create_tls_acceptor_def client_roots_def load_certs_def load_private_key_def open_file_def)
  from client_certificates_verified [OF this] show ?thesis by (simp add: load_certs_def open_file_def)
qed

end
