(* ===== verification/Startup.thy ===== *)
theory Startup
  imports Gossip Snapshot System Tls
begin

text \<open>
  The configuration (config.rs, persistence/mod.rs), the constructors of the server (server.rs)
  and what the program does before it serves (main.rs). What the operating system and third-party
  code answer is the record \<open>os\<close>: the files, the JSON parser, the parser of socket addresses, which
  addresses can be bound, what rustls answers, and the Argon2 hash of a password
  under the salt of a call. A duration and a port are numbers, a path and an address are text.
\<close>

subsection \<open>Configuration\<close>

record ServerConfig =
  sc_host :: bytes
  sc_port :: "16 word"
  sc_tls_port :: "16 word option"
  sc_max_connections :: nat

record PersistenceConfigJson =
  pj_enabled :: bool
  pj_mode :: bytes
  pj_wal_sync_policy :: bytes
  pj_snapshot_interval_secs :: "64 word"
  pj_max_wal_size_mb :: "64 word"
  pj_data_dir :: bytes
  pj_wal_backup_count :: "32 word"

record PerformanceConfig =
  pf_cleanup_interval_secs :: "64 word"
  pf_max_memory_mb :: "64 word option"
  pf_worker_threads :: "nat option"

record ReplicationConfig =
  rc_role :: bytes
  rc_replication_port :: "16 word option"
  rc_master_addr :: "bytes option"

record AclRuleConfig =
  ar_permission :: bytes
  ar_commands :: "bytes list"
  ar_key_patterns :: "bytes list"

record UserConfig =
  uc_username :: bytes
  uc_password :: bytes
  uc_is_admin :: bool
  uc_rules :: "AclRuleConfig list"

record SecurityConfig =
  se_enabled :: bool
  se_users :: "UserConfig list"

record AppConfig =
  ac_server :: ServerConfig
  ac_persistence :: PersistenceConfigJson
  ac_performance :: PerformanceConfig
  ac_tls :: TlsConfig
  ac_replication :: ReplicationConfig
  ac_security :: SecurityConfig

definition default_host :: bytes where "default_host = ''127.0.0.1''"
definition default_port :: "16 word" where "default_port = 7777"
definition default_max_connections :: nat where "default_max_connections = 10000"
definition default_enabled :: bool where "default_enabled = False"
definition default_mode :: bytes where "default_mode = ''both''"
definition default_wal_sync_policy :: bytes where "default_wal_sync_policy = ''everysecond''"
definition default_snapshot_interval_secs :: "64 word" where "default_snapshot_interval_secs = 300"
definition default_max_wal_size_mb :: "64 word" where "default_max_wal_size_mb = 100"
definition default_data_dir :: bytes where "default_data_dir = ''./data''"
definition default_cleanup_interval_secs :: "64 word" where "default_cleanup_interval_secs = 60"
definition default_max_memory_mb :: "64 word option" where "default_max_memory_mb = None"
definition default_worker_threads :: "nat option" where "default_worker_threads = None"
definition default_wal_backup_count :: "32 word" where "default_wal_backup_count = 1"
definition default_replication_role :: bytes where "default_replication_role = ''standalone''"
definition default_acl_permission :: bytes where "default_acl_permission = ''custom''"
definition default_key_patterns :: "bytes list" where "default_key_patterns = [''*'']"

definition default_server :: ServerConfig where
  "default_server =
     \<lparr>sc_host = default_host, sc_port = default_port, sc_tls_port = None,
      sc_max_connections = default_max_connections\<rparr>"

definition default_persistence :: PersistenceConfigJson where
  "default_persistence =
     \<lparr>pj_enabled = default_enabled, pj_mode = default_mode,
      pj_wal_sync_policy = default_wal_sync_policy,
      pj_snapshot_interval_secs = default_snapshot_interval_secs,
      pj_max_wal_size_mb = default_max_wal_size_mb, pj_data_dir = default_data_dir,
      pj_wal_backup_count = default_wal_backup_count\<rparr>"

definition default_performance :: PerformanceConfig where
  "default_performance =
     \<lparr>pf_cleanup_interval_secs = default_cleanup_interval_secs,
      pf_max_memory_mb = default_max_memory_mb, pf_worker_threads = default_worker_threads\<rparr>"

definition default_tls :: TlsConfig where
  "default_tls =
     \<lparr>tls_enabled = False, tls_cert_file = None, tls_key_file = None, tls_ca_file = None,
      tls_require_client_cert = False, tls_cluster = False\<rparr>"

definition default_replication :: ReplicationConfig where
  "default_replication = \<lparr>rc_role = default_replication_role, rc_replication_port = None, rc_master_addr = None\<rparr>"

definition default_security :: SecurityConfig where
  "default_security = \<lparr>se_enabled = False, se_users = []\<rparr>"

definition default_config :: AppConfig where
  "default_config =
     \<lparr>ac_server = default_server, ac_persistence = default_persistence,
      ac_performance = default_performance, ac_tls = default_tls,
      ac_replication = default_replication, ac_security = default_security\<rparr>"

record os =
  os_files :: "bytes table"
  os_json :: "bytes \<Rightarrow> AppConfig option"
  os_addr :: "bytes \<Rightarrow> bytes option"
  os_bind :: "bytes \<Rightarrow> bool"
  os_rustls :: tls_lib
  os_hash :: "nat \<Rightarrow> bytes \<Rightarrow> bytes"

definition from_file :: "os \<Rightarrow> bytes \<Rightarrow> AppConfig option" where
  "from_file o_s path = (case map_of (os_files o_s) path of None \<Rightarrow> None | Some text \<Rightarrow> os_json o_s text)"

definition load_config :: "os \<Rightarrow> bytes \<Rightarrow> AppConfig" where
  "load_config o_s path = (case from_file o_s path of Some c \<Rightarrow> c | None \<Rightarrow> default_config)"

definition server_address :: "AppConfig \<Rightarrow> bytes" where
  "server_address c = sc_host (ac_server c) @ '':'' @ nat_to_string (unat (sc_port (ac_server c)))"

definition to_acl_rule :: "AclRuleConfig \<Rightarrow> ACLRule" where
  "to_acl_rule r =
     (let p = to_ascii_lowercase (ar_permission r)
      in \<lparr>permissions =
            (if p \<in> set [''allowall'', ''all''] then [AllCommands]
             else if p \<in> set [''readonly'', ''read''] then [ReadCommands]
             else if p \<in> set [''writeonly'', ''write''] then [WriteCommands]
             else if p \<in> set [''deny'', ''none''] then [Deny]
             else map SpecificCommand (ar_commands r)),
          key_patterns = ar_key_patterns r\<rparr>)"

definition user_new :: "os \<Rightarrow> nat \<Rightarrow> bytes \<Rightarrow> bytes \<Rightarrow> bool \<Rightarrow> User" where
  "user_new o_s salt name password admin =
     \<lparr>username = name, password_hash = os_hash o_s salt password, acl_rules = [], is_admin = admin\<rparr>"

definition to_user :: "os \<Rightarrow> nat \<times> UserConfig \<Rightarrow> User" where
  "to_user o_s iuc =
     (case iuc of (i, uc) \<Rightarrow>
        fold (add_acl_rule \<circ> to_acl_rule) (uc_rules uc)
          (user_new o_s i (uc_username uc) (uc_password uc) (uc_is_admin uc)))"

definition to_auth_manager :: "os \<Rightarrow> AppConfig \<Rightarrow> AuthManager option" where
  "to_auth_manager o_s c =
     (if \<not> se_enabled (ac_security c) then None
      else Some (auth_with_users True (map (to_user o_s) (enumerate 0 (se_users (ac_security c))))))"

datatype PersistenceMode = Mode_None | Mode_WAL | Mode_Snapshot | Mode_Both

record PersistenceConfig =
  pc_mode :: PersistenceMode
  pc_wal_sync_policy :: WALSyncPolicy
  pc_snapshot_interval_secs :: "64 word"
  pc_max_wal_size_bytes :: "64 word"
  pc_wal_path :: bytes
  pc_snapshot_path :: bytes
  pc_wal_backup_count :: "32 word"

definition mode_from_str :: "env \<Rightarrow> bytes \<Rightarrow> bytes + PersistenceMode" where
  "mode_from_str E s =
     (let l = str_lower E s
      in if l = ''none'' then Inr Mode_None
         else if l = ''wal'' then Inr Mode_WAL
         else if l = ''snapshot'' then Inr Mode_Snapshot
         else if l = ''both'' then Inr Mode_Both
         else Inl (''Invalid persistence mode: '' @ s))"

definition sync_from_str :: "env \<Rightarrow> bytes \<Rightarrow> bytes + WALSyncPolicy" where
  "sync_from_str E s =
     (let l = str_lower E s
      in if l = ''always'' then Inr Sync_Always
         else if l \<in> set [''every_sec'', ''every_second''] then Inr Sync_EverySecond
         else if l = ''manual'' then Inr Sync_Manual
         else Inl (''Invalid WAL sync policy: '' @ s))"

definition default_persistence_config :: PersistenceConfig where
  "default_persistence_config =
     \<lparr>pc_mode = Mode_None, pc_wal_sync_policy = Sync_EverySecond, pc_snapshot_interval_secs = 300,
      pc_max_wal_size_bytes = 100 * 1024 * 1024, pc_wal_path = ''cache.wal'',
      pc_snapshot_path = ''cache.snapshot'', pc_wal_backup_count = 1\<rparr>"

definition config_mode :: "env \<Rightarrow> bytes \<Rightarrow> PersistenceMode" where
  "config_mode E s =
     (let l = str_lower E s
      in if l = ''wal'' then Mode_WAL
         else if l = ''snapshot'' then Mode_Snapshot
         else if l = ''both'' then Mode_Both
         else Mode_None)"

definition config_sync :: "env \<Rightarrow> bytes \<Rightarrow> WALSyncPolicy" where
  "config_sync E s =
     (let l = str_lower E s
      in if l = ''always'' then Sync_Always
         else if l \<in> set [''everysecond'', ''every_second''] then Sync_EverySecond
         else if l = ''manual'' then Sync_Manual
         else Sync_EverySecond)"

definition to_persistence_config :: "env \<Rightarrow> AppConfig \<Rightarrow> PersistenceConfig option" where
  "to_persistence_config E c =
     (let p = ac_persistence c
      in if \<not> pj_enabled p then None
         else Some
           \<lparr>pc_mode = config_mode E (pj_mode p), pc_wal_sync_policy = config_sync E (pj_wal_sync_policy p),
            pc_snapshot_interval_secs = pj_snapshot_interval_secs p,
            pc_max_wal_size_bytes = pj_max_wal_size_mb p * 1024 * 1024,
            pc_wal_path = pj_data_dir p @ ''/cache.wal'',
            pc_snapshot_path = pj_data_dir p @ ''/cache.snapshot'',
            pc_wal_backup_count = pj_wal_backup_count p\<rparr>)"

subsection \<open>The constructors of the server\<close>

datatype ReplicationRole = Role_Master | Role_Replica bytes | Role_Standalone

record ReplicationInfo =
  info_role :: ReplicationRole
  info_connected_replicas :: nat
  info_replication_offset :: "64 word"

definition replication_info_new :: "ReplicationRole \<Rightarrow> ReplicationInfo" where
  "replication_info_new role = \<lparr>info_role = role, info_connected_replicas = 0, info_replication_offset = 0\<rparr>"

text \<open>
  The server with what is not shared by its connections: the address it will listen on, the
  path of its snapshots, its cluster and its replication. \<open>app_sent\<close> is what it has sent to the seed.
\<close>

record app =
  app_server :: server
  app_addr :: bytes
  app_persistence :: "PersistenceConfig option"
  app_snapshot :: "bytes option"
  app_node :: "bytes option"
  app_gossip :: "GossipProtocol option"
  app_sent :: datagrams
  app_tls :: "(TlsAcceptor \<times> bytes) option"
  app_role :: ReplicationRole
  app_replica :: "ReplicaClient option"

definition app_new :: "bytes \<Rightarrow> app" where
  "app_new addr =
     \<lparr>app_server = server_new, app_addr = addr, app_persistence = None, app_snapshot = None,
      app_node = None, app_gossip = None, app_sent = [], app_tls = None,
      app_role = Role_Standalone, app_replica = None\<rparr>"

definition app_ring :: "app \<Rightarrow> ConsistentHashRing option" where
  "app_ring a = map_option gp_ring (app_gossip a)"

datatype StartError =
    Bad_address bytes
  | Bind_failed bytes
  | Wal_failed WALError
  | Start_panic

definition setup_persistence ::
    "os \<Rightarrow> PersistenceConfig \<Rightarrow> StartError + WriteAheadLog option \<times> bytes option" where
  "setup_persistence o_s c =
     (let opened = (case wal_open (pc_wal_path c) (pc_wal_sync_policy c) (unat (pc_max_wal_size_bytes c))
                          (unat (pc_wal_backup_count c)) (os_files o_s) of
                      Inl e \<Rightarrow> Inl (Wal_failed e) | Inr w \<Rightarrow> Inr w)
      in case pc_mode c of
           Mode_None \<Rightarrow> Inr (None, None)
         | Mode_WAL \<Rightarrow> rbind opened (\<lambda>w. Inr (Some w, None))
         | Mode_Snapshot \<Rightarrow> Inr (None, Some (pc_snapshot_path c))
         | Mode_Both \<Rightarrow> rbind opened (\<lambda>w. Inr (Some w, Some (pc_snapshot_path c))))"

definition persistent :: "PersistenceConfig \<Rightarrow> WriteAheadLog option \<times> bytes option \<Rightarrow> app \<Rightarrow> app" where
  "persistent c ws a =
     (case ws of (wal, snapshot) \<Rightarrow>
        a\<lparr>app_server := (app_server a)\<lparr>sv_wal := wal\<rparr>, app_persistence := Some c, app_snapshot := snapshot\<rparr>)"

definition with_persistence :: "os \<Rightarrow> bytes \<Rightarrow> PersistenceConfig \<Rightarrow> StartError + app" where
  "with_persistence o_s addr c =
     rbind (setup_persistence o_s c) (\<lambda>ws. Inr (persistent c ws (app_new addr)))"

definition parse_addr :: "os \<Rightarrow> bytes \<Rightarrow> StartError + bytes" where
  "parse_addr o_s addr = (case os_addr o_s addr of None \<Rightarrow> Inl (Bad_address addr) | Some a \<Rightarrow> Inr a)"

definition with_clustering ::
    "os \<Rightarrow> hasher \<Rightarrow> env \<Rightarrow> bytes \<Rightarrow> bytes \<Rightarrow> bytes \<Rightarrow> bytes option \<Rightarrow> StartError + app" where
  "with_clustering o_s h E addr caddr nid seed_node =
     rbind (parse_addr o_s addr) (\<lambda>cache_addr.
     rbind (parse_addr o_s caddr) (\<lambda>cluster_socket_addr.
       (let local_node = node_new E nid cache_addr cluster_socket_addr;
            g = gossip_new local_node (add_node h local_node ring_new)
        in if \<not> os_bind o_s cluster_socket_addr then Inl (Bind_failed cluster_socket_addr)
           else
             rbind (case seed_node of
                      None \<Rightarrow> Inr []
                    | Some seed \<Rightarrow> rbind (parse_addr o_s seed) (\<lambda>seed_addr. Inr (join_cluster seed_addr g)))
               (\<lambda>sent. Inr ((app_new addr)\<lparr>app_node := Some nid, app_gossip := Some g, app_sent := sent\<rparr>)))))"

definition with_clustering_and_persistence ::
    "os \<Rightarrow> hasher \<Rightarrow> env \<Rightarrow> bytes \<Rightarrow> bytes \<Rightarrow> bytes \<Rightarrow> bytes option \<Rightarrow> PersistenceConfig \<Rightarrow> StartError + app" where
  "with_clustering_and_persistence o_s h E addr caddr nid seed_node c =
     rbind (with_clustering o_s h E addr caddr nid seed_node) (\<lambda>a.
     rbind (setup_persistence o_s c) (\<lambda>ws. Inr (persistent c ws a)))"

definition as_master :: "os \<Rightarrow> 16 word \<Rightarrow> app \<Rightarrow> StartError option \<times> app" where
  "as_master o_s port a =
     (let addr = ''0.0.0.0:'' @ nat_to_string (unat port)
      in if \<not> os_bind o_s addr then (Some (Bind_failed addr), a)
         else (None, a\<lparr>app_role := Role_Master,
                 app_server := (app_server a)\<lparr>sv_replicator :=
                   Some (master_new (case app_node a of Some nid \<Rightarrow> nid | None \<Rightarrow> ''master''))\<rparr>\<rparr>))"

definition as_replica :: "env \<Rightarrow> bytes \<Rightarrow> app \<Rightarrow> app" where
  "as_replica E master_addr a =
     a\<lparr>app_role := Role_Replica master_addr,
       app_replica := Some (replica_new
         (case app_node a of
            Some nid \<Rightarrow> nid
          | None \<Rightarrow> ''replica-'' @ nat_to_string (unat (take_bit 32 (random_u64 E))))
         (sv_storage (app_server a)))\<rparr>"

definition with_tls :: "TlsAcceptor \<Rightarrow> bytes \<Rightarrow> app \<Rightarrow> app" where
  "with_tls acceptor addr a = a\<lparr>app_tls := Some (acceptor, addr)\<rparr>"

definition with_auth :: "AuthManager \<Rightarrow> app \<Rightarrow> app" where
  "with_auth am a = a\<lparr>app_server := (app_server a)\<lparr>sv_auth := Some am\<rparr>\<rparr>"

subsection \<open>The program\<close>

record Args =
  arg_port :: "16 word"
  arg_cluster_port :: "16 word option"
  arg_node_id :: "bytes option"
  arg_join :: "bytes option"

definition host_port :: "bytes \<Rightarrow> 16 word \<Rightarrow> bytes" where
  "host_port host port = host @ '':'' @ nat_to_string (unat port)"

definition cluster_config :: "Args \<Rightarrow> (16 word \<times> bytes \<times> bytes option) option" where
  "cluster_config args =
     map_option (\<lambda>port.
       (port, case arg_node_id args of Some nid \<Rightarrow> nid | None \<Rightarrow> ''node-'' @ nat_to_string (unat (arg_port args)),
        arg_join args)) (arg_cluster_port args)"

text \<open>The data is loaded, and an error only printed; a panic ends the program.\<close>

definition loaded :: "os \<Rightarrow> snap_codec \<Rightarrow> wal_codec \<Rightarrow> hasher \<Rightarrow> env \<Rightarrow> app \<Rightarrow> StartError + app" where
  "loaded o_s sc cd h E a =
     (case load_from_persistence sc cd h E (app_snapshot a) (os_files o_s) (sv_wal (app_server a)) (sv_storage (app_server a)) of
        (None, _) \<Rightarrow> Inl Start_panic
      | (Some _, s) \<Rightarrow> Inr (a\<lparr>app_server := (app_server a)\<lparr>sv_storage := s\<rparr>\<rparr>))"

definition build_server ::
    "os \<Rightarrow> snap_codec \<Rightarrow> wal_codec \<Rightarrow> hasher \<Rightarrow> env \<Rightarrow> AppConfig \<Rightarrow> Args \<Rightarrow> StartError + app" where
  "build_server o_s sc cd h E c args =
     (let addr = host_port (sc_host (ac_server c)) (arg_port args)
      in case cluster_config args of
           Some (cport, nid, seed) \<Rightarrow>
             (let caddr = host_port (sc_host (ac_server c)) cport
              in case to_persistence_config E c of
                   Some pc \<Rightarrow>
                     rbind (with_clustering_and_persistence o_s h E addr caddr nid seed pc) (loaded o_s sc cd h E)
                 | None \<Rightarrow> with_clustering o_s h E addr caddr nid seed)
         | None \<Rightarrow>
             (case to_persistence_config E c of
                Some pc \<Rightarrow> rbind (with_persistence o_s addr pc) (loaded o_s sc cd h E)
              | None \<Rightarrow> Inr (app_new addr)))"

definition configure_replication :: "os \<Rightarrow> env \<Rightarrow> AppConfig \<Rightarrow> app \<Rightarrow> app" where
  "configure_replication o_s E c a =
     (let r = ac_replication c
      in if rc_role r = ''master'' then
           (case rc_replication_port r of Some port \<Rightarrow> snd (as_master o_s port a) | None \<Rightarrow> a)
         else if rc_role r = ''replica'' then
           (case rc_master_addr r of Some addr \<Rightarrow> as_replica E addr a | None \<Rightarrow> a)
         else a)"

definition configure_tls :: "os \<Rightarrow> AppConfig \<Rightarrow> Args \<Rightarrow> app \<Rightarrow> app" where
  "configure_tls o_s c args a =
     (if tls_enabled (ac_tls c) then
        (case create_tls_acceptor (os_rustls o_s) (os_files o_s) (ac_tls c) of
           Inr acceptor \<Rightarrow>
             with_tls acceptor (host_port (sc_host (ac_server c))
               (case sc_tls_port (ac_server c) of Some port \<Rightarrow> port | None \<Rightarrow> arg_port args + 1000)) a
         | Inl e \<Rightarrow> a)
      else a)"

definition configure_auth :: "os \<Rightarrow> AppConfig \<Rightarrow> app \<Rightarrow> app" where
  "configure_auth o_s c a = (case to_auth_manager o_s c of Some am \<Rightarrow> with_auth am a | None \<Rightarrow> a)"

definition startup ::
    "os \<Rightarrow> snap_codec \<Rightarrow> wal_codec \<Rightarrow> hasher \<Rightarrow> env \<Rightarrow> bytes \<Rightarrow> Args \<Rightarrow> StartError + app" where
  "startup o_s sc cd h E config_path args =
     (let c = load_config o_s config_path
      in rbind (build_server o_s sc cd h E c args)
           (\<lambda>a. Inr (configure_auth o_s c (configure_tls o_s c args (configure_replication o_s E c a)))))"

subsection \<open>What loading keeps\<close>

lemma apply_sharded: "sharded h s \<Longrightarrow> sharded h (snd (apply_write_command h E cmd s))"
  using confinedD(2) [OF apply_write_command_confined, of h s s cmd E] by simp

lemma apply_commands_sharded: "sharded h s \<Longrightarrow> sharded h (snd (apply_commands h E cs s))"
proof (induction cs arbitrary: s)
  case (Cons c cs)
  then show ?case using apply_sharded [OF Cons.prems, of E c] by (auto split: prod.split option.split)
qed simp

lemma load_record_sharded:
  assumes "sharded h s"
  shows "sharded h (snd (load_record h E r s))"
proof -
  have "sharded h (snd (apply_commands h E (rec_commands r) s))" by (rule apply_commands_sharded [OF assms])
  then show ?thesis using assms
    by (auto simp: load_record_def Let_def cs_set_expiry_def sharded_store.wf_entry split: option.split prod.split)
qed

lemma load_records_sharded: "sharded h s \<Longrightarrow> sharded h (snd (load_records h E rs s))"
proof (induction rs arbitrary: s)
  case (Cons r rs)
  then show ?case using load_record_sharded [OF Cons.prems, of E r] by (auto split: prod.split option.split) (metis snd_conv)
qed simp

lemma load_snapshot_sharded: "sharded h s \<Longrightarrow> sharded h (snd (load_snapshot_from_path sc h E path fs s))"
  using load_records_sharded by (auto simp: load_snapshot_from_path_def split: option.split sum.split prod.split) (metis snd_conv)

lemma load_sharded:
  assumes "sharded h s"
  shows "sharded h (snd (load_from_persistence sc cd h E snapshot fs wal s))"
proof -
  let ?l = "case snapshot of None \<Rightarrow> (Some (Inr 0), s) | Some path \<Rightarrow> load_snapshot_from_path sc h E path fs s"
  have "sharded h (snd ?l)" using assms load_snapshot_sharded by (cases snapshot) auto
  then have "sharded h (snd (apply_commands h E cs (snd ?l)))" for cs by (rule apply_commands_sharded)
  with \<open>sharded h (snd ?l)\<close> show ?thesis
    by (auto simp: load_from_persistence_def split: option.splits sum.splits prod.splits) (metis snd_conv)+
qed

subsection \<open>What each step of the start leaves as it was\<close>

lemma rbind_Inr: "rbind r f = Inr y \<longleftrightarrow> (\<exists>x. r = Inr x \<and> f x = Inr y)"
  by (cases r) simp_all

lemma configure_replication_fields:
  "sv_storage (app_server (configure_replication o_s E c a)) = sv_storage (app_server a)"
  "sv_wal (app_server (configure_replication o_s E c a)) = sv_wal (app_server a)"
  "sv_auth (app_server (configure_replication o_s E c a)) = sv_auth (app_server a)"
  "sv_versions (app_server (configure_replication o_s E c a)) = sv_versions (app_server a)"
  "app_snapshot (configure_replication o_s E c a) = app_snapshot a"
  "app_addr (configure_replication o_s E c a) = app_addr a"
  by (simp_all add: configure_replication_def as_master_def as_replica_def Let_def split: option.split)

lemma configure_tls_fields:
  "app_server (configure_tls o_s c args a) = app_server a"
  "app_snapshot (configure_tls o_s c args a) = app_snapshot a"
  "app_addr (configure_tls o_s c args a) = app_addr a"
  by (simp_all add: configure_tls_def with_tls_def split: sum.split)

lemma configure_auth_fields:
  "sv_storage (app_server (configure_auth o_s c a)) = sv_storage (app_server a)"
  "sv_wal (app_server (configure_auth o_s c a)) = sv_wal (app_server a)"
  "sv_versions (app_server (configure_auth o_s c a)) = sv_versions (app_server a)"
  "app_snapshot (configure_auth o_s c a) = app_snapshot a"
  "app_addr (configure_auth o_s c a) = app_addr a"
  "sv_auth (app_server (configure_auth o_s c a)) =
     (case to_auth_manager o_s c of Some am \<Rightarrow> Some am | None \<Rightarrow> sv_auth (app_server a))"
  by (simp_all add: configure_auth_def with_auth_def split: option.split)

lemmas configure_fields = configure_replication_fields configure_tls_fields configure_auth_fields

text \<open>A server before it has loaded anything, with the log and the snapshot its mode asks for.\<close>

definition fresh :: "PersistenceMode option \<Rightarrow> app \<Rightarrow> bool" where
  "fresh m a \<longleftrightarrow> sv_storage (app_server a) = storage_new \<and> sv_versions (app_server a) = versions_new SHARD_COUNT \<and>
     sv_auth (app_server a) = None \<and>
     (sv_wal (app_server a) \<noteq> None \<longleftrightarrow> m \<in> {Some Mode_WAL, Some Mode_Both}) \<and>
     (app_snapshot a \<noteq> None \<longleftrightarrow> m \<in> {Some Mode_Snapshot, Some Mode_Both})"

lemma app_new_fresh: "fresh None (app_new addr)"
  by (simp add: fresh_def app_new_def server_new_def)

lemma persistent_fresh:
  assumes "fresh None a" "setup_persistence o_s pc = Inr ws"
  shows "fresh (Some (pc_mode pc)) (persistent pc ws a)"
  using assms
  by (cases "pc_mode pc") (auto simp: fresh_def setup_persistence_def persistent_def rbind_Inr Let_def)

lemma with_persistence_fresh: "with_persistence o_s addr pc = Inr a \<Longrightarrow> fresh (Some (pc_mode pc)) a"
  using persistent_fresh [OF app_new_fresh] by (auto simp: with_persistence_def rbind_Inr)

lemma with_clustering_fresh: "with_clustering o_s h E addr caddr nid seed = Inr a \<Longrightarrow> fresh None a"
  using app_new_fresh [of addr]
  by (auto simp: with_clustering_def rbind_Inr fresh_def Let_def split: if_splits option.splits)

lemma with_both_fresh:
  "with_clustering_and_persistence o_s h E addr caddr nid seed pc = Inr a \<Longrightarrow> fresh (Some (pc_mode pc)) a"
  using persistent_fresh [OF with_clustering_fresh] by (auto simp: with_clustering_and_persistence_def rbind_Inr)

text \<open>The server that was built: what the constructor left, but for the storage, which was loaded.\<close>

lemma build_server_fresh:
  assumes "build_server o_s sc cd h E c args = Inr a"
  shows "\<exists>b s. fresh (map_option pc_mode (to_persistence_config E c)) b \<and> sharded h s \<and>
    a = b\<lparr>app_server := (app_server b)\<lparr>sv_storage := s\<rparr>\<rparr>"
proof -
  have unloaded: ?thesis if "fresh m a" "m = map_option pc_mode (to_persistence_config E c)" for m
    using that by (intro exI [of _ a] exI [of _ "sv_storage (app_server a)"]) (simp add: fresh_def)
  have was_loaded: ?thesis if b: "fresh (Some (pc_mode pc)) b" "loaded o_s sc cd h E b = Inr a"
      and "to_persistence_config E c = Some pc" for b pc
  proof -
    let ?l = "load_from_persistence sc cd h E (app_snapshot b) (os_files o_s) (sv_wal (app_server b)) (sv_storage (app_server b))"
    have "sharded h (snd ?l)" using load_sharded b(1) by (simp add: fresh_def)
    moreover have "a = b\<lparr>app_server := (app_server b)\<lparr>sv_storage := snd ?l\<rparr>\<rparr>"
      using b(2) by (auto simp: loaded_def split: prod.splits option.splits)
    ultimately show ?thesis using b(1) that(3) by auto
  qed
  have "(\<exists>pc b. to_persistence_config E c = Some pc \<and> fresh (Some (pc_mode pc)) b \<and> loaded o_s sc cd h E b = Inr a) \<or>
      to_persistence_config E c = None \<and> fresh None a"
    using assms unfolding build_server_def Let_def
    by (auto simp: rbind_Inr app_new_fresh split: option.splits
        dest!: with_persistence_fresh with_clustering_fresh with_both_fresh)
  then show ?thesis using unloaded was_loaded by force
qed

lemma startup_fresh:
  assumes "startup o_s sc cd h E path args = Inr a"
  obtains b s where "fresh (map_option pc_mode (to_persistence_config E (load_config o_s path))) b" "sharded h s"
    "sv_storage (app_server a) = s" "sv_versions (app_server a) = versions_new SHARD_COUNT"
    "sv_wal (app_server a) = sv_wal (app_server b)" "app_snapshot a = app_snapshot b"
    "sv_auth (app_server a) = to_auth_manager o_s (load_config o_s path)"
proof -
  let ?c = "load_config o_s path"
  obtain a0 where a0: "build_server o_s sc cd h E ?c args = Inr a0"
    and a: "a = configure_auth o_s ?c (configure_tls o_s ?c args (configure_replication o_s E ?c a0))"
    using assms by (auto simp: startup_def Let_def rbind_Inr)
  from build_server_fresh [OF a0] obtain b s where b: "fresh (map_option pc_mode (to_persistence_config E ?c)) b" "sharded h s"
      "a0 = b\<lparr>app_server := (app_server b)\<lparr>sv_storage := s\<rparr>\<rparr>" by blast
  have "sv_auth (app_server a) = to_auth_manager o_s ?c"
    using b(1) by (auto simp: a configure_fields b(3) fresh_def split: option.split)
  then show ?thesis using b(1) by (intro that [OF b(1,2)]) (simp_all add: a configure_fields b(3) fresh_def)
qed

subsection \<open>Properties\<close>

text \<open>A start with a configuration file: snapshots, and one user.\<close>

definition sample_config :: AppConfig where
  "sample_config = default_config
     \<lparr>ac_persistence := default_persistence\<lparr>pj_enabled := True, pj_mode := ''snapshot''\<rparr>,
      ac_security := \<lparr>se_enabled = True,
        se_users = [\<lparr>uc_username = ''ann'', uc_password = ''pw'', uc_is_admin = True, uc_rules = []\<rparr>]\<rparr>\<rparr>"

definition no_tls :: tls_lib where
  "no_tls = \<lparr>pem_certs = Inl, pem_pkcs8 = Inl, pem_rsa = Inl, root_ok = (\<lambda>_. False),
     verifier_ok = (\<lambda>_. False), single_cert_ok = (\<lambda>_ _. False)\<rparr>"

definition sample_os :: os where
  "sample_os = \<lparr>os_files = [(''config.json'', ''{}'')], os_json = (\<lambda>_. Some sample_config), os_addr = Some,
     os_bind = (\<lambda>_. True), os_rustls = no_tls, os_hash = (\<lambda>salt password. password)\<rparr>"

definition sample_args :: Args where
  "sample_args = \<lparr>arg_port = 7777, arg_cluster_port = None, arg_node_id = None, arg_join = None\<rparr>"

definition no_codec :: snap_codec where
  "no_codec = \<lparr>sn_encode = (\<lambda>_. Inl ''none''), sn_decode = (\<lambda>_. Inl ''none''), sn_crc = (\<lambda>_. 0)\<rparr>"

definition sample_app :: app where
  "sample_app = projr (startup sample_os no_codec (cfg_codec sample_cfg) (cfg_hash sample_cfg) sample_env ''config.json'' sample_args)"

lemma sample_load: "load_config sample_os ''config.json'' = sample_config"
  by (simp add: load_config_def from_file_def sample_os_def)

lemma sample_startup:
  "startup sample_os no_codec (cfg_codec sample_cfg) (cfg_hash sample_cfg) sample_env ''config.json'' sample_args = Inr sample_app"
proof -
  let ?b = "build_server sample_os no_codec (cfg_codec sample_cfg) (cfg_hash sample_cfg) sample_env sample_config sample_args"
  have "\<exists>b. ?b = Inr b"
    by (simp add: build_server_def cluster_config_def sample_args_def to_persistence_config_def sample_config_def
        default_persistence_def config_mode_def sample_env_def with_persistence_def setup_persistence_def loaded_def
        load_from_persistence_def persistent_def app_new_def server_new_def load_snapshot_from_path_def sample_os_def Let_def)
  then show ?thesis by (auto simp: sample_app_def startup_def Let_def sample_load)
qed

text \<open>
  (C38) A start is well formed whatever the files hold: with a broken snapshot, a torn log or no
  file at all, a server that starts has every key in its shard and a version counter for each
  shard, and so has every state its connections reach.
\<close>

theorem startup_well_formed:
  assumes "startup o_s sc (cfg_codec cfg) (cfg_hash cfg) E path args = Inr a"
    and "reachable show_error cfg (app_server a) sys"
  shows "server_inv cfg (app_server a) \<and> system_inv cfg sys"
proof
  show inv: "server_inv cfg (app_server a)"
    by (rule startup_fresh [OF assms(1)]) (simp add: server_inv_def versions_new_def)
  show "system_inv cfg sys" using assms(2) inv by (rule reachable_inv)
qed

theorem startup_well_formed_witness:
  "server_inv sample_cfg (app_server sample_app) \<and>
   system_inv sample_cfg \<lparr>sys_server = app_server sample_app, sys_conns = Map.empty\<rparr>"
  by (rule startup_well_formed [OF sample_startup reachable_start])

text \<open>
  Persistence is what the configuration asks for: a server keeps a log when persistence is
  enabled with the mode wal or both, and snapshots with the mode snapshot or both. Any other
  mode, a misspelt one too, keeps neither.
\<close>

theorem persistence_as_configured:
  assumes "startup o_s sc cd h E path args = Inr a"
  shows "let p = ac_persistence (load_config o_s path); m = str_lower E (pj_mode p)
    in (sv_wal (app_server a) \<noteq> None \<longleftrightarrow> pj_enabled p \<and> m \<in> {''wal'', ''both''}) \<and>
       (app_snapshot a \<noteq> None \<longleftrightarrow> pj_enabled p \<and> m \<in> {''snapshot'', ''both''})"
  by (rule startup_fresh [OF assms])
    (auto simp: fresh_def to_persistence_config_def config_mode_def Let_def split: if_splits)

theorem persistence_as_configured_witness: "sv_wal (app_server sample_app) = None \<and> app_snapshot sample_app \<noteq> None"
  using persistence_as_configured [OF sample_startup]
  by (simp add: sample_load Let_def sample_config_def default_persistence_def sample_env_def)

lemma users_other:
  "name \<notin> username ` set us \<Longrightarrow> map_of (fold (\<lambda>u. AList.update (username u) u) us t) name = map_of t name"
  by (induction us arbitrary: t) (auto simp: update_conv')

lemma users_last:
  assumes "username u \<notin> username ` set ys"
  shows "map_of (fold (\<lambda>u. AList.update (username u) u) (xs @ u # ys) t) (username u) = Some u"
  using users_other [OF assms] by (simp add: update_conv')

lemma add_rules_fields:
  "username (fold (add_acl_rule \<circ> to_acl_rule) rs u) = username u"
  "password_hash (fold (add_acl_rule \<circ> to_acl_rule) rs u) = password_hash u"
  by (induction rs arbitrary: u) (simp_all add: add_acl_rule_def)

lemma to_user_fields [simp]:
  "username (to_user o_s iuc) = uc_username (snd iuc)"
  "password_hash (to_user o_s iuc) = os_hash o_s (fst iuc) (uc_password (snd iuc))"
  by (simp_all add: to_user_def add_rules_fields user_new_def split: prod.split)

lemma usernames: "username ` set (map (to_user o_s) (enumerate i ucs)) = uc_username ` set ucs"
  by (induction ucs arbitrary: i) (simp_all add: image_image)



text \<open>
  A configuration file that does not parse is treated as a missing one: the server starts without
  authentication and without persistence, whatever the file asked for.
\<close>

theorem broken_config_drops_auth:
  assumes "startup o_s sc cd h E path args = Inr a" "from_file o_s path = None"
  shows "sv_auth (app_server a) = None \<and> sv_wal (app_server a) = None \<and> app_snapshot a = None"
  by (rule startup_fresh [OF assms(1)])
    (use assms(2) in \<open>simp add: load_config_def to_auth_manager_def to_persistence_config_def default_config_def
      default_security_def default_persistence_def default_enabled_def Let_def fresh_def\<close>)

text \<open>
  The address a server listens on has the host of the configuration and the port of the command
  line: the port of the configuration is not used.
\<close>

lemma constructor_addr:
  "with_persistence o_s addr pc = Inr a \<Longrightarrow> app_addr a = addr"
  "with_clustering o_s h E addr caddr nid seed = Inr a \<Longrightarrow> app_addr a = addr"
  "with_clustering_and_persistence o_s h E addr caddr nid seed pc = Inr a \<Longrightarrow> app_addr a = addr"
  by (auto simp: with_persistence_def with_clustering_def with_clustering_and_persistence_def rbind_Inr
      persistent_def app_new_def Let_def split: if_splits option.splits prod.splits)

lemma loaded_addr: "loaded o_s sc cd h E b = Inr a \<Longrightarrow> app_addr a = app_addr b"
  by (auto simp: loaded_def split: prod.splits option.splits)

theorem configured_port_unused:
  assumes "startup o_s sc cd h E path args = Inr a"
  shows "app_addr a = host_port (sc_host (ac_server (load_config o_s path))) (arg_port args)"
proof -
  let ?c = "load_config o_s path"
  obtain b where b: "build_server o_s sc cd h E ?c args = Inr b" and "app_addr a = app_addr b"
    using assms by (auto simp: startup_def Let_def rbind_Inr configure_fields)
  moreover from b have "app_addr b = host_port (sc_host (ac_server ?c)) (arg_port args)"
    by (auto simp: build_server_def Let_def rbind_Inr app_new_def split: option.splits
        dest!: constructor_addr loaded_addr)
  ultimately show ?thesis by simp
qed

end
