(* ===== verification/Interleaving.thy ===== *)
theory Interleaving
  imports Commutation Server_Properties
begin

text \<open>
  What \<open>execute_command\<close> does to the shared state is not one step: a write is appended to the log,
  sent to the replicas, counted in the version of its shard and then applied to the storage, each
  under a lock of its own, and the tasks of other connections may run in between. \<open>EXEC\<close> runs its
  queue as such commands, one after the other. This theory has the steps interleaved arbitrarily.
  An operation of the storage is still one step, and so is an append with its rotation.
\<close>

datatype stage = To_log | To_replicate | To_bump | To_apply

text \<open>A connection that executes a command, with the commands of its transaction that are left.\<close>

datatype task = Idle | At stage env Command "(env \<times> Command) list"

fun begin_with :: "(env \<times> Command) list \<Rightarrow> task" where
  "begin_with [] = Idle"
| "begin_with ((E, c) # ws) = At (if is_write_command c then To_log else To_apply) E c ws"

definition do_log :: "config \<Rightarrow> env \<Rightarrow> Command \<Rightarrow> server \<Rightarrow> server" where
  "do_log cfg E c sv = sv\<lparr>sv_wal := map_option (\<lambda>w. snd (append_command (cfg_codec cfg) E c w)) (sv_wal sv)\<rparr>"

definition do_replicate :: "Command \<Rightarrow> server \<Rightarrow> server" where
  "do_replicate c sv = sv\<lparr>sv_replicator := map_option (replicate_write c) (sv_replicator sv)\<rparr>"

definition do_bump :: "config \<Rightarrow> Command \<Rightarrow> server \<Rightarrow> server" where
  "do_bump cfg c sv = sv\<lparr>sv_versions := bump_versions_for (cfg_hash cfg) c (sv_versions sv)\<rparr>"

definition do_apply :: "config \<Rightarrow> env \<Rightarrow> Command \<Rightarrow> server \<Rightarrow> server" where
  "do_apply cfg E c sv = sv\<lparr>sv_storage := serve (cfg_hash cfg) E c (sv_storage sv)\<rparr>"

definition panics :: "config \<Rightarrow> env \<Rightarrow> Command \<Rightarrow> server \<Rightarrow> bool" where
  "panics cfg E c sv =
     (case exec_storage (cfg_hash cfg) E c (sv_storage sv) of Some (None, _) \<Rightarrow> True | _ \<Rightarrow> False)"

text \<open>The next step of a task; a panic ends the task of the connection, with what is left of its queue.\<close>

fun stage_step :: "config \<Rightarrow> task \<Rightarrow> server \<Rightarrow> task \<times> server" where
  "stage_step cfg Idle sv = (Idle, sv)"
| "stage_step cfg (At To_log E c ws) sv = (At To_replicate E c ws, do_log cfg E c sv)"
| "stage_step cfg (At To_replicate E c ws) sv = (At To_bump E c ws, do_replicate c sv)"
| "stage_step cfg (At To_bump E c ws) sv = (At To_apply E c ws, do_bump cfg c sv)"
| "stage_step cfg (At To_apply E c ws) sv =
     (if panics cfg E c sv then Idle else begin_with ws, do_apply cfg E c sv)"

record flight =
  fl_server :: server
  fl_tasks :: "nat \<Rightarrow> task"

definition launch :: "nat \<Rightarrow> (env \<times> Command) list \<Rightarrow> flight \<Rightarrow> flight" where
  "launch i ws f = f\<lparr>fl_tasks := (fl_tasks f)(i := begin_with ws)\<rparr>"

definition advance :: "config \<Rightarrow> nat \<Rightarrow> flight \<Rightarrow> flight" where
  "advance cfg i f =
     (case stage_step cfg (fl_tasks f i) (fl_server f) of
        (t, sv) \<Rightarrow> f\<lparr>fl_server := sv, fl_tasks := (fl_tasks f)(i := t)\<rparr>)"

text \<open>
  The runs. \<open>may\<close> restricts which commands may begin in which state; a command, or the queue of a
  transaction, begins when its connection is idle. Scripts, which log after they have run, and the
  commands of a connection are left out.
\<close>

definition storage_command :: "Command \<Rightarrow> bool" where
  "storage_command cmd = (case cmd of C_Conn _ \<Rightarrow> False | C_Script _ \<Rightarrow> False | _ \<Rightarrow> True)"

inductive interleaved ::
    "((env \<times> Command) list \<Rightarrow> flight \<Rightarrow> bool) \<Rightarrow> config \<Rightarrow> flight \<Rightarrow> flight \<Rightarrow> bool"
  for may cfg f0 where
  fly_start: "interleaved may cfg f0 f0"
| fly_launch: "interleaved may cfg f0 f \<Longrightarrow> fl_tasks f i = Idle \<Longrightarrow> list_all (\<lambda>(E, c). storage_command c) ws \<Longrightarrow>
    may ws f \<Longrightarrow> interleaved may cfg f0 (launch i ws f)"
| fly_advance: "interleaved may cfg f0 f \<Longrightarrow> interleaved may cfg f0 (advance cfg i f)"

definition at_rest :: "server \<Rightarrow> flight" where
  "at_rest sv = \<lparr>fl_server = sv, fl_tasks = (\<lambda>_. Idle)\<rparr>"

text \<open>The commands a task has still to apply, and the condition that nothing that begins touches a key of them.\<close>

fun to_come :: "task \<Rightarrow> (env \<times> Command) list" where
  "to_come Idle = []"
| "to_come (At st E c ws) = (E, c) # ws"

definition apart :: "(env \<times> Command) list \<Rightarrow> flight \<Rightarrow> bool" where
  "apart ws f \<longleftrightarrow> (\<forall>j. \<forall>w \<in> set ws. \<forall>w' \<in> set (to_come (fl_tasks f j)). \<not> conflict w w')"

subsection \<open>Without interruption\<close>

lemma log_write_stages: "log_write cfg E c sv = do_bump cfg c (do_replicate c (do_log cfg E c sv))"
  by (simp add: log_write_def do_bump_def do_replicate_def do_log_def)

subsection \<open>The invariant of runs without conflicts\<close>

text \<open>What a task has noted (in the log, when \<open>S\<close> is the stages after it) and has not yet applied.\<close>

fun noted :: "stage set \<Rightarrow> task \<Rightarrow> (env \<times> Command) option" where
  "noted S Idle = None"
| "noted S (At st E c ws) = (if is_write_command c \<and> st \<in> S then Some (E, c) else None)"

abbreviation after_log :: "stage set" where
  "after_log \<equiv> {To_replicate, To_bump, To_apply}"

abbreviation after_replicate :: "stage set" where
  "after_replicate \<equiv> {To_bump, To_apply}"

fun well_staged :: "task \<Rightarrow> bool" where
  "well_staged Idle = True"
| "well_staged (At st E c ws) \<longleftrightarrow> st = To_apply \<or> is_write_command c"

definition keeps_record :: "config \<Rightarrow> server \<Rightarrow> stage set \<Rightarrow> (server \<Rightarrow> 'a) \<Rightarrow> flight \<Rightarrow> bool" where
  "keeps_record cfg sv0 S field f \<longleftrightarrow>
     (\<exists>ws. list_all (\<lambda>(E, c). is_write_command c) ws \<and> field (fl_server f) = field (log_all cfg ws sv0) \<and>
        served.tracks (cfg_hash cfg) (\<lambda>i. noted S (fl_tasks f i)) ws (sv_storage sv0) (sv_storage (fl_server f)))"

definition orderly :: "config \<Rightarrow> server \<Rightarrow> flight \<Rightarrow> bool" where
  "orderly cfg sv0 f \<longleftrightarrow>
     sharded (cfg_hash cfg) (sv_storage (fl_server f)) \<and> (\<forall>i. well_staged (fl_tasks f i)) \<and>
     (\<forall>i j w w'. i \<noteq> j \<longrightarrow> w \<in> set (to_come (fl_tasks f i)) \<longrightarrow> w' \<in> set (to_come (fl_tasks f j)) \<longrightarrow> \<not> conflict w w') \<and>
     keeps_record cfg sv0 after_log sv_wal f \<and> keeps_record cfg sv0 after_replicate sv_replicator f"

lemma begin_with_facts [simp]:
  "To_log \<notin> S \<Longrightarrow> noted S (begin_with ws) = None" "well_staged (begin_with ws)" "to_come (begin_with ws) = ws"
  by (cases ws rule: begin_with.cases; simp)+

lemma conflict_sym: "conflict w w' \<longleftrightarrow> conflict w' w"
  by (auto simp: conflict_def)

lemma keeps_record_same:
  assumes "keeps_record cfg sv0 S field f" "noted S t = noted S (fl_tasks f i)"
    and "field sv = field (fl_server f)" "sv_storage sv = sv_storage (fl_server f)"
  shows "keeps_record cfg sv0 S field \<lparr>fl_server = sv, fl_tasks = (fl_tasks f)(i := t)\<rparr>"
proof -
  have "(\<lambda>j. noted S (((fl_tasks f)(i := t)) j)) = (\<lambda>j. noted S (fl_tasks f j))" using assms(2) by auto
  then show ?thesis using assms(1,3,4) by (simp add: keeps_record_def)
qed

lemma keeps_record_note:
  assumes "keeps_record cfg sv0 S field f" "noted S (fl_tasks f i) = None" "noted S t = Some (E, c)" "is_write_command c"
    and "\<And>ws. field (fl_server f) = field (log_all cfg ws sv0) \<Longrightarrow> field sv = field (log_all cfg (ws @ [(E, c)]) sv0)"
    and "sv_storage sv = sv_storage (fl_server f)"
    and "\<And>j w. noted S (fl_tasks f j) = Some w \<Longrightarrow> \<not> conflict w (E, c)"
  shows "keeps_record cfg sv0 S field \<lparr>fl_server = sv, fl_tasks = (fl_tasks f)(i := t)\<rparr>"
proof -
  obtain ws where ws: "list_all (\<lambda>(E, c). is_write_command c) ws" "field (fl_server f) = field (log_all cfg ws sv0)"
    "served.tracks (cfg_hash cfg) (\<lambda>i. noted S (fl_tasks f i)) ws (sv_storage sv0) (sv_storage (fl_server f))"
    using assms(1) unfolding keeps_record_def by blast
  have "(\<lambda>j. noted S (fl_tasks f j))(i := Some (E, c)) = (\<lambda>j. noted S (((fl_tasks f)(i := t)) j))" using assms(3) by auto
  with served.tracks_record [OF ws(3) assms(2) TrueI assms(7)] ws assms(4,5,6) show ?thesis
    unfolding keeps_record_def by (intro exI [of _ "ws @ [(E, c)]"]) simp
qed

lemma keeps_record_apply:
  assumes "keeps_record cfg sv0 S field f" "fl_tasks f i = At To_apply E c ws" "To_apply \<in> S" "noted S t = None"
    and "sharded (cfg_hash cfg) (sv_storage sv0)" "sharded (cfg_hash cfg) (sv_storage (fl_server f))"
    and "field (do_apply cfg E c (fl_server f)) = field (fl_server f)"
  shows "keeps_record cfg sv0 S field \<lparr>fl_server = do_apply cfg E c (fl_server f), fl_tasks = (fl_tasks f)(i := t)\<rparr>"
proof (cases "is_write_command c")
  case False
  then show ?thesis using assms by (intro keeps_record_same) (simp_all add: do_apply_def serve_reads)
next
  case True
  obtain ws where ws: "list_all (\<lambda>(E, c). is_write_command c) ws" "field (fl_server f) = field (log_all cfg ws sv0)"
    "served.tracks (cfg_hash cfg) (\<lambda>i. noted S (fl_tasks f i)) ws (sv_storage sv0) (sv_storage (fl_server f))"
    using assms(1) unfolding keeps_record_def by blast
  have "(\<lambda>j. noted S (fl_tasks f j))(i := None) = (\<lambda>j. noted S (((fl_tasks f)(i := t)) j))" using assms(4) by auto
  with served.tracks_perform [OF ws(3) _ assms(5,6), of i "(E, c)"] ws assms(2,3,7) True show ?thesis
    unfolding keeps_record_def by (intro exI [of _ ws]) (simp add: do_apply_def)
qed

lemma advance_task:
  assumes "fl_tasks f i = t" "stage_step cfg t (fl_server f) = (t', sv)"
  shows "advance cfg i f = \<lparr>fl_server = sv, fl_tasks = (fl_tasks f)(i := t')\<rparr>"
  using assms by (cases f) (simp add: advance_def)

lemma keeps_record_start: "keeps_record cfg sv0 S field (at_rest sv0)"
  unfolding keeps_record_def by (rule exI [of _ "[]"]) (simp add: at_rest_def served.tracks_start)

lemma orderly_start: "sharded (cfg_hash cfg) (sv_storage sv0) \<Longrightarrow> orderly cfg sv0 (at_rest sv0)"
  by (simp add: orderly_def keeps_record_start) (simp add: at_rest_def)

lemma orderly_launch:
  assumes "orderly cfg sv0 f" "fl_tasks f i = Idle" "apart ws f"
  shows "orderly cfg sv0 (launch i ws f)"
proof -
  have l: "launch i ws f = \<lparr>fl_server = fl_server f, fl_tasks = (fl_tasks f)(i := begin_with ws)\<rparr>"
    by (cases f) (simp add: launch_def)
  have "keeps_record cfg sv0 after_log sv_wal (launch i ws f)" "keeps_record cfg sv0 after_replicate sv_replicator (launch i ws f)"
    unfolding l using assms(1,2) by (auto simp: orderly_def intro!: keeps_record_same)
  moreover have "\<not> conflict w' w" if "w \<in> set ws" "w' \<in> set (to_come (fl_tasks f j))" for j w w'
    using assms(3) that conflict_sym unfolding apart_def by blast
  ultimately show ?thesis
    using assms by (simp add: orderly_def) (auto simp: launch_def apart_def)
qed

lemma orderly_quiet:
  assumes "orderly cfg sv0 f" "fl_tasks f i = At st E c ws" "noted S (fl_tasks f i) = None" "noted S (fl_tasks f j) = Some w"
  shows "\<not> conflict w (E, c)"
proof -
  have "j \<noteq> i" using assms by auto
  moreover have "w \<in> set (to_come (fl_tasks f j))" using assms(4) by (cases "fl_tasks f j") (auto split: if_splits)
  moreover have "(E, c) \<in> set (to_come (fl_tasks f i))" using assms(2) by simp
  ultimately show ?thesis using assms(1) unfolding orderly_def by blast
qed

lemma orderly_update:
  assumes "orderly cfg sv0 f" "set (to_come t) \<subseteq> set (to_come (fl_tasks f i))" "well_staged t"
    and "sharded (cfg_hash cfg) (sv_storage sv)"
    and "keeps_record cfg sv0 after_log sv_wal \<lparr>fl_server = sv, fl_tasks = (fl_tasks f)(i := t)\<rparr>"
    and "keeps_record cfg sv0 after_replicate sv_replicator \<lparr>fl_server = sv, fl_tasks = (fl_tasks f)(i := t)\<rparr>"
  shows "orderly cfg sv0 \<lparr>fl_server = sv, fl_tasks = (fl_tasks f)(i := t)\<rparr>"
proof -
  have "\<not> conflict w w'" if "j \<noteq> j'" "w \<in> set (to_come (((fl_tasks f)(i := t)) j))" "w' \<in> set (to_come (((fl_tasks f)(i := t)) j'))"
    for j j' w w'
  proof -
    have "w \<in> set (to_come (fl_tasks f j))" "w' \<in> set (to_come (fl_tasks f j'))"
      using that assms(2) by (auto split: if_splits)
    then show ?thesis using assms(1) that(1) unfolding orderly_def by blast
  qed
  then show ?thesis using assms unfolding orderly_def by simp
qed

lemma orderly_advance:
  assumes "orderly cfg sv0 f" "sharded (cfg_hash cfg) (sv_storage sv0)"
  shows "orderly cfg sv0 (advance cfg i f)"
proof -
  have inv: "sharded (cfg_hash cfg) (sv_storage (fl_server f))" "well_staged (fl_tasks f i)"
    and logs: "keeps_record cfg sv0 after_log sv_wal f" "keeps_record cfg sv0 after_replicate sv_replicator f"
    using assms(1) by (simp_all add: orderly_def)
  show ?thesis
  proof (cases "fl_tasks f i")
    case Idle
    then show ?thesis using assms(1) by (cases f) (simp add: advance_def fun_upd_idem)
  next
    case (At st E c ws)
    note quiet = orderly_quiet [OF assms(1) At]
    show ?thesis
    proof (cases st)
      case To_log
      with At have i: "fl_tasks f i = At To_log E c ws" "is_write_command c" using inv(2) by simp_all
      have "keeps_record cfg sv0 after_log sv_wal
          \<lparr>fl_server = do_log cfg E c (fl_server f), fl_tasks = (fl_tasks f)(i := At To_replicate E c ws)\<rparr>"
        using i quiet [of after_log] by (intro keeps_record_note [OF logs(1)]) (simp_all add: do_log_def log_write_def)
      moreover have "keeps_record cfg sv0 after_replicate sv_replicator
          \<lparr>fl_server = do_log cfg E c (fl_server f), fl_tasks = (fl_tasks f)(i := At To_replicate E c ws)\<rparr>"
        using i by (intro keeps_record_same [OF logs(2)]) (simp_all add: do_log_def)
      ultimately show ?thesis
        unfolding advance_task [OF i(1) stage_step.simps(2)]
        using i inv by (intro orderly_update [OF assms(1)]) (simp_all add: do_log_def)
    next
      case To_replicate
      with At have i: "fl_tasks f i = At To_replicate E c ws" "is_write_command c" using inv(2) by simp_all
      have "keeps_record cfg sv0 after_replicate sv_replicator
          \<lparr>fl_server = do_replicate c (fl_server f), fl_tasks = (fl_tasks f)(i := At To_bump E c ws)\<rparr>"
        using i quiet [of after_replicate] by (intro keeps_record_note [OF logs(2)]) (simp_all add: do_replicate_def log_write_def)
      moreover have "keeps_record cfg sv0 after_log sv_wal
          \<lparr>fl_server = do_replicate c (fl_server f), fl_tasks = (fl_tasks f)(i := At To_bump E c ws)\<rparr>"
        using i by (intro keeps_record_same [OF logs(1)]) (simp_all add: do_replicate_def)
      ultimately show ?thesis
        unfolding advance_task [OF i(1) stage_step.simps(3)]
        using i inv by (intro orderly_update [OF assms(1)]) (simp_all add: do_replicate_def)
    next
      case To_bump
      with At have i: "fl_tasks f i = At To_bump E c ws" "is_write_command c" using inv(2) by simp_all
      show ?thesis
        unfolding advance_task [OF i(1) stage_step.simps(4)]
        using i inv
        by (intro orderly_update [OF assms(1)] keeps_record_same [OF logs(1)] keeps_record_same [OF logs(2)]) (simp_all add: do_bump_def)
    next
      case To_apply
      with At have i: "fl_tasks f i = At To_apply E c ws" by simp
      show ?thesis
        unfolding advance_task [OF i stage_step.simps(5)]
        using i inv
        by (intro orderly_update [OF assms(1)] keeps_record_apply [OF logs(1) i] keeps_record_apply [OF logs(2) i] assms(2))
          (auto simp: do_apply_def serve_sharded)
    qed
  qed
qed

lemma orderly_runs:
  assumes "interleaved apart cfg (at_rest sv0) f" "sharded (cfg_hash cfg) (sv_storage sv0)"
  shows "orderly cfg sv0 f"
  using assms
  by (induction rule: interleaved.induct) (simp_all add: orderly_start orderly_launch orderly_advance)

subsection \<open>Schedules\<close>

datatype move = Begin nat "(env \<times> Command) list" | Go nat

fun make :: "config \<Rightarrow> move \<Rightarrow> flight \<Rightarrow> flight" where
  "make cfg (Begin i ws) f = launch i ws f"
| "make cfg (Go i) f = advance cfg i f"

definition play :: "config \<Rightarrow> move list \<Rightarrow> flight \<Rightarrow> flight" where
  "play cfg ms f = fold (make cfg) ms f"

fun playable :: "((env \<times> Command) list \<Rightarrow> flight \<Rightarrow> bool) \<Rightarrow> config \<Rightarrow> move list \<Rightarrow> flight \<Rightarrow> bool" where
  "playable may cfg [] f \<longleftrightarrow> True"
| "playable may cfg (Begin i ws # ms) f \<longleftrightarrow>
     fl_tasks f i = Idle \<and> list_all (\<lambda>(E, c). storage_command c) ws \<and> may ws f \<and> playable may cfg ms (launch i ws f)"
| "playable may cfg (Go i # ms) f \<longleftrightarrow> playable may cfg ms (advance cfg i f)"

lemma play_simps [simp]: "play cfg [] f = f" "play cfg (m # ms) f = play cfg ms (make cfg m f)"
  by (simp_all add: play_def)

lemma play_interleaved:
  "playable may cfg ms f \<Longrightarrow> interleaved may cfg f0 f \<Longrightarrow> interleaved may cfg f0 (play cfg ms f)"
  by (induction may cfg ms f rule: playable.induct) (auto intro: fly_launch fly_advance)

text \<open>A command whose steps are not interrupted is the command that \<open>Server\<close> executes in one step.\<close>

lemma uninterrupted_executes:
  assumes "storage_command c" "fl_tasks f i = Idle" "\<not> in_multi (conn_tx conn)" "cluster_gate cfg c = None"
    and "auth_gate (E 0) (sv_auth (fl_server f)) (authed_user conn) c = None"
  shows "fl_server (play cfg (Begin i [(E 0, c)] # (if is_write_command c then [Go i, Go i, Go i, Go i] else [Go i])) f) =
    fst (snd (execute_command cfg E c (fl_server f) conn))"
proof -
  have "exec_storage (cfg_hash cfg) (E 0) c (sv_storage (fl_server f)) \<noteq> None"
    using assms(1) by (cases c) (simp_all add: storage_command_def)
  then obtain r s where x: "exec_storage (cfg_hash cfg) (E 0) c (sv_storage (fl_server f)) = Some (r, s)" by auto
  then have serve: "serve (cfg_hash cfg) (E 0) c (sv_storage (fl_server f)) = s" by (simp add: serve_def)
  have "fst (snd (execute_command cfg E c (fl_server f) conn)) =
      (if is_write_command c then log_write cfg (E 0) c (fl_server f) else fl_server f)\<lparr>sv_storage := s\<rparr>"
    using assms(3-5) x by (auto simp: execute_command_def execute_with_def dispatch_def)
  moreover have "fl_server (play cfg (Begin i [(E 0, c)] # (if is_write_command c then [Go i, Go i, Go i, Go i] else [Go i])) f) =
      (if is_write_command c then log_write cfg (E 0) c (fl_server f) else fl_server f)\<lparr>sv_storage := s\<rparr>"
    using serve by (simp add: launch_def advance_def do_apply_def log_write_stages)
      (simp add: do_log_def do_replicate_def do_bump_def)
  ultimately show ?thesis by simp
qed

text \<open>The shards whose version a schedule counts up, in order.\<close>

fun bumped_now :: "config \<Rightarrow> move \<Rightarrow> flight \<Rightarrow> nat list" where
  "bumped_now cfg (Begin i ws) f = []"
| "bumped_now cfg (Go i) f = (case fl_tasks f i of At To_bump E c ws \<Rightarrow> bumped_shards (cfg_hash cfg) c | _ \<Rightarrow> [])"

fun bumped_by :: "config \<Rightarrow> move list \<Rightarrow> flight \<Rightarrow> nat list" where
  "bumped_by cfg [] f = []"
| "bumped_by cfg (m # ms) f = bumped_now cfg m f @ bumped_by cfg ms (make cfg m f)"

subsection \<open>WATCH under interleaving\<close>

text \<open>No write of the key has been counted that is still to be applied.\<close>

fun counted_write :: "bytes \<Rightarrow> task \<Rightarrow> bool" where
  "counted_write k (At To_apply E c ws) \<longleftrightarrow> is_write_command c \<and> k \<in> touched_keys c"
| "counted_write k _ \<longleftrightarrow> False"

definition calm :: "config \<Rightarrow> bytes \<Rightarrow> flight \<Rightarrow> bool" where
  "calm cfg k f \<longleftrightarrow> sharded (cfg_hash cfg) (sv_storage (fl_server f)) \<and> (\<forall>i. \<not> counted_write k (fl_tasks f i))"

lemma counted_begin [simp]: "\<not> counted_write k (begin_with ws)"
  by (cases ws rule: begin_with.cases) simp_all

lemma make_versions: "sv_versions (fl_server (make cfg m f)) = bumps (bumped_now cfg m f) (sv_versions (fl_server f))"
proof (cases m)
  case (Go i)
  then show ?thesis
    by (cases "(cfg, fl_tasks f i, fl_server f)" rule: stage_step.cases)
      (simp_all add: advance_def do_log_def do_replicate_def do_bump_def do_apply_def bump_versions_for_def bumps_def)
qed (simp add: launch_def bumps_def)

lemma bumps_append: "bumps (xs @ ys) vs = bumps ys (bumps xs vs)"
  by (simp add: bumps_def)

lemma play_versions: "sv_versions (fl_server (play cfg ms f)) = bumps (bumped_by cfg ms f) (sv_versions (fl_server f))"
  by (induction ms arbitrary: f) (simp_all add: make_versions bumps_append, simp add: bumps_def)

lemma make_staged:
  assumes "\<forall>i. well_staged (fl_tasks f i)" "sharded (cfg_hash cfg) (sv_storage (fl_server f))"
  shows "well_staged (fl_tasks (make cfg m f) j)" "sharded (cfg_hash cfg) (sv_storage (fl_server (make cfg m f)))"
proof -
  have "well_staged (fl_tasks (make cfg m f) j) \<and> sharded (cfg_hash cfg) (sv_storage (fl_server (make cfg m f)))"
  proof (cases m)
    case (Begin i ws)
    then show ?thesis using assms by (simp add: launch_def)
  next
    case (Go i)
    have "st = To_apply \<or> is_write_command c" if "fl_tasks f i = At st E c ws" for st E c ws
      using assms(1) that by (metis well_staged.simps(2))
    with Go show ?thesis
      using assms
      by (cases "(cfg, fl_tasks f i, fl_server f)" rule: stage_step.cases)
        (simp_all add: advance_def do_log_def do_replicate_def do_bump_def do_apply_def serve_sharded)
  qed
  then show "well_staged (fl_tasks (make cfg m f) j)" "sharded (cfg_hash cfg) (sv_storage (fl_server (make cfg m f)))" by blast+
qed

lemma make_calm:
  assumes "calm cfg k f" "\<forall>i. well_staged (fl_tasks f i)" "shard_index_for (cfg_hash cfg) k SHARD_COUNT \<notin> set (bumped_now cfg m f)"
  shows "calm cfg k (make cfg m f)"
    "lookup (cfg_hash cfg) (sv_storage (fl_server (make cfg m f))) k = lookup (cfg_hash cfg) (sv_storage (fl_server f)) k"
proof -
  have frame: "lookup (cfg_hash cfg) (serve (cfg_hash cfg) E c (sv_storage (fl_server f))) k = lookup (cfg_hash cfg) (sv_storage (fl_server f)) k"
    if "fl_tasks f i = At To_apply E c ws" for i E c ws
  proof (cases "is_write_command c")
    case True
    then have "k \<notin> touched_keys c" using assms(1) that unfolding calm_def by (metis counted_write.simps(1))
    then show ?thesis using serve_framed [of k c "cfg_hash cfg" _ E] assms(1) by (simp add: calm_def framed_def)
  qed (simp add: serve_reads)
  have "calm cfg k (make cfg m f) \<and>
    lookup (cfg_hash cfg) (sv_storage (fl_server (make cfg m f))) k = lookup (cfg_hash cfg) (sv_storage (fl_server f)) k"
  proof (cases m)
    case (Begin i ws)
    then show ?thesis using assms by (simp add: launch_def calm_def)
  next
    case (Go i)
    have "st = To_apply \<or> is_write_command c" if "fl_tasks f i = At st E c ws" for st E c ws
      using assms(2) that by (metis well_staged.simps(2))
    with Go show ?thesis
      using assms bump_covers_keys [of _ k "cfg_hash cfg"] frame [of i]
      by (cases "(cfg, fl_tasks f i, fl_server f)" rule: stage_step.cases)
        (auto simp: advance_def calm_def do_log_def do_replicate_def do_bump_def do_apply_def serve_sharded fun_upd_idem)
  qed
  then show "calm cfg k (make cfg m f)"
    "lookup (cfg_hash cfg) (sv_storage (fl_server (make cfg m f))) k = lookup (cfg_hash cfg) (sv_storage (fl_server f)) k"
    by blast+
qed

lemma play_calm:
  assumes "calm cfg k f" "\<forall>i. well_staged (fl_tasks f i)" "shard_index_for (cfg_hash cfg) k SHARD_COUNT \<notin> set (bumped_by cfg ms f)"
  shows "lookup (cfg_hash cfg) (sv_storage (fl_server (play cfg ms f))) k = lookup (cfg_hash cfg) (sv_storage (fl_server f)) k"
  using assms
proof (induction ms arbitrary: f)
  case (Cons m ms)
  then show ?case using make_calm [of cfg k f m] make_staged [of f cfg m] by (simp add: calm_def)
qed simp

lemma interleaved_staged:
  assumes "interleaved may cfg (at_rest sv0) f" "sharded (cfg_hash cfg) (sv_storage sv0)"
  shows "(\<forall>i. well_staged (fl_tasks f i)) \<and> sharded (cfg_hash cfg) (sv_storage (fl_server f)) \<and>
    length (sv_versions (fl_server f)) = length (sv_versions sv0)"
  using assms
proof (induction rule: interleaved.induct)
  case fly_start
  then show ?case by (simp add: at_rest_def)
next
  case (fly_launch f i ws)
  then show ?case using make_staged [of f cfg "Begin i ws"] by (simp add: launch_def)
next
  case (fly_advance f i)
  then show ?case
    using make_staged [of f cfg "Go i"] make_versions [of cfg "Go i" f] by simp
qed

subsection \<open>Properties\<close>

text \<open>
  (C4) Commands that run at the same time and touch no common key leave one history. Whatever order
  their appends, sends, version counts and storage operations interleave in, and with transactions
  among them, once all have ended the storage is what serving the writes one by one in the order of
  the log gives, and also what serving them in the order sent to the replicas gives, which may be
  another order.
\<close>

theorem disjoint_commands_linearize:
  assumes "interleaved apart cfg (at_rest sv0) f" "sharded (cfg_hash cfg) (sv_storage sv0)" "fl_tasks f = (\<lambda>_. Idle)"
  shows "\<exists>logged sent. list_all (\<lambda>(E, c). is_write_command c) logged \<and> list_all (\<lambda>(E, c). is_write_command c) sent \<and>
    sv_wal (fl_server f) = sv_wal (log_all cfg logged sv0) \<and>
    sv_replicator (fl_server f) = sv_replicator (log_all cfg sent sv0) \<and>
    lookup (cfg_hash cfg) (sv_storage (fl_server f)) = lookup (cfg_hash cfg) (serve_all (cfg_hash cfg) logged (sv_storage sv0)) \<and>
    lookup (cfg_hash cfg) (sv_storage (fl_server f)) = lookup (cfg_hash cfg) (serve_all (cfg_hash cfg) sent (sv_storage sv0))"
proof -
  note inv = orderly_runs [OF assms(1,2)]
  have "\<exists>ws. list_all (\<lambda>(E, c). is_write_command c) ws \<and> sv_wal (fl_server f) = sv_wal (log_all cfg ws sv0) \<and>
      lookup (cfg_hash cfg) (sv_storage (fl_server f)) = lookup (cfg_hash cfg) (serve_all (cfg_hash cfg) ws (sv_storage sv0))"
    using inv by (auto simp: orderly_def keeps_record_def assms(3) serve_all_def dest!: served.tracks_end)
  moreover have "\<exists>ws. list_all (\<lambda>(E, c). is_write_command c) ws \<and> sv_replicator (fl_server f) = sv_replicator (log_all cfg ws sv0) \<and>
      lookup (cfg_hash cfg) (sv_storage (fl_server f)) = lookup (cfg_hash cfg) (serve_all (cfg_hash cfg) ws (sv_storage sv0))"
    using inv by (auto simp: orderly_def keeps_record_def assms(3) serve_all_def dest!: served.tracks_end)
  ultimately show ?thesis by blast
qed

theorem disjoint_commands_linearize_witness:
  "\<exists>logged sent.
    lookup (cfg_hash sample_cfg) (sv_storage (fl_server (play sample_cfg
       [Begin 0 [(sample_env, C_String (Set ''k'' ''v'' None))], Begin 1 [(sample_env, C_String (Set ''ab'' ''w'' None))],
        Go 0, Go 1, Go 1, Go 0, Go 0, Go 1, Go 1, Go 0] (at_rest server_new)))) =
      lookup (cfg_hash sample_cfg) (serve_all (cfg_hash sample_cfg) logged (sv_storage server_new)) \<and>
    lookup (cfg_hash sample_cfg) (serve_all (cfg_hash sample_cfg) sent (sv_storage server_new)) =
      lookup (cfg_hash sample_cfg) (serve_all (cfg_hash sample_cfg) logged (sv_storage server_new))"
  (is "\<exists>logged sent. lookup _ (sv_storage (fl_server ?f)) = _ \<and> _")
proof -
  have "interleaved apart sample_cfg (at_rest server_new) ?f"
    by (rule play_interleaved [OF _ fly_start])
      (simp add: at_rest_def launch_def advance_def storage_command_def apart_def conflict_def)
  moreover have "fl_tasks ?f = (\<lambda>_. Idle)"
    by (simp add: at_rest_def launch_def advance_def fun_eq_iff panics_def)
  moreover have "sharded (cfg_hash sample_cfg) (sv_storage server_new)" by (simp add: server_new_def)
  ultimately show ?thesis using disjoint_commands_linearize [of sample_cfg server_new ?f] by metis
qed



subsection \<open>What interleaving breaks\<close>

lemma serve_set:
  "serve h E (C_String (Set k v None)) s = snd (cs_set h E k v None s)"
  "\<not> panics cfg E (C_String (Set k v None)) sv"
  by (simp_all add: serve_def panics_def)

lemma lookup_set: "sharded h s \<Longrightarrow> lookup h (snd (cs_set h E k v None s)) = (lookup h s)(k \<mapsto> String_v v None)"
  by (simp add: cs_set_def sharded_store.find_entry)

lemmas run_simps = at_rest_def launch_def advance_def do_log_def do_replicate_def do_bump_def do_apply_def
  storage_command_def serve_set lookup_set

text \<open>
  The log need not record the order in which two writes of one key were applied: of two connections
  that set it, the one that is logged first may be applied last. The storage then holds its value,
  and the log and the replicas the other's.
\<close>

theorem log_order_may_differ:
  fixes k x y :: bytes and E :: env
  defines "a \<equiv> (E, C_String (Set k x None))" and "b \<equiv> (E, C_String (Set k y None))"
  assumes "sharded (cfg_hash cfg) (sv_storage sv0)"
  shows "\<exists>f. interleaved (\<lambda>_ _. True) cfg (at_rest sv0) f \<and> fl_tasks f = (\<lambda>_. Idle) \<and>
    logs_agree (log_all cfg [a, b] sv0) (fl_server f) \<and>
    lookup (cfg_hash cfg) (sv_storage (fl_server f)) k = Some (String_v x None) \<and>
    lookup (cfg_hash cfg) (serve_all (cfg_hash cfg) [a, b] (sv_storage sv0)) k = Some (String_v y None)"
proof -
  let ?ms = "[Begin 0 [a], Begin 1 [b], Go 0, Go 0, Go 0, Go 1, Go 1, Go 1, Go 1, Go 0]"
  have "interleaved (\<lambda>_ _. True) cfg (at_rest sv0) (play cfg ?ms (at_rest sv0))"
    by (rule play_interleaved [OF _ fly_start]) (simp add: a_def b_def run_simps)
  moreover have "fl_tasks (play cfg ?ms (at_rest sv0)) = (\<lambda>_. Idle)"
    by (simp add: a_def b_def run_simps fun_eq_iff)
  moreover have "logs_agree (log_all cfg [a, b] sv0) (fl_server (play cfg ?ms (at_rest sv0)))"
    by (simp add: a_def b_def run_simps logs_agree_def log_write_def)
  moreover have "lookup (cfg_hash cfg) (sv_storage (fl_server (play cfg ?ms (at_rest sv0)))) k = Some (String_v x None)"
    using assms(3) by (simp add: a_def b_def run_simps serve_sharded [of _ _ E "C_String (Set k y None)", unfolded serve_set])
  moreover have "lookup (cfg_hash cfg) (serve_all (cfg_hash cfg) [a, b] (sv_storage sv0)) k = Some (String_v y None)"
    using assms(3) by (simp add: a_def b_def serve_all_def run_simps serve_sharded [of _ _ E "C_String (Set k x None)", unfolded serve_set])
  ultimately show ?thesis by blast
qed

text \<open>
  A write is counted before it is applied: a WATCH in between takes the new version and the old value,
  and EXEC then finds nothing changed although the key has.
\<close>

theorem watch_misses_counted_write:
  assumes "sharded (cfg_hash cfg) (sv_storage sv0)" "lookup (cfg_hash cfg) (sv_storage sv0) k = None"
  shows "\<exists>f. interleaved (\<lambda>_ _. True) cfg (at_rest sv0) f \<and>
    \<not> any_watched_changed (sv_versions (fl_server (advance cfg 0 f)))
        (watch_keys (cfg_hash cfg) (sv_versions (fl_server f)) [k] tx_new) \<and>
    lookup (cfg_hash cfg) (sv_storage (fl_server f)) k = None \<and>
    lookup (cfg_hash cfg) (sv_storage (fl_server (advance cfg 0 f))) k = Some (String_v x None)"
proof -
  let ?ms = "[Begin 0 [(E, C_String (Set k x None))], Go 0, Go 0, Go 0]" and ?f0 = "at_rest sv0"
  have "interleaved (\<lambda>_ _. True) cfg ?f0 (play cfg ?ms ?f0)"
    by (rule play_interleaved [OF _ fly_start]) (simp add: run_simps)
  moreover have "sv_versions (fl_server (advance cfg 0 (play cfg ?ms ?f0))) = sv_versions (fl_server (play cfg ?ms ?f0))"
    "lookup (cfg_hash cfg) (sv_storage (fl_server (play cfg ?ms ?f0))) k = None"
    "lookup (cfg_hash cfg) (sv_storage (fl_server (advance cfg 0 (play cfg ?ms ?f0)))) k = Some (String_v x None)"
    using assms by (simp_all add: run_simps)
  moreover have "\<not> any_watched_changed vs (watch_keys h vs [k] tx_new)" for h vs
    by (simp add: any_watched_changed_def watch_keys_def tx_watch_def tx_new_def)
  ultimately show ?thesis by (intro exI [of _ "play cfg ?ms ?f0"]) simp
qed

text \<open>
  A transaction is not atomic: between two commands of its queue the first is visible, and any other
  connection may run.
\<close>

theorem transaction_visible_half_done:
  assumes "sharded (cfg_hash cfg) (sv_storage sv0)" "j \<noteq> k"
  shows "\<exists>f. interleaved (\<lambda>_ _. True) cfg (at_rest sv0) f \<and>
    fl_tasks f = (\<lambda>_. Idle)(0 := At To_log E (C_String (Set k y None)) []) \<and>
    lookup (cfg_hash cfg) (sv_storage (fl_server f)) = (lookup (cfg_hash cfg) (sv_storage sv0))(j \<mapsto> String_v x None)"
proof -
  let ?ms = "[Begin 0 [(E, C_String (Set j x None)), (E, C_String (Set k y None))], Go 0, Go 0, Go 0, Go 0]"
  have "interleaved (\<lambda>_ _. True) cfg (at_rest sv0) (play cfg ?ms (at_rest sv0))"
    by (rule play_interleaved [OF _ fly_start]) (simp add: run_simps)
  then show ?thesis
    using assms by (intro exI [of _ "play cfg ?ms (at_rest sv0)"]) (simp add: run_simps fun_eq_iff)
qed

end
