(* ===== verification/Spec2Isabelle.thy ===== *)
theory Spec2Isabelle
  imports Keys_Properties Collection_Properties Sorted_Properties Protocol_Properties Run Durability_Properties Type_Properties
    Replication_Link Client Gossip Startup Interleaving
begin

text \<open>
  \<^bold>\<open>A verification of the ferric-cache server\<close>

  The program is a cache server that speaks RESP (src/cache/src). A connection reads bytes,
  cuts them into commands and executes each against a storage of 64 shards; every write is
  first logged to a write-ahead log, sent to the replicas and counted in the version of its
  shard, so that restart, replication and \<open>WATCH\<close> see it. This development models those parts
  as executable functions, one theory per component, in the order in which they build on each
  other:

  \<^item> \<open>Rust_Prelude\<close>: what is used of Rust and its library (wrapping and checked \<open>i64\<close>, decimal
    numbers, lossy UTF-8, hash tables as association lists with an arbitrary iteration order,
    \<open>Result\<close> as a sum); the collections \<open>value_inv_intros\<close> and \<open>storage_inv_intros\<close>.
  \<^item> \<open>BTree_Map\<close>: \<open>BTreeMap\<close> as an ordered list, with the locale \<open>ranked_order\<close> that its three
    uses interpret (scores, stream ids, positions on the ring).
  \<^item> \<open>Value_Types\<close>, \<open>Sorted_Set\<close>, \<open>Stream_Value\<close>, \<open>Cache_Value\<close> (data_structures/): the six value
    types, their methods and invariants; the locale \<open>expiry_slot\<close> is the contract of the deadline.
  \<^item> \<open>Sharded_Map\<close>, \<open>Storage_Keys\<close>, \<open>Storage_Collections\<close>, \<open>Storage_Sorted\<close> (storage.rs): the shards
    and all operations of \<open>CacheStorage\<close>. Every operation is one access to an entry of a shard,
    as the code takes one lock; the locale \<open>keyed_store\<close>, interpreted on the shards, says that
    they behave as one map.
  \<^item> \<open>Resp\<close>, \<open>Command_Parser\<close> (protocol.rs): RESP and the parser and printer of commands.
  \<^item> \<open>Apply_Command\<close> (commands.rs): the application of a logged write.
  \<^item> \<open>Wal\<close>, \<open>Snapshot\<close> (persistence/) and \<open>Replication\<close> (replication/): the log with its buffered
    writer, segments and replay; the snapshot and the restart; the master and the replica. The
    locale \<open>recent_log\<close> is what the server relies on of the log.
  \<^item> \<open>Transactions\<close>, \<open>Pub_Sub\<close>, \<open>Security\<close>, \<open>Cluster_Ring\<close>, \<open>Scripting\<close> (files of the same names,
    security/, cluster/): the remaining parts a command meets.
  \<^item> \<open>Dispatch\<close>, \<open>Server\<close> (server.rs): the arms of \<open>execute_command\<close>, its gates, \<open>EXEC\<close>, scripts,
    and the loop of a connection; \<open>Server_Facts\<close> has the lemmas on them.
  \<^item> \<open>Event_System\<close>: the locale of components driven by events, which the network of members
    interprets; \<open>Commutation\<close> extends it to events that touch only a part of the state and interprets
    it on the serving of commands: two commands without a common key can be exchanged.
  \<^item> \<open>System\<close>: the server and any number of connections as a step relation; \<open>History\<close>: the
    sequential machine that it refines.
  \<^item> \<open>Interleaving\<close> (server.rs, \<open>execute_command\<close>): commands of several connections whose steps
    (append to the log, send to the replicas, count, apply) alternate in any order.
  \<^item> \<open>Tls_Connection\<close> (server.rs): the loop of a TLS connection, over any stream that keeps the
    contract \<open>buffered_stream\<close>, which the log's writer keeps too.
  \<^item> \<open>Run\<close> (server.rs, \<open>run\<close>): the system with its background tasks, which sync the log and take
    snapshots in three steps.
  \<^item> \<open>Replication_Link\<close> (replication/): a master and a replica over a connection that may fail.
  \<^item> \<open>Client\<close> (client.rs): the client library, and a call over a connection of the server.
  \<^item> \<open>Gossip\<close> (cluster/gossip.rs): a member, and a network of members with its datagrams.
  \<^item> \<open>Tls\<close> (tls/mod.rs): the acceptor, with what rustls answers as a parameter.
  \<^item> \<open>Startup\<close> (config.rs, persistence/mod.rs, main.rs, the constructors of server.rs): from the
    configuration file to the server that is about to serve.
  \<^item> \<open>Keys_Properties\<close>, \<open>Collection_Properties\<close>, \<open>Sorted_Properties\<close>, \<open>Type_Properties\<close>,
    \<open>Protocol_Properties\<close>, \<open>Server_Properties\<close>, \<open>Durability_Properties\<close> and this theory: the theorems.

  \<^bold>\<open>State and effects.\<close> A method that takes \<open>&mut self\<close>, or locks, returns its result and the new
  state. Failures are values of a sum type, and a panic is \<open>None\<close>, with the state as it is at that
  point. The record \<open>env\<close> holds what a command reads of the outside: the clocks, the iteration
  order of hash tables, the random choices, the largest capacity that can be reserved, the
  operations on \<open>f64\<close> that are used as they are; each command has an environment of its own.
  Integers are \<open>int\<close> with the wrap-around of a release build written out, or words; scores are
  the 64 bits of a float, ordered as \<open>partial_cmp\<close> orders them.

  \<^bold>\<open>Parameters.\<close> Code that is not in the repository is an argument: the hash xxh3 (\<open>hasher\<close>), the
  encodings of \<open>bincode\<close> and the CRC (\<open>wal_codec\<close>, \<open>repl_codec\<close>, \<open>snap_codec\<close>), the Lua interpreter
  (\<open>mlua\<close>, a tree of its calls), SHA-1 and the Argon2 verification (\<open>config\<close>), the JSON parser, the
  socket addresses, rustls and the Argon2 hash (\<open>os\<close>, \<open>tls_lib\<close>). What is assumed of
  them is named: \<open>codec_ok\<close>, \<open>repl_codec_ok\<close>, \<open>snap_codec_ok\<close> (what was encoded decodes to itself
  and fits its length field) and \<open>is_order\<close> (an iteration visits each key once).

  \<^bold>\<open>What is shown.\<close> The invariant of the storage is kept by every command (here) and holds, with the
  shared state of the connections, in every reachable state of the system (\<open>System\<close>); the storage
  that is reached is that of one sequence of writes and cleanups, the one that the log, the replicas
  and the versions record (\<open>History\<close>), also when the log is synced and snapshots are taken meanwhile
  (\<open>Run\<close>). Commands whose steps alternate have the effect of one after the other, if none touches a
  key of another, and \<open>WATCH\<close> still notices every write that was counted after it
  (\<open>Interleaving\<close>). A TLS connection is served as a plain one (\<open>Tls_Connection\<close>). The values:
  what each family of commands returns, in terms of the map, the list, the order of the scores
  and the ids (\<open>Keys_\<close>, \<open>Collection_\<close>, \<open>Sorted_Properties\<close>); which commands may change a type or
  a deadline (\<open>Type_Properties\<close>). The protocol: round trips, and that a
  frame is parsed the same whatever follows it (\<open>Protocol_Properties\<close>), hence that the cutting of
  the input into reads does not matter and no complete command is left unanswered
  (\<open>Server_Properties\<close>). The gates: without authentication nothing changes, a command that is not
  permitted is refused; \<open>WATCH\<close> aborts when a watched key was written; \<open>EXEC\<close> runs its queue in
  order or not at all. Durability: what a command, a transaction or a script did to the storage is
  exactly what its log entries do when they are replayed, by the log, by a replica, in any order of
  the hash tables; the snapshot gives back every value; a restart gives back the state,
  that of the moment the last snapshot began with what was logged since it ended
  (\<open>Run\<close>, \<open>Server_Properties\<close>, \<open>Durability_Properties\<close>). Where the code departs from this, the exception is
  a hypothesis and a theorem of its own: a torn log, rotation and truncation, the commands that
  replay differently, an \<open>UNSUBSCRIBE\<close> that does not, permissions on several keys; and, when
  commands alternate, two writes of one key that are logged in one order and applied in the other,
  a write that is counted before a \<open>WATCH\<close> and applied after its read, and a transaction that
  others see half done.

  \<^bold>\<open>Bounds.\<close> The source calls \<open>execute_command\<close> from \<open>EXEC\<close>; here the recursion has a depth, and
  depth one is enough because a queue never holds a transaction command (\<open>exec_depth_enough\<close>). All
  loops over input terminate by its length (\<open>parse_resp\<close>, \<open>drain\<close>, \<open>replay_file\<close>,
  \<open>scan_sequences\<close>, \<open>replica_receive\<close>). Lengths of collections are below \<open>2 ^ 63\<close> where the code
  casts them to \<open>i64\<close>.

  \<^bold>\<open>The network and the start.\<close> A client that sets and gets a key reads its value back, however
  the replies are cut (\<open>Client\<close>). A replica has applied a first part of its master's writes, in
  order and once, as long as its connection lasts (\<open>Replication_Link\<close>). A member of a cluster knows
  only the nodes that joined through it, and a node it has struck off its ring never returns to it (\<open>Gossip\<close>). A server that starts is well
  formed whatever its files hold, keeps the logs its configuration asks for and knows exactly the
  configured users (\<open>Startup\<close>).

  \<^bold>\<open>Not modelled.\<close> Sockets; failing disks; the scheduling inside a storage operation that visits several
  shards and inside a script, which are one step each (\<open>System\<close> and \<open>Run\<close> take whole commands as
  steps, \<open>Interleaving\<close> the four steps of a write; the order of the steps is arbitrary); the printing of a configuration and of log
  messages; the bound of a replication channel, which makes a master wait; the handshake of TLS, after
  which alone a connection exists.
\<close>

section \<open>The storage as one map\<close>

text \<open>
  (C15) The 64 shards behave as one map, for every hash function: an operation on a key sees
  the value last stored under that key, its result depends on nothing else, and it changes no
  other key.
\<close>

theorem shards_are_one_map:
  assumes "sharded h s"
  shows "fst (with_entry h k f s) = fst (f (lookup h s k)) \<and>
    lookup h (snd (with_entry h k f s)) = (lookup h s)(k := snd (f (lookup h s k))) \<and>
    sharded h (snd (with_entry h k f s)) \<and>
    (snd (f (lookup h s k)) = lookup h s k \<longrightarrow> snd (with_entry h k f s) = s)"
  using sharded_store.find_entry [OF assms] sharded_store.wf_entry [OF assms]
    sharded_store.entry_unchanged [OF assms] sharded_store.entry_result by blast

theorem shards_are_one_map_witness:
  "lookup (\<lambda>_. 5) (snd (with_entry (\<lambda>_. 5) ''k'' (\<lambda>_. ((), Some (String_v ''v'' None))) storage_new)) =
     [''k'' \<mapsto> String_v ''v'' None]"
proof -
  have "lookup (\<lambda>_. 5) storage_new = (\<lambda>_. None)" by (simp add: fun_eq_iff)
  then show ?thesis
    using shards_are_one_map [OF sharded_new, of "\<lambda>_. 5" "''k''" "\<lambda>_. ((), Some (String_v ''v'' None))"]
    by simp
qed

section \<open>Applying a logged command\<close>

text \<open>
  (C1) Applying any command to a well-formed storage gives a well-formed storage, panics
  included: every key is in the shard its hash selects and there once, the fields of a hash
  and the members of a set are distinct, the two indexes of a sorted set agree, and the
  entries of a stream are ordered below its last id; provided no score becomes NaN and no
  automatic stream id wraps.
\<close>

theorem apply_keeps_invariant:
  assumes "storage_inv h s" "command_ok h E s cmd"
  shows "storage_inv h (snd (apply_write_command h E cmd s))"
  using assms by (rule apply_write_command_inv)

theorem apply_keeps_invariant_witness:
  "storage_inv (\<lambda>_. 5) (snd (apply_write_command (\<lambda>_. 5) sample_env
     (C_ZSet (ZAdd ''z'' [(1, ''a''), (2, ''a''), (1, ''b'')])) storage_new))"
proof -
  have "command_ok (\<lambda>_. 5) sample_env storage_new (C_ZSet (ZAdd ''z'' [(1, ''a''), (2, ''a''), (1, ''b'')]))"
    by simp
  with storage_inv_new show ?thesis by (rule apply_keeps_invariant)
qed

text \<open>
  (C26) Applying a command changes no key but the ones it names (FLUSHALL names all).
\<close>

theorem apply_touches_only_its_keys:
  assumes "sharded h s" "k \<notin> touched_keys cmd"
  shows "lookup h (snd (apply_write_command h E cmd s)) k = lookup h s k"
  using apply_write_command_framed [OF assms(2)] assms(1) by (simp add: framed_def)

theorem apply_touches_only_its_keys_witness:
  "lookup (\<lambda>_. 5) (snd (apply_write_command (\<lambda>_. 5) sample_env (C_Key (Rename ''a'' ''b''))
     (one_string ''k'' ''v''))) ''k'' = Some (String_v ''v'' None)"
proof -
  have "''k'' \<notin> touched_keys (C_Key (Rename ''a'' ''b''))" by simp
  from apply_touches_only_its_keys [OF one_string_facts(1) this] show ?thesis
    by (simp only: one_string_facts)
qed

text \<open>
  A command that is not logged has no effect when it is applied: the two lists of
  commands.rs agree.
\<close>

theorem non_writes_do_nothing:
  assumes "\<not> is_write_command cmd"
  shows "apply_write_command h E cmd s = (Some (), s)"
  using assms by (rule non_writes_change_nothing)

theorem non_writes_do_nothing_witness:
  "apply_write_command (\<lambda>_. 5) sample_env (C_Set (SRandMember ''s'' None)) storage_new = (Some (), storage_new)"
proof -
  have "\<not> is_write_command (C_Set (SRandMember ''s'' None))" by simp
  then show ?thesis by (rule non_writes_do_nothing)
qed

end
